(* ===== verification/Prelude.thy ===== *)
theory Prelude
  imports Main "HOL-Library.Word"
begin

unbundle bit_operations_syntax

text \<open>
  Shared vocabulary of the development: the machine-integer types of the Rust sources, the
  fallible result type with its sequencing operator (the \<open>?\<close> of the sources), the byte
  codecs \<open>to_be_bytes\<close>/\<open>from_be_bytes\<close> and \<open>to_ne_bytes\<close>/\<open>from_ne_bytes\<close> (the shipped target is
  little-endian), and the list lemmas that several components use.

  The collection \<open>wire\<close> holds the round-trip facts about the byte codecs, so that
  \<open>simp add: wire\<close> carries the codec proofs of the VRRP, BGP and netlink theories.
\<close>

named_theorems wire \<open>round-trip facts of byte codecs\<close>

type_synonym u8 = "8 word"
type_synonym u16 = "16 word"
type_synonym u32 = "32 word"
type_synonym u64 = "64 word"
type_synonym bytes = "u8 list"

subsection \<open>Results\<close>

text \<open>\<open>Result<T, E>\<close>: \<open>Inl\<close> is \<open>Err\<close>, \<open>Inr\<close> is \<open>Ok\<close>; \<open>rbind\<close> is the question mark operator.\<close>

type_synonym ('e, 'a) result = "'e + 'a"

definition rbind :: "('e, 'a) result \<Rightarrow> ('a \<Rightarrow> ('e, 'b) result) \<Rightarrow> ('e, 'b) result" where
  "rbind r f = (case r of Inl e \<Rightarrow> Inl e | Inr a \<Rightarrow> f a)"

lemma rbind_simps [simp]:
  "rbind (Inl e) f = Inl e"
  "rbind (Inr a) f = f a"
  by (simp_all add: rbind_def)

lemma rbind_eq_Inr: "rbind r f = Inr b \<longleftrightarrow> (\<exists>a. r = Inr a \<and> f a = Inr b)"
  by (cases r) auto

lemma rbind_eq_Inl: "rbind r f = Inl e \<longleftrightarrow> r = Inl e \<or> (\<exists>a. r = Inr a \<and> f a = Inl e)"
  by (cases r) auto

text \<open>\<open>ensure!(c, e)\<close>.\<close>

definition ensure :: "bool \<Rightarrow> 'e \<Rightarrow> ('e, unit) result" where
  "ensure c e = (if c then Inr () else Inl e)"

lemma ensure_eq [simp]:
  "ensure c e = Inr u \<longleftrightarrow> c"
  "ensure c e = Inl e' \<longleftrightarrow> \<not> c \<and> e' = e"
  by (auto simp: ensure_def)

subsection \<open>Big-endian and native (little-endian) integers\<close>

definition be16 :: "u16 \<Rightarrow> bytes" where
  "be16 w = [ucast (drop_bit 8 w), ucast w]"

definition of_be16 :: "u8 \<Rightarrow> u8 \<Rightarrow> u16" where
  "of_be16 a b = push_bit 8 (ucast a) OR ucast b"

definition le16 :: "u16 \<Rightarrow> bytes" where
  "le16 w = [ucast w, ucast (drop_bit 8 w)]"

definition le32 :: "u32 \<Rightarrow> bytes" where
  "le32 w = [ucast w, ucast (drop_bit 8 w), ucast (drop_bit 16 w), ucast (drop_bit 24 w)]"

definition of_le32 :: "u8 \<Rightarrow> u8 \<Rightarrow> u8 \<Rightarrow> u8 \<Rightarrow> u32" where
  "of_le32 a b c d =
     ucast a OR push_bit 8 (ucast b) OR push_bit 16 (ucast c) OR push_bit 24 (ucast d)"

lemma length_codecs [simp]:
  "length (be16 w) = 2" "length (le16 w) = 2" "length (le32 v) = 4"
  by (simp_all add: be16_def le16_def le32_def)

lemma of_be16_split [wire]: "of_be16 (ucast (drop_bit 8 w)) (ucast w) = w"
  unfolding of_be16_def by (rule bit_word_eqI) (auto simp: bit_simps)

lemma u8_bit_bound: "bit (b :: u8) n \<Longrightarrow> n < 8"
  by (drule bit_imp_le_length) simp

lemma of_be16_high [wire]: "ucast (drop_bit 8 (of_be16 a b)) = a"
  unfolding of_be16_def by (rule bit_word_eqI) (auto simp: bit_simps dest: u8_bit_bound)

lemma of_be16_low [wire]: "ucast (of_be16 a b) = b"
  unfolding of_be16_def by (rule bit_word_eqI) (auto simp: bit_simps dest: u8_bit_bound)

lemma be16_of_be16 [wire]: "be16 (of_be16 a b) = [a, b]"
  by (simp add: be16_def wire)

lemma of_be16_nth [wire]: "of_be16 (be16 w ! 0) (be16 w ! 1) = w"
  by (simp add: be16_def wire)

lemma of_le32_split [wire]:
  "of_le32 (ucast w) (ucast (drop_bit 8 w)) (ucast (drop_bit 16 w)) (ucast (drop_bit 24 w)) = w"
proof (rule bit_word_eqI)
  fix n assume "n < LENGTH(32)"
  then consider "n < 8" | "8 \<le> n" "n < 16" | "16 \<le> n" "n < 24" | "24 \<le> n" "n < 32"
    by force
  then show "bit (of_le32 (ucast w) (ucast (drop_bit 8 w)) (ucast (drop_bit 16 w))
      (ucast (drop_bit 24 w))) n \<longleftrightarrow> bit w n"
    by cases (auto simp: of_le32_def bit_simps)
qed

lemma u8_less: "unat (b :: u8) < 256"
  using unsigned_less [of b, where ?'a = nat] by simp

lemma u16_less: "unat (w :: u16) < 65536"
  using unsigned_less [of w, where ?'a = nat] by simp

lemma unat_u8_to_u16: "unat (ucast (b :: u8) :: u16) = unat b"
  using u8_less [of b] by (simp add: unsigned_ucast_eq take_bit_nat_eq_self_iff)

lemma unat_of_be16: "unat (of_be16 a b) = unat a * 256 + unat b"
proof -
  have disj: "of_be16 a b = push_bit 8 (ucast a) + ucast b"
    unfolding of_be16_def
    by (rule disjunctive_add [symmetric]) (auto simp: bit_simps dest: u8_bit_bound)
  have "unat (push_bit 8 (ucast a) :: u16) = unat a * 256"
    using u8_less [of a]
    by (simp add: push_bit_eq_mult unat_word_ariths unat_u8_to_u16)
  then show ?thesis
    using u8_less [of a] u8_less [of b]
    by (simp add: disj unat_word_ariths unat_u8_to_u16)
qed

lemma and_0fff: "unat (w :: u16) < 4096 \<Longrightarrow> w AND 0x0fff = w"
  using less_mask_eq [of w 12] by (simp add: word_less_nat_alt mask_eq_exp_minus_1)

lemma unat_word16: "n < 65536 \<Longrightarrow> unat (word_of_nat n :: u16) = n"
  by (simp add: unsigned_of_nat take_bit_nat_eq_self_iff)

lemma unat_word32: "n < 4294967296 \<Longrightarrow> unat (word_of_nat n :: u32) = n"
  by (simp add: unsigned_of_nat take_bit_nat_eq_self_iff)

lemma unat_u8_to_u32: "unat (ucast (b :: u8) :: u32) = unat b"
  using u8_less [of b] by (simp add: unsigned_ucast_eq take_bit_nat_eq_self_iff)

lemma unat_u16_to_u32: "unat (ucast (w :: u16) :: u32) = unat w"
  using u16_less [of w] by (simp add: unsigned_ucast_eq take_bit_nat_eq_self_iff)

lemma unat_u32_to_u16: "unat (w :: u32) < 65536 \<Longrightarrow> unat (ucast w :: u16) = unat w"
  by (simp add: unsigned_ucast_eq take_bit_nat_eq_self_iff)

lemma ucast_u16_u32: "unat (w :: u32) < 65536 \<Longrightarrow> ucast (ucast w :: u16) = w"
  by (simp only: word_unat_eq_iff unat_u16_to_u32 unat_u32_to_u16)

subsection \<open>Lists\<close>

lemma find_SomeD: "List.find P xs = Some x \<Longrightarrow> x \<in> set xs \<and> P x"
  by (induction xs) (auto split: if_splits)

subsection \<open>Ordered maps\<close>

text \<open>
  A \<open>BTreeMap\<close> is the list of its entries in key order: \<open>map_of\<close> is \<open>get\<close>, \<open>bt_insert\<close> replaces or
  inserts, \<open>bt_remove\<close> removes.
\<close>

fun bt_insert :: "'k :: linorder \<Rightarrow> 'v \<Rightarrow> ('k \<times> 'v) list \<Rightarrow> ('k \<times> 'v) list" where
  "bt_insert k v [] = [(k, v)]"
| "bt_insert k v ((k', v') # m) =
     (if k < k' then (k, v) # (k', v') # m
      else if k = k' then (k, v) # m
      else (k', v') # bt_insert k v m)"

definition bt_remove :: "'k \<Rightarrow> ('k \<times> 'v) list \<Rightarrow> ('k \<times> 'v) list" where
  "bt_remove k m = filter (\<lambda>(k', _). k' \<noteq> k) m"

definition bt_ok :: "('k :: linorder \<times> 'v) list \<Rightarrow> bool" where
  "bt_ok m \<longleftrightarrow> sorted_wrt (<) (map fst m)"

lemma bt_ok_Nil [simp]: "bt_ok []"
  by (simp add: bt_ok_def)

lemma bt_ok_Cons: "bt_ok ((k, v) # m) \<longleftrightarrow> (\<forall>k' \<in> fst ` set m. k < k') \<and> bt_ok m"
  by (auto simp: bt_ok_def)

lemma keys_bt_insert: "fst ` set (bt_insert k v m) = insert k (fst ` set m)"
  by (induction k v m rule: bt_insert.induct) auto

lemma bt_ok_insert [simp]: "bt_ok m \<Longrightarrow> bt_ok (bt_insert k v m)"
  by (induction k v m rule: bt_insert.induct) (auto simp: bt_ok_Cons keys_bt_insert)

lemma bt_ok_remove [simp]: "bt_ok m \<Longrightarrow> bt_ok (bt_remove k m)"
  by (induction m) (auto simp: bt_ok_Cons bt_remove_def)

lemma map_of_bt_insert [simp]: "bt_ok m \<Longrightarrow> map_of (bt_insert k v m) = (map_of m)(k \<mapsto> v)"
proof (induction k v m rule: bt_insert.induct)
  case (2 k v k' v' m)
  have "k \<notin> fst ` set m" if "k < k'"
    using "2.prems" that by (auto simp: bt_ok_Cons)
  then show ?case
    using 2 by (auto simp: bt_ok_Cons fun_eq_iff)
qed simp

lemma map_of_bt_remove [simp]: "map_of (bt_remove k m) = (map_of m)(k := None)"
  by (induction m) (auto simp: bt_remove_def fun_eq_iff)

lemma bt_ok_distinct: "bt_ok m \<Longrightarrow> distinct (map fst m)"
  by (simp add: bt_ok_def strict_sorted_iff)

lemma bt_ext: "bt_ok m \<Longrightarrow> bt_ok m' \<Longrightarrow> map_of m = map_of m' \<Longrightarrow> m = m'"
proof -
  assume ok: "bt_ok m" "bt_ok m'" and eq: "map_of m = map_of m'"
  have "(a, b) \<in> set m \<longleftrightarrow> (a, b) \<in> set m'" for a b
    using ok [THEN bt_ok_distinct] eq by (metis map_of_eq_Some_iff)
  then have eqs: "set m = set m'" by auto
  have "map fst m = map fst m'"
    using ok eqs strict_sorted_equal [of "map fst m" "map fst m'"] by (simp add: bt_ok_def)
  moreover have "inj_on fst (set m \<union> set m')"
    using ok [THEN bt_ok_distinct] eqs by (simp add: distinct_map)
  ultimately show "m = m'" by (rule map_inj_on)
qed

lemma set_bt_insert:
  "bt_ok m \<Longrightarrow> set (bt_insert k v m) = insert (k, v) {x \<in> set m. fst x \<noteq> k}"
proof -
  assume m: "bt_ok m"
  have ins: "(a, b) \<in> set (bt_insert k v m) \<longleftrightarrow> map_of (bt_insert k v m) a = Some b" for a b
    using bt_ok_distinct [OF bt_ok_insert [OF m]] by simp
  have old: "(a, b) \<in> set m \<longleftrightarrow> map_of m a = Some b" for a b
    using bt_ok_distinct [OF m] by simp
  have "(a, b) \<in> set (bt_insert k v m) \<longleftrightarrow> (a, b) \<in> insert (k, v) {x \<in> set m. fst x \<noteq> k}" for a b
    using m by (cases "a = k") (auto simp: ins old)
  then show ?thesis by auto
qed

lemma set_bt_remove: "set (bt_remove k m) = {x \<in> set m. fst x \<noteq> k}"
  by (auto simp: bt_remove_def)

end
