(* ===== verification/Net.thy ===== *)
theory Net
  imports Rust_Strings "HOL-Library.Product_Lexorder"
begin

text \<open>
  \<open>std::net\<close> as far as the sources use it: IPv4 addresses with their order (the VRRP tie-break
  compares them), their textual form (\<open>to_string\<close>, \<open>parse\<close>), and socket addresses.
\<close>

subsection \<open>IPv4 addresses\<close>

datatype ipv4 = Ipv4 (oct0: u8) (oct1: u8) (oct2: u8) (oct3: u8)

fun octets :: "ipv4 \<Rightarrow> bytes" where
  "octets (Ipv4 a b c d) = [a, b, c, d]"

lemma length_octets [simp]: "length (octets ip) = 4"
  by (cases ip) simp

lemma octets_inj [simp]: "octets x = octets y \<longleftrightarrow> x = y"
  by (cases x; cases y) simp

text \<open>\<open>Ipv4Addr: Ord\<close> compares the octets, the first one first.\<close>

fun ord_key :: "ipv4 \<Rightarrow> u8 \<times> u8 \<times> u8 \<times> u8" where
  "ord_key (Ipv4 a b c d) = (a, b, c, d)"

lemma ord_key_inj: "ord_key x = ord_key y \<longleftrightarrow> x = y"
  by (cases x; cases y) simp

instantiation ipv4 :: linorder
begin

definition less_eq_ipv4 :: "ipv4 \<Rightarrow> ipv4 \<Rightarrow> bool" where
  "less_eq_ipv4 x y \<longleftrightarrow> ord_key x \<le> ord_key y"

definition less_ipv4 :: "ipv4 \<Rightarrow> ipv4 \<Rightarrow> bool" where
  "less_ipv4 x y \<longleftrightarrow> ord_key x < ord_key y"

instance
  by standard (auto simp: less_eq_ipv4_def less_ipv4_def ord_key_inj simp flip: ord_key_inj)

end

subsection \<open>Their textual form\<close>

definition show_ipv4 :: "ipv4 \<Rightarrow> string" where
  "show_ipv4 ip =
     dec (unat (oct0 ip)) @ ''.'' @ dec (unat (oct1 ip)) @ ''.'' @
     dec (unat (oct2 ip)) @ ''.'' @ dec (unat (oct3 ip))"

text \<open>One to three digits, no leading zero, at most 255.\<close>

definition parse_octet :: "string \<Rightarrow> u8 option" where
  "parse_octet s =
     (if s \<noteq> [] \<and> length s \<le> 3 \<and> list_all is_digit s
         \<and> (hd s = CHR ''0'' \<longrightarrow> length s = 1) \<and> digits_val s < 256
      then Some (word_of_nat (digits_val s)) else None)"

definition parse_ipv4 :: "string \<Rightarrow> ipv4 option" where
  "parse_ipv4 s =
     (case split_on CHR ''.'' s of
        [a, b, c, d] \<Rightarrow>
          (case (parse_octet a, parse_octet b, parse_octet c, parse_octet d) of
             (Some a', Some b', Some c', Some d') \<Rightarrow> Some (Ipv4 a' b' c' d')
           | _ \<Rightarrow> None)
      | _ \<Rightarrow> None)"

lemma dec_length3: "n < 1000 \<Longrightarrow> length (dec n) \<le> 3"
  by (simp add: dec.simps [of n] dec.simps [of "n div 10"] dec.simps [of "n div 10 div 10"])

lemma dec_no_leading_zero: "hd (dec n) = CHR ''0'' \<Longrightarrow> n = 0"
proof (induction n rule: dec.induct)
  case (1 n)
  show ?case
  proof (cases "n < 10")
    case True
    with "1.prems" have "48 + n = byte CHR ''0''"
      using byte_char_of [of "48 + n"] by (simp add: dec.simps [of n] digit_char_def)
    then show ?thesis by (simp add: byte_def)
  next
    case False
    with "1.prems" have "hd (dec (n div 10)) = CHR ''0''"
      by (simp add: dec.simps [of n])
    with "1.IH" False show ?thesis by simp
  qed
qed

lemma parse_octet_dec [simp]: "parse_octet (dec (unat b)) = Some b"
  using u8_less [of b] dec_length3 [of "unat b"] dec_no_leading_zero [of "unat b"]
  by (auto simp: parse_octet_def dec.simps [of 0])

lemma dec_no_dot [simp]: "CHR ''.'' \<notin> set (dec n)"
  using dec_set [of "CHR ''.''" n] by (auto simp: is_digit_def byte_def)

lemma parse_ipv4_show_ipv4 [simp]: "parse_ipv4 (show_ipv4 ip) = Some ip"
  by (cases ip) (simp add: parse_ipv4_def show_ipv4_def split_on_sep)

lemma show_ipv4_inject [simp]: "show_ipv4 a = show_ipv4 b \<longleftrightarrow> a = b"
  by (metis parse_ipv4_show_ipv4 option.inject)

subsection \<open>IPv6 addresses\<close>

text \<open>
  An IPv6 address is its eight 16-bit groups.  Parsing follows \<open>std\<close>'s parser: up to eight groups
  of one to four hexadecimal digits, the last two of which may be a dotted quad, with one \<open>::\<close> for
  a run of zero groups.
\<close>

definition hex_val :: "char \<Rightarrow> nat option" where
  "hex_val c =
     (if is_digit c then Some (byte c - 48)
      else if 97 \<le> byte c \<and> byte c \<le> 102 then Some (byte c - 87)
      else if 65 \<le> byte c \<and> byte c \<le> 70 then Some (byte c - 55) else None)"

text \<open>\<open>read_number(16, Some(4), true)\<close>: the longest run of hexadecimal digits, at most four.\<close>

definition read_group :: "string \<Rightarrow> (u16 \<times> string) option" where
  "read_group s =
     (let ds = takeWhile (\<lambda>c. hex_val c \<noteq> None) s
      in if ds = [] \<or> 4 < length ds then None
         else Some (word_of_nat (foldl (\<lambda>v c. v * 16 + the (hex_val c)) 0 ds), drop (length ds) s))"

text \<open>\<open>read_ipv4_addr\<close> in front of a rest: four octets with dots between, each the longest run of
  digits.\<close>

definition read_octet :: "string \<Rightarrow> (u8 \<times> string) option" where
  "read_octet s =
     (let ds = takeWhile is_digit s
      in map_option (\<lambda>b. (b, drop (length ds) s)) (parse_octet ds))"

definition read_char :: "char \<Rightarrow> string \<Rightarrow> string option" where
  "read_char c s = (case s of x # xs \<Rightarrow> if x = c then Some xs else None | [] \<Rightarrow> None)"

definition read_ipv4 :: "string \<Rightarrow> (ipv4 \<times> string) option" where
  "read_ipv4 s =
     Option.bind (read_octet s) (\<lambda>(a, s1). Option.bind (read_char CHR ''.'' s1) (\<lambda>s2.
     Option.bind (read_octet s2) (\<lambda>(b, s3). Option.bind (read_char CHR ''.'' s3) (\<lambda>s4.
     Option.bind (read_octet s4) (\<lambda>(c, s5). Option.bind (read_char CHR ''.'' s5) (\<lambda>s6.
     Option.bind (read_octet s6) (\<lambda>(d, s7). Some (Ipv4 a b c d, s7))))))))"

text \<open>
  \<open>read_groups\<close>: \<open>i\<close> groups are read and \<open>room\<close> more fit; the results are the groups, whether
  they end in a dotted quad, and the rest.
\<close>

fun read_groups :: "nat \<Rightarrow> nat \<Rightarrow> string \<Rightarrow> u16 list \<times> bool \<times> string" where
  "read_groups i 0 s = ([], False, s)"
| "read_groups i (Suc room) s =
     (let after_sep = (if 0 < i then read_char CHR '':'' s else Some s);
          quad = (if 0 < room then Option.bind after_sep read_ipv4 else None)
      in case quad of
           Some (a, s') \<Rightarrow> ([of_be16 (oct0 a) (oct1 a), of_be16 (oct2 a) (oct3 a)], True, s')
         | None \<Rightarrow>
             (case Option.bind after_sep read_group of
                Some (g, s') \<Rightarrow>
                  (case read_groups (Suc i) room s' of (gs, q, r) \<Rightarrow> (g # gs, q, r))
              | None \<Rightarrow> ([], False, s)))"

definition parse_ipv6 :: "string \<Rightarrow> u16 list option" where
  "parse_ipv6 s =
     (case read_groups 0 8 s of
        (hd_groups, hd_quad, s1) \<Rightarrow>
          (if length hd_groups = 8 then (if s1 = [] then Some hd_groups else None)
           else if hd_quad then None
           else Option.bind (read_char CHR '':'' s1) (\<lambda>s2. Option.bind (read_char CHR '':'' s2) (\<lambda>s3.
             case read_groups 0 (8 - (length hd_groups + 1)) s3 of
               (tl_groups, _, s4) \<Rightarrow>
                 (if s4 = []
                  then Some (hd_groups @ replicate (8 - length hd_groups - length tl_groups) 0 @ tl_groups)
                  else None)))))"

text \<open>Printing, with the first longest run of at least two zero groups as \<open>::\<close>.\<close>

definition hex_digit :: "nat \<Rightarrow> char" where
  "hex_digit d = char_of (if d < 10 then 48 + d else 87 + d)"

fun hex :: "nat \<Rightarrow> string" where
  "hex n = (if n < 16 then [hex_digit n] else hex (n div 16) @ [hex_digit (n mod 16)])"

declare hex.simps [simp del]

fun join :: "string \<Rightarrow> string list \<Rightarrow> string" where
  "join sep [] = []"
| "join sep [s] = s"
| "join sep (s # t # ss) = s @ sep @ join sep (t # ss)"

definition show_groups :: "u16 list \<Rightarrow> string" where
  "show_groups gs = join '':'' (map (\<lambda>g. hex (unat g)) gs)"

text \<open>The scan for the longest zero run: position, start and length of the current run, and the
  longest so far.\<close>

fun zero_run :: "nat \<Rightarrow> nat \<times> nat \<Rightarrow> nat \<times> nat \<Rightarrow> u16 list \<Rightarrow> nat \<times> nat" where
  "zero_run i cur longest [] = longest"
| "zero_run i (st, len) longest (g # gs) =
     (if g = 0
      then (let cur = (if len = 0 then i else st, len + 1)
            in zero_run (Suc i) cur (if snd longest < snd cur then cur else longest) gs)
      else zero_run (Suc i) (0, 0) longest gs)"

definition show_ipv6 :: "u16 list \<Rightarrow> string" where
  "show_ipv6 gs =
     (if take 6 gs = [0, 0, 0, 0, 0, 0xffff]
      then ''::ffff:'' @ show_ipv4 (case concat (map be16 (drop 6 gs)) of
             [a, b, c, d] \<Rightarrow> Ipv4 a b c d | _ \<Rightarrow> Ipv4 0 0 0 0)
      else (case zero_run 0 (0, 0) (0, 0) gs of
              (st, len) \<Rightarrow>
                (if 1 < len then show_groups (take st gs) @ ''::'' @ show_groups (drop (st + len) gs)
                 else show_groups gs)))"

subsection \<open>IP and socket addresses\<close>

datatype ip_addr = V4 ipv4 | V6 "u16 list"

datatype sock_addr = SockAddr (sa_ip: ip_addr) (sa_port: u16)

text \<open>\<open>s.parse::<IpAddr>()\<close> and \<open>to_string\<close>.\<close>

definition parse_ip :: "string \<Rightarrow> ip_addr option" where
  "parse_ip s =
     (case parse_ipv4 s of
        Some a \<Rightarrow> Some (V4 a)
      | None \<Rightarrow> map_option V6 (parse_ipv6 s))"

fun show_ip :: "ip_addr \<Rightarrow> string" where
  "show_ip (V4 a) = show_ipv4 a"
| "show_ip (V6 gs) = show_ipv6 gs"

fun show_sock_addr :: "sock_addr \<Rightarrow> string" where
  "show_sock_addr (SockAddr (V4 a) p) = show_ipv4 a @ '':'' @ dec (unat p)"
| "show_sock_addr (SockAddr (V6 gs) p) = ''['' @ show_ipv6 gs @ '']:'' @ dec (unat p)"

lemma parse_ip_show_ipv4 [simp]: "parse_ip (show_ipv4 a) = Some (V4 a)"
  by (simp add: parse_ip_def)

end
