(* ===== verification/Interfaces.thy ===== *)
theory Interfaces
  imports Net
begin

text \<open>
  The contracts between components, as locales: what a client calls and which laws it relies on.
  Each provider's theory interprets its locale on the model's definitions; the client lemmas are
  proved once, inside the locale, in the client's theory.
\<close>

subsection \<open>The pool, as the L4 balancer, VRRP and BGP use it\<close>

text \<open>
  \<open>pick\<close> may only answer a member that is healthy, answers one whenever the pool's rotation is in
  its regular range and some member is healthy, and changes neither members nor health;
  \<open>healthy_count\<close> counts the healthy members.
\<close>

locale backend_pool =
  fixes members :: "'p \<Rightarrow> 'b list"
    and healthy :: "'p \<Rightarrow> 'b \<Rightarrow> bool"
    and regular :: "'p \<Rightarrow> bool"
    and pick :: "'p \<Rightarrow> 'b option \<times> 'p"
    and healthy_count :: "'p \<Rightarrow> nat"
  assumes pick_sound: "pick p = (Some b, p') \<Longrightarrow> b \<in> set (members p) \<and> healthy p b"
    and pick_complete: "regular p \<Longrightarrow> pick p = (None, p') \<Longrightarrow> b \<in> set (members p) \<Longrightarrow> \<not> healthy p b"
    and pick_frame: "pick p = (r, p') \<Longrightarrow> members p' = members p \<and> healthy p' = healthy p"
    and healthy_count: "healthy_count p = length (filter (healthy p) (members p))"
begin

lemma healthy_count_pos: "0 < healthy_count p \<longleftrightarrow> (\<exists>b \<in> set (members p). healthy p b)"
  by (auto simp: healthy_count filter_empty_conv)

lemma pick_some_iff:
  assumes "regular p"
  shows "(\<exists>b p'. pick p = (Some b, p')) \<longleftrightarrow> 0 < healthy_count p"
proof (cases "pick p")
  case (Pair r p')
  show ?thesis
  proof (cases r)
    case None
    then show ?thesis
      using Pair pick_complete [OF assms, of p'] by (auto simp: healthy_count_pos)
  next
    case (Some b)
    then show ?thesis
      using Pair pick_sound [of p b p'] by (auto simp: healthy_count_pos)
  qed
qed

end

subsection \<open>Framed byte streams\<close>

text \<open>
  A sender frames its units (BGP messages, netlink messages, netlink attributes) and a receiver's
  loop takes them off the buffer again.  The law is about one unit in front of any rest; the
  clients' facts are about whole streams.
\<close>

locale framed =
  fixes ok :: "'m \<Rightarrow> bool"
    and enc :: "'m \<Rightarrow> bytes"
    and units :: "bytes \<Rightarrow> 'u list"
    and unit_of :: "'m \<Rightarrow> 'u"
  assumes units_enc: "ok m \<Longrightarrow> units (enc m @ rest) = unit_of m # units rest"
begin

lemma units_concat:
  "\<forall>m \<in> set ms. ok m \<Longrightarrow> units (concat (map enc ms) @ rest) = map unit_of ms @ units rest"
  by (induction ms) (auto simp: units_enc)

lemma stream_unique:
  assumes "\<forall>m \<in> set ms. ok m" and "\<forall>m \<in> set ms'. ok m"
    and "concat (map enc ms) = concat (map enc ms')"
  shows "map unit_of ms = map unit_of ms'"
  using units_concat [OF assms(1), of "[]"] units_concat [OF assms(2), of "[]"] assms(3) by simp

end

subsection \<open>The VIP controller, as VRRP uses it\<close>

text \<open>
  The trait \<open>VipController\<close> (\<open>src/vip.rs\<close>) for one address: a claim that succeeds leaves it on the interface, a
  release that succeeds does not, and neither, failed or not, changes anything else or makes the
  interface unusable.  The operations answer whether they succeeded.
\<close>

locale vip_controller =
  fixes usable :: "'k \<Rightarrow> bool"
    and held :: "'k \<Rightarrow> bool"
    and others :: "'k \<Rightarrow> 'o"
    and claims :: "'k \<Rightarrow> bool \<times> 'k"
    and releases :: "'k \<Rightarrow> bool \<times> 'k"
  assumes claims: "usable k \<Longrightarrow> claims k = (ok, k') \<Longrightarrow> usable k' \<and> others k' = others k \<and> (ok \<longrightarrow> held k')"
    and releases: "usable k \<Longrightarrow> releases k = (ok, k') \<Longrightarrow> usable k' \<and> others k' = others k \<and> (ok \<longrightarrow> \<not> held k')"
begin

lemma claims_again: "usable k \<Longrightarrow> claims k = (ok, k1) \<Longrightarrow> claims k1 = (True, k2) \<Longrightarrow> held k2 \<and> others k2 = others k"
  using claims by metis

lemma undone: "usable k \<Longrightarrow> claims k = (ok, k1) \<Longrightarrow> releases k1 = (True, k2) \<Longrightarrow> \<not> held k2 \<and> others k2 = others k"
  using claims releases by metis

end

end
