(* ===== verification/Pool.thy ===== *)
theory Pool
  imports Interfaces
begin

text \<open>
  \<open>src/pool.rs\<close>: the backends behind a VIP and the round-robin choice among the healthy ones.

  A backend is shared (\<open>Arc<Backend>\<close>): the health loop holds the members it read at the start of
  a round while the API may replace the member list.  The model keeps this sharing explicit: the
  backends live in an arena, an \<open>Arc\<close> is an index into it, and the member list is a list of such
  indices.  An index is never reused, so a stale one keeps naming the backend it was taken for.
\<close>

subsection \<open>State\<close>

type_synonym bid = nat

record backend =
  addr :: sock_addr
  is_healthy :: bool

text \<open>\<open>Backend::new\<close>: starts unhealthy.\<close>

definition backend_new :: "sock_addr \<Rightarrow> backend" where
  "backend_new a = \<lparr>addr = a, is_healthy = False\<rparr>"

record pool =
  arena :: "backend list"
  backends :: "bid list"
  cursor :: u64

definition pool_empty :: pool where
  "pool_empty = \<lparr>arena = [], backends = [], cursor = 0\<rparr>"

definition healthy_at :: "pool \<Rightarrow> bid \<Rightarrow> bool" where
  "healthy_at p i \<longleftrightarrow> i < length (arena p) \<and> is_healthy (arena p ! i)"

text \<open>\<open>Backend::set_healthy\<close>, through an \<open>Arc\<close>.\<close>

definition set_healthy :: "pool \<Rightarrow> bid \<Rightarrow> bool \<Rightarrow> pool" where
  "set_healthy p i v = p\<lparr>arena := (arena p)[i := (arena p ! i)\<lparr>is_healthy := v\<rparr>]\<rparr>"

lemma addr_backend_new [simp]: "addr (backend_new a) = a" "\<not> is_healthy (backend_new a)"
  by (simp_all add: backend_new_def)

subsection \<open>Operations\<close>

text \<open>The loop of \<open>set_addrs\<close>: \<open>cur\<close> is the old member list, \<open>acc\<close> the one being built.\<close>

fun replace_loop :: "bid list \<Rightarrow> sock_addr list \<Rightarrow> backend list \<Rightarrow> bid list \<Rightarrow> backend list \<times> bid list"
where
  "replace_loop cur [] ar acc = (ar, acc)"
| "replace_loop cur (a # as) ar acc =
     (if list_ex (\<lambda>i. addr (ar ! i) = a) acc then replace_loop cur as ar acc
      else (case List.find (\<lambda>i. addr (ar ! i) = a) cur of
              Some i \<Rightarrow> replace_loop cur as ar (acc @ [i])
            | None \<Rightarrow> replace_loop cur as (ar @ [backend_new a]) (acc @ [length ar])))"

definition set_addrs :: "pool \<Rightarrow> sock_addr list \<Rightarrow> pool" where
  "set_addrs p as =
     (case replace_loop (backends p) as (arena p) [] of
        (ar, acc) \<Rightarrow> p\<lparr>arena := ar, backends := acc\<rparr>)"

definition pool_new :: "sock_addr list \<Rightarrow> pool" where
  "pool_new as = set_addrs pool_empty as"

text \<open>
  \<open>pick\<close>: the cursor advances (\<open>fetch_add\<close>, wrapping) once per call that finds a member, and the
  members are tried from there; \<open>usize\<close> is 64 bits wide.
\<close>

definition pick :: "pool \<Rightarrow> bid option \<times> pool" where
  "pick p =
     (let n = length (backends p)
      in if n = 0 then (None, p)
         else (let start = cursor p;
                   order = map (\<lambda>i. backends p ! (unat (start + word_of_nat i) mod n)) [0..<n]
               in (List.find (healthy_at p) order, p\<lparr>cursor := start + 1\<rparr>)))"

definition healthy_count :: "pool \<Rightarrow> nat" where
  "healthy_count p = length (filter (healthy_at p) (backends p))"

subsection \<open>What a pool is: addresses with their health, in order\<close>

definition view_at :: "backend list \<Rightarrow> bid \<Rightarrow> sock_addr \<times> bool" where
  "view_at ar i = (addr (ar ! i), is_healthy (ar ! i))"

definition contents :: "pool \<Rightarrow> (sock_addr \<times> bool) list" where
  "contents p = map (view_at (arena p)) (backends p)"

text \<open>First occurrences, in order, of what \<open>seen\<close> does not hold.\<close>

fun firsts :: "'a list \<Rightarrow> 'a list \<Rightarrow> 'a list" where
  "firsts seen [] = []"
| "firsts seen (a # as) =
     (if a \<in> set seen then firsts seen as else a # firsts (seen @ [a]) as)"

text \<open>The contract of \<open>set_addrs\<close>: the given addresses without duplicates, each with the health
  it had, a new one unhealthy.\<close>

definition replace_spec :: "(sock_addr \<times> bool) list \<Rightarrow> sock_addr list \<Rightarrow> (sock_addr \<times> bool) list" where
  "replace_spec old as = map (\<lambda>a. (a, map_of old a = Some True)) (firsts [] as)"

text \<open>Every member is an allocated backend and no address occurs twice.\<close>

definition pool_ok :: "pool \<Rightarrow> bool" where
  "pool_ok p \<longleftrightarrow> (\<forall>i \<in> set (backends p). i < length (arena p)) \<and> distinct (map fst (contents p))"

lemma set_firsts: "set (firsts seen as) = set as - set seen"
  by (induction seen as rule: firsts.induct) auto

lemma distinct_firsts: "distinct (firsts seen as)"
  by (induction seen as rule: firsts.induct) (auto simp: set_firsts)

lemma fst_view_at [simp]: "fst (view_at ar i) = addr (ar ! i)"
  by (simp add: view_at_def)

lemma view_at_append [simp]: "i < length ar \<Longrightarrow> view_at (ar @ bs) i = view_at ar i"
  by (simp add: view_at_def nth_append)

lemma map_view_at_append:
  "\<forall>i \<in> set xs. i < length ar \<Longrightarrow> map (view_at (ar @ bs)) xs = map (view_at ar) xs"
  by simp

lemma map_of_views:
  "map_of (map (view_at ar) xs) a =
     map_option (\<lambda>i. is_healthy (ar ! i)) (List.find (\<lambda>i. addr (ar ! i) = a) xs)"
  by (induction xs) (auto simp: view_at_def)

text \<open>The loop, in terms of what it adds to the list being built.\<close>

lemma replace_loop_views:
  assumes "replace_loop cur as ar acc = (ar', acc')"
    and "\<forall>i \<in> set cur \<union> set acc. i < length ar"
  shows "map (view_at ar') acc' = map (view_at ar) acc @
      map (\<lambda>a. (a, map_of (map (view_at ar) cur) a = Some True))
        (firsts (map (\<lambda>i. addr (ar ! i)) acc) as)
    \<and> (\<exists>new. ar' = ar @ new) \<and> (\<forall>i \<in> set acc'. i < length ar')"
  using assms
proof (induction as arbitrary: ar acc)
  case Nil
  then show ?case by auto
next
  case (Cons a as)
  show ?case
  proof (cases "list_ex (\<lambda>i. addr (ar ! i) = a) acc")
    case True
    then have "a \<in> set (map (\<lambda>i. addr (ar ! i)) acc)"
      by (auto simp: list_ex_iff)
    with True Cons show ?thesis by simp
  next
    case False
    then have new: "a \<notin> set (map (\<lambda>i. addr (ar ! i)) acc)"
      by (auto simp: list_ex_iff)
    show ?thesis
    proof (cases "List.find (\<lambda>i. addr (ar ! i) = a) cur")
      case None
      let ?ar = "ar @ [backend_new a]"
      have bound: "\<forall>i \<in> set cur \<union> set (acc @ [length ar]). i < length ?ar"
        using Cons.prems(2) by (auto intro: less_SucI)
      have "replace_loop cur as ?ar (acc @ [length ar]) = (ar', acc')"
        using Cons.prems(1) False None by simp
      note ih = Cons.IH [OF this bound]
      have views: "map (view_at ?ar) cur = map (view_at ar) cur"
        "map (view_at ?ar) acc = map (view_at ar) acc"
        "map (\<lambda>i. addr (?ar ! i)) acc = map (\<lambda>i. addr (ar ! i)) acc"
        "view_at ?ar (length ar) = (a, False)" "addr (?ar ! length ar) = a"
        using Cons.prems(2) by (simp_all add: nth_append view_at_def backend_new_def)
      have "map_of (map (view_at ar) cur) a = None"
        using None by (simp only: map_of_views) simp
      then show ?thesis
        using ih new by (auto simp: views simp del: map_map)
    next
      case (Some i)
      then have i: "i \<in> set cur" "addr (ar ! i) = a"
        by (auto simp: find_Some_iff)
      have bound: "\<forall>j \<in> set cur \<union> set (acc @ [i]). j < length ar"
        using Cons.prems(2) i by auto
      have "replace_loop cur as ar (acc @ [i]) = (ar', acc')"
        using Cons.prems(1) False Some by simp
      moreover have "map_of (map (view_at ar) cur) a = Some (is_healthy (ar ! i))"
        using Some by (simp only: map_of_views) simp
      moreover have "view_at ar i = (a, is_healthy (ar ! i))"
        using i by (simp add: view_at_def)
      ultimately show ?thesis
        using Cons.IH [OF _ bound] new i by (simp del: map_map)
    qed
  qed
qed

lemma set_addrs_loop:
  assumes "pool_ok p"
  obtains new where "arena (set_addrs p as) = arena p @ new"
    and "contents (set_addrs p as) = replace_spec (contents p) as"
    and "\<forall>i \<in> set (backends (set_addrs p as)). i < length (arena (set_addrs p as))"
proof -
  obtain ar' acc' where loop: "replace_loop (backends p) as (arena p) [] = (ar', acc')"
    by fastforce
  have "\<forall>i \<in> set (backends p) \<union> set []. i < length (arena p)"
    using assms by (simp add: pool_ok_def)
  from replace_loop_views [OF loop this] loop that show ?thesis
    by (auto simp: set_addrs_def contents_def replace_spec_def)
qed

lemma fst_replace_spec [simp]: "map fst (replace_spec old as) = firsts [] as"
  by (simp add: replace_spec_def comp_def)

lemma pool_ok_set_addrs: "pool_ok p \<Longrightarrow> pool_ok (set_addrs p as)"
  by (erule set_addrs_loop [of p as]) (simp add: pool_ok_def distinct_firsts)

lemma cursor_set_addrs [simp]: "cursor (set_addrs p as) = cursor p"
  by (simp add: set_addrs_def split: prod.splits)

lemma pool_ok_empty: "pool_ok pool_empty"
  by (simp add: pool_ok_def pool_empty_def contents_def)

lemma pool_ok_new: "pool_ok (pool_new as)"
  unfolding pool_new_def by (rule pool_ok_set_addrs [OF pool_ok_empty])

lemma contents_set_addrs: "pool_ok p \<Longrightarrow> contents (set_addrs p as) = replace_spec (contents p) as"
  by (erule set_addrs_loop [of p as])

lemma contents_new: "contents (pool_new as) = map (\<lambda>a. (a, False)) (firsts [] as)"
  by (simp add: pool_new_def contents_set_addrs [OF pool_ok_empty] replace_spec_def)
    (simp add: pool_empty_def contents_def)

lemma arena_set_addrs:
  assumes "pool_ok p" and "i < length (arena p)"
  shows "arena (set_addrs p as) ! i = arena p ! i" and "i < length (arena (set_addrs p as))"
  using assms by (auto elim!: set_addrs_loop [of p as] simp: nth_append)

subsection \<open>Health flags through shared references\<close>

lemma addr_set_healthy [simp]: "addr (arena (set_healthy p i v) ! j) = addr (arena p ! j)"
proof (cases "j = i \<and> i < length (arena p)")
  case True
  then show ?thesis by (simp add: set_healthy_def)
next
  case False
  then have "arena (set_healthy p i v) ! j = arena p ! j"
    by (cases "i < length (arena p)") (auto simp: set_healthy_def list_update_beyond)
  then show ?thesis by simp
qed

lemma set_healthy_frame [simp]:
  "backends (set_healthy p i v) = backends p"
  "length (arena (set_healthy p i v)) = length (arena p)"
  "cursor (set_healthy p i v) = cursor p"
  by (simp_all add: set_healthy_def)

lemma pool_ok_set_healthy: "pool_ok p \<Longrightarrow> pool_ok (set_healthy p i v)"
  by (simp add: pool_ok_def contents_def comp_def)

lemma pool_ok_alt:
  "pool_ok p \<longleftrightarrow> (\<forall>i \<in> set (backends p). i < length (arena p))
     \<and> inj_on (\<lambda>i. addr (arena p ! i)) (set (backends p)) \<and> distinct (backends p)"
  by (auto simp: pool_ok_def contents_def comp_def distinct_map)

text \<open>Writing a flag through a member's reference changes that member's entry only, and through a
  reference to a backend that is no longer a member, nothing.\<close>

lemma contents_set_healthy:
  assumes "pool_ok p" and "i < length (arena p)"
  shows "contents (set_healthy p i v) =
    (if i \<in> set (backends p)
     then map (\<lambda>(a, h). (a, if a = addr (arena p ! i) then v else h)) (contents p)
     else contents p)"
proof -
  have at: "view_at (arena (set_healthy p i v)) j =
      (if j = i then (addr (arena p ! i), v) else view_at (arena p) j)" for j
    using assms(2) by (simp add: set_healthy_def view_at_def)
  show ?thesis
  proof (cases "i \<in> set (backends p)")
    case True
    then have "j = i \<longleftrightarrow> addr (arena p ! j) = addr (arena p ! i)" if "j \<in> set (backends p)" for j
      using assms(1) that by (auto simp: pool_ok_alt inj_on_def)
    with True show ?thesis
      by (simp add: contents_def at) (simp add: view_at_def)
  next
    case False
    then show ?thesis by (auto simp: contents_def at)
  qed
qed

text \<open>Which references survive a replacement: exactly those whose address is still wanted.\<close>

lemma replace_loop_origin:
  assumes "replace_loop cur as ar acc = (ar', acc')"
    and "\<forall>i \<in> set cur \<union> set acc. i < length ar" and "j \<in> set acc'"
  shows "j \<in> set acc \<or> j \<in> set cur \<or> addr (ar' ! j) \<notin> (\<lambda>i. addr (ar ! i)) ` set cur"
  using assms
proof (induction as arbitrary: ar acc)
  case Nil
  then show ?case by simp
next
  case (Cons a as)
  show ?case
  proof (cases "list_ex (\<lambda>i. addr (ar ! i) = a) acc")
    case True
    with Cons show ?thesis by simp
  next
    case False
    show ?thesis
    proof (cases "List.find (\<lambda>i. addr (ar ! i) = a) cur")
      case None
      let ?ar = "ar @ [backend_new a]"
      have loop: "replace_loop cur as ?ar (acc @ [length ar]) = (ar', acc')"
        using Cons.prems(1) False None by simp
      have bound: "\<forall>i \<in> set cur \<union> set (acc @ [length ar]). i < length ?ar"
        using Cons.prems(2) by (auto intro: less_SucI)
      have old: "(\<lambda>i. addr (?ar ! i)) ` set cur = (\<lambda>i. addr (ar ! i)) ` set cur"
        using Cons.prems(2) by (simp add: nth_append)
      obtain more where "ar' = ?ar @ more"
        using replace_loop_views [OF loop bound] by blast
      then have "addr (ar' ! length ar) = a" by (simp add: nth_append)
      moreover have "a \<notin> (\<lambda>i. addr (ar ! i)) ` set cur"
        using None by (auto simp: find_None_iff)
      ultimately show ?thesis
        using Cons.IH [OF loop bound Cons.prems(3)] by (auto simp: old)
    next
      case (Some i)
      then have i: "i \<in> set cur" by (auto simp: find_Some_iff)
      have loop: "replace_loop cur as ar (acc @ [i]) = (ar', acc')"
        using Cons.prems(1) False Some by simp
      have bound: "\<forall>k \<in> set cur \<union> set (acc @ [i]). k < length ar"
        using Cons.prems(2) i by auto
      from Cons.IH [OF loop bound Cons.prems(3)] i show ?thesis by auto
    qed
  qed
qed

lemma set_addrs_origin:
  assumes "pool_ok p" and "j \<in> set (backends (set_addrs p as))" and "i \<in> set (backends p)"
    and "addr (arena (set_addrs p as) ! j) = addr (arena p ! i)"
  shows "j = i"
proof -
  obtain ar' acc' where loop: "replace_loop (backends p) as (arena p) [] = (ar', acc')"
    by fastforce
  have bound: "\<forall>i \<in> set (backends p) \<union> set []. i < length (arena p)"
    using assms(1) by (simp add: pool_ok_def)
  have "j \<in> set (backends p)"
    using replace_loop_origin [OF loop bound, of j] assms(2-4) loop
    by (auto simp: set_addrs_def)
  moreover from this have "arena (set_addrs p as) ! j = arena p ! j"
    using bound arena_set_addrs(1) [OF assms(1)] by simp
  ultimately show ?thesis
    using assms by (auto simp: pool_ok_alt inj_on_def)
qed

lemma addresses_set_addrs:
  "pool_ok p \<Longrightarrow>
     (\<lambda>j. addr (arena (set_addrs p as) ! j)) ` set (backends (set_addrs p as)) = set as"
proof -
  assume "pool_ok p"
  then have "map fst (contents (set_addrs p as)) = firsts [] as"
    by (simp add: contents_set_addrs)
  then have "set (map fst (contents (set_addrs p as))) = set as"
    by (simp only: set_firsts) simp
  then show ?thesis by (simp add: contents_def image_image)
qed

lemma set_addrs_member:
  assumes "pool_ok p" and "i \<in> set (backends p)"
  shows "i \<in> set (backends (set_addrs p as)) \<longleftrightarrow> addr (arena p ! i) \<in> set as"
proof -
  have same: "addr (arena (set_addrs p as) ! i) = addr (arena p ! i)"
    using assms arena_set_addrs(1) by (simp add: pool_ok_def)
  note addrs = addresses_set_addrs [OF assms(1), of as]
  show ?thesis
  proof
    assume "i \<in> set (backends (set_addrs p as))"
    then show "addr (arena p ! i) \<in> set as"
      unfolding addrs [symmetric] by (force simp flip: same)
  next
    assume "addr (arena p ! i) \<in> set as"
    then obtain j where "j \<in> set (backends (set_addrs p as))"
      and "addr (arena (set_addrs p as) ! j) = addr (arena p ! i)"
      unfolding addrs [symmetric] by force
    then show "i \<in> set (backends (set_addrs p as))"
      using set_addrs_origin [OF assms(1) _ assms(2)] by blast
  qed
qed

subsection \<open>Round robin\<close>

text \<open>
  The rotation is regular while the scan from the cursor does not pass the end of \<open>usize\<close>; the
  cursor grows by one per connection, so this covers the first \<open>2 ^ 64 - n\<close> of them.
\<close>

definition regular :: "pool \<Rightarrow> bool" where
  "regular p \<longleftrightarrow> unat (cursor p) + length (backends p) \<le> 2 ^ 64"

definition position :: "pool \<Rightarrow> nat" where
  "position p = unat (cursor p) mod length (backends p)"

lemma unat_add_small:
  "unat (c :: u64) + i < 2 ^ 64 \<Longrightarrow> unat (c + word_of_nat i) = unat c + i"
  by (simp add: unat_word_ariths unat_of_nat)

lemma scan_order:
  assumes "regular p" and "backends p \<noteq> []"
  shows "map (\<lambda>i. backends p ! (unat (cursor p + word_of_nat i) mod length (backends p)))
      [0..<length (backends p)] = rotate (position p) (backends p)"
proof (rule nth_equalityI)
  fix i assume "i < length (map (\<lambda>i. backends p !
      (unat (cursor p + word_of_nat i) mod length (backends p))) [0..<length (backends p)])"
  then have i: "i < length (backends p)" by simp
  then have "unat (cursor p + word_of_nat i) = unat (cursor p) + i"
    using assms(1) by (intro unat_add_small) (simp add: regular_def)
  then show "map (\<lambda>i. backends p ! (unat (cursor p + word_of_nat i) mod length (backends p)))
      [0..<length (backends p)] ! i = rotate (position p) (backends p) ! i"
    using i by (simp add: nth_rotate position_def mod_simps)
qed simp

lemma pick_rotation:
  assumes "regular p" and "backends p \<noteq> []"
  shows "pick p = (List.find (healthy_at p) (rotate (position p) (backends p)),
      p\<lparr>cursor := cursor p + 1\<rparr>)"
  using assms scan_order [OF assms] by (simp add: pick_def Let_def)

lemma pick_chosen: "pick p = (Some b, p') \<Longrightarrow> b \<in> set (backends p) \<and> healthy_at p b"
  by (auto simp: pick_def Let_def split: if_splits dest!: find_SomeD)

lemma pick_keeps:
  "pick p = (r, p') \<Longrightarrow> backends p' = backends p \<and> arena p' = arena p"
  by (auto simp: pick_def Let_def split: if_splits)

lemma healthy_at_cong: "arena q = arena p \<Longrightarrow> healthy_at q = healthy_at p"
  by (simp add: healthy_at_def fun_eq_iff)

lemma pick_none:
  assumes "regular p" and "pick p = (None, p')" and "b \<in> set (backends p)"
  shows "\<not> healthy_at p b"
proof -
  have "backends p \<noteq> []" using assms(3) by auto
  with assms show ?thesis
    by (auto simp: pick_rotation find_None_iff)
qed

interpretation rr: backend_pool backends healthy_at regular pick healthy_count
proof unfold_locales
  fix p b p' assume "pick p = (Some b, p')"
  then show "b \<in> set (backends p) \<and> healthy_at p b" by (rule pick_chosen)
next
  fix p p' b assume "regular p" "pick p = (None, p')" "b \<in> set (backends p)"
  then show "\<not> healthy_at p b" by (rule pick_none)
next
  fix p r p' assume "pick p = (r, p')"
  then show "backends p' = backends p \<and> healthy_at p' = healthy_at p"
    using pick_keeps healthy_at_cong by blast
next
  show "healthy_count p = length (filter (healthy_at p) (backends p))" for p
    by (rule healthy_count_def)
qed

text \<open>\<open>k\<close> connections in a row.\<close>

fun picks :: "nat \<Rightarrow> pool \<Rightarrow> bid option list" where
  "picks 0 p = []"
| "picks (Suc k) p = (case pick p of (r, p') \<Rightarrow> r # picks k p')"

text \<open>\<open>k\<close> picks in a row try \<open>k\<close> neighbouring positions first.\<close>

lemma picks_visit:
  assumes "unat (cursor p) + length (backends p) + k \<le> 2 ^ 64"
    and "i < k" and "backends p \<noteq> []"
    and "healthy_at p (backends p ! ((unat (cursor p) + i) mod length (backends p)))"
  shows "Some (backends p ! ((unat (cursor p) + i) mod length (backends p))) \<in> set (picks k p)"
  using assms
proof (induction k arbitrary: p i)
  case 0
  then show ?case by simp
next
  case (Suc k)
  let ?n = "length (backends p)" and ?q = "p\<lparr>cursor := cursor p + 1\<rparr>"
  have reg: "regular p" using Suc.prems(1) by (simp add: regular_def)
  have pick: "pick p = (List.find (healthy_at p) (rotate (position p) (backends p)), ?q)"
    using reg Suc.prems(3) by (rule pick_rotation)
  have next_cursor: "unat (cursor p + 1) = unat (cursor p) + 1"
    using unat_add_small [of "cursor p" 1] Suc.prems(1,3)
    by (cases "backends p") simp_all
  show ?case
  proof (cases i)
    case 0
    have "hd (rotate (position p) (backends p)) = backends p ! (unat (cursor p) mod ?n)"
      using Suc.prems(3) by (simp add: position_def hd_rotate_conv_nth mod_simps)
    moreover have "rotate (position p) (backends p) \<noteq> []"
      using Suc.prems(3) by simp
    ultimately have "rotate (position p) (backends p) =
        backends p ! (unat (cursor p) mod ?n) # tl (rotate (position p) (backends p))"
      by (metis list.collapse)
    then have "List.find (healthy_at p) (rotate (position p) (backends p)) =
        Some (backends p ! (unat (cursor p) mod ?n))"
      using Suc.prems(4) 0 by (metis (mono_tags) add_0_right find.simps(2))
    then show ?thesis using 0 pick by simp
  next
    case (Suc j)
    have "healthy_at ?q = healthy_at p" by (rule healthy_at_cong) simp
    then have "Some (backends ?q ! ((unat (cursor ?q) + j) mod length (backends ?q)))
        \<in> set (picks k ?q)"
      using Suc.prems Suc next_cursor by (intro Suc.IH) simp_all
    then show ?thesis using pick Suc next_cursor by simp
  qed
qed

subsection \<open>Every pool the program can reach\<close>

text \<open>
  What happens to a pool: the API replaces its members, the health loop writes a flag through a
  reference it holds (current or stale), a connection picks.
\<close>

datatype pool_op = SetAddrs "sock_addr list" | SetHealthy bid bool | Pick

fun pool_step :: "pool \<Rightarrow> pool_op \<Rightarrow> pool" where
  "pool_step p (SetAddrs as) = set_addrs p as"
| "pool_step p (SetHealthy i v) = set_healthy p i v"
| "pool_step p Pick = snd (pick p)"

definition pool_after :: "sock_addr list \<Rightarrow> pool_op list \<Rightarrow> pool" where
  "pool_after as ops = foldl pool_step (pool_new as) ops"

lemma pool_ok_pick: "pool_ok p \<Longrightarrow> pool_ok (snd (pick p))"
  using pick_keeps [of p "fst (pick p)" "snd (pick p)"]
  by (simp add: pool_ok_def contents_def)

lemma pool_ok_step: "pool_ok p \<Longrightarrow> pool_ok (pool_step p op)"
  by (cases op) (auto intro: pool_ok_set_addrs pool_ok_set_healthy pool_ok_pick)

lemma pool_ok_after [simp, intro]: "pool_ok (pool_after as ops)"
proof -
  have "pool_ok p \<Longrightarrow> pool_ok (foldl pool_step p ops)" for p
    by (induction ops arbitrary: p) (auto intro: pool_ok_step)
  then show ?thesis
    by (simp add: pool_after_def pool_ok_new)
qed

subsection \<open>Properties\<close>

text \<open>C11: Replacing the members of any pool the program can reach leaves exactly the given
  addresses, in order and without duplicates; an address that stays keeps its health, and a new
  one is unhealthy.\<close>

theorem set_addrs_refines:
  "contents (set_addrs (pool_after as0 ops) as) = replace_spec (contents (pool_after as0 ops)) as"
  by (simp add: contents_set_addrs)

text \<open>A probe result that arrives after the members were replaced is written through the old
  reference: it reaches the pool exactly when the probed address is still a member, and then it
  changes that address's entry only.\<close>

theorem stale_probe_result:
  assumes "p = pool_after as0 ops" and "i \<in> set (backends p)"
  shows "contents (set_healthy (set_addrs p as) i v) =
    (if addr (arena p ! i) \<in> set as
     then map (\<lambda>(a, h). (a, if a = addr (arena p ! i) then v else h)) (replace_spec (contents p) as)
     else replace_spec (contents p) as)"
proof -
  have ok: "pool_ok p" and ok': "pool_ok (set_addrs p as)"
    using assms(1) by (simp_all add: pool_ok_set_addrs)
  have len: "i < length (arena p)"
    using ok assms(2) by (simp add: pool_ok_def)
  show ?thesis
    using contents_set_healthy [OF ok' arena_set_addrs(2) [OF ok len]]
      set_addrs_member [OF ok assms(2), of as] arena_set_addrs(1) [OF ok len, of as]
    by (simp add: contents_set_addrs [OF ok])
qed

definition sa :: "u8 \<Rightarrow> sock_addr" where
  "sa n = SockAddr (V4 (Ipv4 10 0 0 n)) 6443"

lemma sa_eq [simp]: "sa m = sa n \<longleftrightarrow> m = n"
  by (simp add: sa_def)

lemma stale_probe_result_witness:
  "contents (set_healthy (set_addrs (pool_after [sa 1, sa 2] [SetHealthy 0 True]) [sa 3, sa 1]) 0 False)
     = [(sa 3, False), (sa 1, False)]"
proof -
  let ?p = "pool_after [sa 1, sa 2] [SetHealthy 0 True]"
  have p: "?p = \<lparr>arena = [\<lparr>addr = sa 1, is_healthy = True\<rparr>, \<lparr>addr = sa 2, is_healthy = False\<rparr>],
      backends = [0, 1], cursor = 0\<rparr>"
    by (simp add: pool_after_def pool_new_def set_addrs_def pool_empty_def set_healthy_def
        backend_new_def)
  have "0 \<in> set (backends ?p)" by (simp add: p)
  from stale_probe_result [OF refl this, of "[sa 3, sa 1]" False]
  show ?thesis
    by (simp add: p replace_spec_def contents_def view_at_def)
qed

text \<open>While the cursor is in its regular range, a pick answers the first healthy member in the
  rotation that starts at the cursor, or nothing exactly when the pool has no healthy member, and
  it advances the cursor by one on a pool with members and changes nothing else.\<close>

theorem pick_is_rotation:
  assumes "regular p"
  shows "pick p = (List.find (healthy_at p) (rotate (position p) (backends p)),
      if backends p = [] then p else p\<lparr>cursor := cursor p + 1\<rparr>)
    \<and> (fst (pick p) = None \<longleftrightarrow> healthy_count p = 0)"
proof
  show pick: "pick p = (List.find (healthy_at p) (rotate (position p) (backends p)),
      if backends p = [] then p else p\<lparr>cursor := cursor p + 1\<rparr>)"
    using pick_rotation [OF assms] by (cases "backends p = []") (auto simp: pick_def)
  show "fst (pick p) = None \<longleftrightarrow> healthy_count p = 0"
    using rr.pick_some_iff [OF assms] by (cases "pick p"; cases "fst (pick p)") auto
qed

definition demo_pool :: pool where
  "demo_pool = \<lparr>arena = [\<lparr>addr = sa 1, is_healthy = False\<rparr>, \<lparr>addr = sa 2, is_healthy = True\<rparr>,
      \<lparr>addr = sa 3, is_healthy = True\<rparr>], backends = [0, 1, 2], cursor = 3\<rparr>"

lemma pick_is_rotation_witness:
  "fst (pick demo_pool) = Some 1 \<and> healthy_count demo_pool = 2"
proof -
  have "regular demo_pool"
    by (simp add: regular_def demo_pool_def)
  from pick_is_rotation [OF this] show ?thesis
    by (simp add: demo_pool_def position_def healthy_at_def healthy_count_def)
qed

text \<open>C17: No healthy member starves: among any \<open>n\<close> connections in a row to a pool of \<open>n\<close> members,
  each member that is healthy is chosen at least once, unless the 64-bit cursor is about to wrap.\<close>

theorem picks_no_starvation:
  assumes "unat (cursor p) + 2 * length (backends p) \<le> 2 ^ 64"
    and "b \<in> set (backends p)" and "healthy_at p b"
  shows "Some b \<in> set (picks (length (backends p)) p)"
proof -
  let ?n = "length (backends p)"
  from assms(2) obtain j where j: "j < ?n" "backends p ! j = b"
    by (auto simp: in_set_conv_nth)
  have r: "unat (cursor p) mod ?n < ?n"
    using j(1) by (intro mod_less_divisor) linarith
  define i where "i = (j + (?n - unat (cursor p) mod ?n)) mod ?n"
  have "(unat (cursor p) + i) mod ?n = (unat (cursor p) mod ?n + (j + (?n - unat (cursor p) mod ?n))) mod ?n"
    by (simp add: i_def mod_simps)
  also have "unat (cursor p) mod ?n + (j + (?n - unat (cursor p) mod ?n)) = j + ?n"
    using r by linarith
  also have "(j + ?n) mod ?n = j"
    using j(1) by simp
  finally have at: "(unat (cursor p) + i) mod ?n = j" .
  have "Some (backends p ! ((unat (cursor p) + i) mod ?n)) \<in> set (picks ?n p)"
  proof (rule picks_visit)
    show "i < ?n"
      unfolding i_def using j(1) by (intro mod_less_divisor) linarith
  qed (use assms j at in auto)
  with at j show ?thesis by simp
qed

lemma picks_no_starvation_witness:
  "Some 1 \<in> set (picks 3 demo_pool) \<and> Some 2 \<in> set (picks 3 demo_pool)"
proof -
  have cond: "unat (cursor demo_pool) + 2 * length (backends demo_pool) \<le> 2 ^ 64"
    and len: "length (backends demo_pool) = 3"
    and h: "1 \<in> set (backends demo_pool)" "healthy_at demo_pool 1"
      "2 \<in> set (backends demo_pool)" "healthy_at demo_pool 2"
    by (simp_all add: demo_pool_def healthy_at_def)
  show ?thesis
    using picks_no_starvation [OF cond h(1,2)] picks_no_starvation [OF cond h(3,4)]
    by (simp only: len)
qed

text \<open>Outside that range the scan can miss a member: with the cursor at the last \<open>usize\<close> value the
  wrapped sums visit position 0 twice and position 2 never, and a pool with one healthy member
  answers that all are down.\<close>

theorem pick_wrap_misses_member:
  "\<exists>p. pool_ok p \<and> cursor p = 0xFFFFFFFFFFFFFFFF \<and> healthy_count p = 1 \<and> fst (pick p) = None"
proof (intro exI conjI)
  let ?p = "\<lparr>arena = [\<lparr>addr = sa 1, is_healthy = False\<rparr>, \<lparr>addr = sa 2, is_healthy = False\<rparr>,
      \<lparr>addr = sa 3, is_healthy = True\<rparr>], backends = [0, 1, 2], cursor = 0xFFFFFFFFFFFFFFFF\<rparr>"
  show "pool_ok ?p" by (simp add: pool_ok_def contents_def view_at_def)
  show "cursor ?p = 0xFFFFFFFFFFFFFFFF" by simp
  show "healthy_count ?p = 1" by (simp add: healthy_count_def healthy_at_def)
  show "fst (pick ?p) = None"
    by (simp add: pick_def Let_def healthy_at_def upt_rec)
qed

end
