(* ===== verification/Vrrp_Machine.thy ===== *)
theory Vrrp_Machine
  imports Net
begin

text \<open>
  \<open>src/vrrp.rs\<close>, the state machine of one VRRP virtual router (\<open>VirtualRouter\<close>): which node
  holds the VIP and when it changes between Master and Backup, with the timer values in
  centiseconds at their widths.
\<close>

subsection \<open>State\<close>

datatype state = Initialize | Backup | Master

text \<open>What the caller does after an advertisement.\<close>

datatype on_advert = Ignore | ResetTimer u32 | AdvertiseNow | Demoted u32

record virtual_router =
  vrid :: u8
  priority :: u8
  preempt :: bool
  advert_interval_centis :: u16
  master_adver_interval_centis :: u16
  state :: state

subsection \<open>An instance's settings and its handle\<close>

record params =
  p_vrid :: u8
  p_priority :: u8
  p_preempt :: bool
  p_advert_interval_secs :: u64
  p_iface :: string
  p_vip :: ipv4

text \<open>\<open>Handle::set\<close> stores a code, \<open>Handle::state\<close> names it.\<close>

definition handle_code :: "state \<Rightarrow> u8" where
  "handle_code s = (case s of Backup \<Rightarrow> 1 | Master \<Rightarrow> 2 | Initialize \<Rightarrow> 0)"

definition handle_name :: "u8 \<Rightarrow> string" where
  "handle_name c = (if c = 1 then ''backup'' else if c = 2 then ''master'' else ''stopped'')"

subsection \<open>Operations\<close>

text \<open>
  \<open>VirtualRouter::new\<close>.  The product is a \<open>u64\<close> product: the release build wraps.
\<close>

definition vr_new :: "u8 \<Rightarrow> u8 \<Rightarrow> bool \<Rightarrow> u64 \<Rightarrow> virtual_router" where
  "vr_new v prio pre secs =
     (let centis = ucast (min (max secs 1 * 100) 0x0fff) :: u16
      in \<lparr>vrid = v, priority = prio, preempt = pre, advert_interval_centis = centis,
          master_adver_interval_centis = centis, state = Initialize\<rparr>)"

definition skew_centis :: "virtual_router \<Rightarrow> u32" where
  "skew_centis vr =
     ((256 - ucast (priority vr)) * ucast (master_adver_interval_centis vr)) div 256"

definition master_down_interval_centis :: "virtual_router \<Rightarrow> u32" where
  "master_down_interval_centis vr = 3 * ucast (master_adver_interval_centis vr) + skew_centis vr"

text \<open>The operations that write answer the new router with their result.\<close>

definition vr_start :: "virtual_router \<Rightarrow> bool \<Rightarrow> virtual_router" where
  "vr_start vr healthy =
     vr\<lparr>state := (if priority vr = 255 \<and> healthy then Master else Backup)\<rparr>"

definition on_master_down_timeout :: "virtual_router \<Rightarrow> bool \<Rightarrow> bool \<times> virtual_router" where
  "on_master_down_timeout vr healthy =
     (if state vr = Backup \<and> healthy
      then (True, vr\<lparr>state := Master, master_adver_interval_centis := advert_interval_centis vr\<rparr>)
      else (False, vr))"

definition on_health :: "virtual_router \<Rightarrow> bool \<Rightarrow> bool \<times> virtual_router" where
  "on_health vr healthy =
     (if state vr = Master \<and> \<not> healthy then (True, vr\<lparr>state := Backup\<rparr>) else (False, vr))"

definition on_advertisement ::
  "virtual_router \<Rightarrow> u8 \<Rightarrow> ipv4 \<Rightarrow> ipv4 \<Rightarrow> u16 \<Rightarrow> on_advert \<times> virtual_router" where
  "on_advertisement vr peer_priority peer_addr our_addr peer_interval =
     (case state vr of
        Backup \<Rightarrow>
          (if peer_priority = 0 then (ResetTimer (skew_centis vr), vr)
           else if \<not> preempt vr \<or> priority vr \<le> peer_priority
           then (let vr' = vr\<lparr>master_adver_interval_centis := max peer_interval 1\<rparr>
                 in (ResetTimer (master_down_interval_centis vr'), vr'))
           else (Ignore, vr))
      | Master \<Rightarrow>
          (if peer_priority = 0 then (AdvertiseNow, vr)
           else if priority vr < peer_priority \<or> peer_priority = priority vr \<and> our_addr < peer_addr
           then (let vr' = vr\<lparr>state := Backup, master_adver_interval_centis := max peer_interval 1\<rparr>
                 in (Demoted (master_down_interval_centis vr'), vr'))
           else (Ignore, vr))
      | Initialize \<Rightarrow> (Ignore, vr))"

lemmas vr_defs = vr_start_def on_master_down_timeout_def on_health_def on_advertisement_def

subsection \<open>The timers, as numbers\<close>

lemma unat_256_minus: "unat (256 - ucast (b :: u8) :: u32) = 256 - unat b"
proof -
  have "(ucast b :: u32) \<le> 256"
    using u8_less [of b] by (simp add: word_le_nat_alt unat_u8_to_u32)
  then have "unat (256 - ucast b :: u32) = unat (256 :: u32) - unat (ucast b :: u32)"
    by (rule unat_sub)
  then show ?thesis by (simp add: unat_u8_to_u32)
qed

text \<open>The \<open>u32\<close> arithmetic of \<open>skew_centis\<close> and \<open>master_down_interval_centis\<close> never wraps.\<close>

lemma unat_skew_centis:
  "unat (skew_centis vr) = (256 - unat (priority vr)) * unat (master_adver_interval_centis vr) div 256"
proof -
  let ?p = "unat (priority vr)" and ?m = "unat (master_adver_interval_centis vr)"
  have "(256 - ?p) * ?m \<le> 256 * 65535"
    using u16_less [of "master_adver_interval_centis vr"] by (intro mult_le_mono) simp_all
  then have "unat ((256 - ucast (priority vr)) * ucast (master_adver_interval_centis vr) :: u32)
      = (256 - ?p) * ?m"
    by (simp add: unat_word_ariths unat_256_minus unat_u16_to_u32)
  then show ?thesis
    by (simp add: skew_centis_def unat_div)
qed

lemma skew_le_interval: "unat (skew_centis vr) \<le> unat (master_adver_interval_centis vr)"
proof -
  have "(256 - unat (priority vr)) * unat (master_adver_interval_centis vr) div 256
      \<le> 256 * unat (master_adver_interval_centis vr) div 256"
    by (intro div_le_mono mult_le_mono) simp_all
  then show ?thesis by (simp add: unat_skew_centis)
qed

lemma unat_master_down:
  "unat (master_down_interval_centis vr) =
     3 * unat (master_adver_interval_centis vr) + unat (skew_centis vr)"
  using skew_le_interval [of vr] u16_less [of "master_adver_interval_centis vr"]
  by (simp add: master_down_interval_centis_def unat_word_ariths unat_u16_to_u32)

subsection \<open>Elections\<close>

text \<open>A node: its address and its router.  \<open>hear a b\<close> is \<open>a\<close> receiving what \<open>b\<close> advertises as Master.\<close>

type_synonym node = "ipv4 \<times> virtual_router"

definition hear :: "node \<Rightarrow> node \<Rightarrow> node" where
  "hear a b = (fst a, snd (on_advertisement (snd a) (priority (snd b)) (fst b) (fst a)
     (advert_interval_centis (snd b))))"

definition rank :: "node \<Rightarrow> u8 \<times> ipv4" where
  "rank a = (priority (snd a), fst a)"

definition is_master :: "node \<Rightarrow> bool" where
  "is_master a \<longleftrightarrow> state (snd a) = Master"

lemma rank_hear [simp]: "rank (hear a b) = rank a"
  by (auto simp: rank_def hear_def on_advertisement_def Let_def split: state.splits)

text \<open>A Master stays Master under a peer's advertisement exactly when the peer does not outrank it;
  no advertisement makes a Master.\<close>

lemma is_master_hear:
  "priority (snd b) \<noteq> 0 \<Longrightarrow> is_master (hear a b) \<longleftrightarrow> is_master a \<and> \<not> rank a < rank b"
  by (auto simp: is_master_def hear_def rank_def on_advertisement_def Let_def
      split: state.splits)

lemma is_master_hears:
  "\<forall>b \<in> set bs. priority (snd b) \<noteq> 0 \<Longrightarrow>
     is_master (foldl hear a bs) \<longleftrightarrow> is_master a \<and> (\<forall>b \<in> set bs. \<not> rank a < rank b)"
  by (induction bs arbitrary: a) (auto simp: is_master_hear)

lemma vr_new_centis:
  assumes "secs \<le> 40"
  shows "unat (advert_interval_centis (vr_new v prio pre secs)) = 100 * max (unat secs) 1
    \<and> advert_interval_centis (vr_new v prio pre secs) AND 0x0fff
        = advert_interval_centis (vr_new v prio pre secs)"
proof -
  have s: "unat secs \<le> 40"
    using assms by (simp add: word_le_nat_alt)
  have m: "unat (max secs 1) = max (unat secs) 1"
    by (simp add: max_def word_le_nat_alt)
  have p: "unat (max secs 1 * 100) = 100 * max (unat secs) 1"
    using s by (simp add: unat_word_ariths m)
  then have "max secs 1 * 100 \<le> 0x0fff"
    using s by (simp add: word_le_nat_alt)
  then have c: "min (max secs 1 * 100) 0x0fff = max secs 1 * 100"
    by (simp add: min_def)
  have u: "unat (ucast (max secs 1 * 100) :: u16) = 100 * max (unat secs) 1"
    using s by (simp add: unsigned_ucast_eq p take_bit_nat_eq_self_iff)
  have "(ucast (max secs 1 * 100) :: u16) AND 0x0fff = ucast (max secs 1 * 100)"
    using s by (intro and_0fff) (simp add: u)
  then show ?thesis
    using u by (simp add: vr_new_def Let_def c)
qed

subsection \<open>Properties\<close>

text \<open>The timers are the RFC 5798 formulas, computed in \<open>u32\<close> without wrap-around: Skew_Time is
  \<open>((256 - priority) * interval) / 256\<close>, below the Master's interval for every valid priority, and
  Master_Down_Interval is three intervals plus the skew.\<close>

theorem timers_exact:
  "unat (skew_centis vr) = (256 - unat (priority vr)) * unat (master_adver_interval_centis vr) div 256
   \<and> unat (master_down_interval_centis vr) =
       3 * unat (master_adver_interval_centis vr) + unat (skew_centis vr)
   \<and> unat (skew_centis vr) \<le> unat (master_adver_interval_centis vr)"
  by (simp add: unat_skew_centis unat_master_down skew_le_interval flip: unat_skew_centis)

text \<open>Among Backups of the same Master, one of higher priority never waits longer for it, so it
  is the first to take over.\<close>

theorem higher_priority_waits_less:
  assumes "priority a \<le> priority b"
    and "master_adver_interval_centis a = master_adver_interval_centis b"
  shows "master_down_interval_centis b \<le> master_down_interval_centis a
    \<and> skew_centis b \<le> skew_centis a"
proof -
  have "unat (priority a) \<le> unat (priority b)"
    using assms(1) by (simp add: word_le_nat_alt)
  then have "unat (skew_centis b) \<le> unat (skew_centis a)"
    unfolding unat_skew_centis assms(2) by (intro div_le_mono mult_le_mono1) simp
  then show ?thesis
    by (simp add: word_le_nat_alt unat_master_down assms(2))
qed

lemma higher_priority_waits_less_witness:
  "master_down_interval_centis (vr_new 51 200 True 1) \<le> master_down_interval_centis (vr_new 51 100 True 1)
   \<and> unat (master_down_interval_centis (vr_new 51 100 True 1)) = 360"
proof -
  have "priority (vr_new 51 100 True 1) \<le> priority (vr_new 51 200 True 1)"
    and "master_adver_interval_centis (vr_new 51 100 True 1)
      = master_adver_interval_centis (vr_new 51 200 True 1)"
    by (simp_all add: vr_new_def Let_def)
  from higher_priority_waits_less [OF this] show ?thesis
    by (simp add: unat_master_down unat_skew_centis vr_new_def Let_def)
qed

text \<open>A split brain resolves: when every one of several Masters of a virtual router (distinct
  addresses, valid priorities) has heard all the others, in whatever order, exactly one of them is
  still Master.\<close>

theorem one_master_remains:
  assumes "nodes \<noteq> []" and "distinct (map fst nodes)"
    and "\<forall>a \<in> set nodes. is_master a \<and> priority (snd a) \<noteq> 0"
    and "\<forall>a \<in> set nodes. set (heard a) = set nodes - {a}"
  shows "\<exists>!a. a \<in> set nodes \<and> is_master (foldl hear a (heard a))"
proof -
  have stays: "is_master (foldl hear a (heard a)) \<longleftrightarrow> (\<forall>b \<in> set nodes. rank b \<le> rank a)"
    if "a \<in> set nodes" for a
  proof -
    have "\<forall>b \<in> set (heard a). priority (snd b) \<noteq> 0"
      using assms(3,4) that by auto
    then have "is_master (foldl hear a (heard a)) \<longleftrightarrow> (\<forall>b \<in> set nodes - {a}. \<not> rank a < rank b)"
      using assms(3,4) that by (simp add: is_master_hears)
    then show ?thesis by (auto simp: not_less)
  qed
  have inj: "inj_on rank (set nodes)"
    using assms(2) by (auto simp: inj_on_def rank_def distinct_map)
  have "Max (rank ` set nodes) \<in> rank ` set nodes"
    using assms(1) by (intro Max_in) auto
  then obtain m where m: "m \<in> set nodes" "rank m = Max (rank ` set nodes)"
    by (metis imageE)
  then have top: "\<forall>b \<in> set nodes. rank b \<le> rank m"
    by simp
  show ?thesis
  proof (rule ex1I [of _ m])
    show "m \<in> set nodes \<and> is_master (foldl hear m (heard m))"
      using m top stays by blast
  next
    fix a assume a: "a \<in> set nodes \<and> is_master (foldl hear a (heard a))"
    then have "rank m \<le> rank a" and "rank a \<le> rank m"
      using m top stays by blast+
    then show "a = m"
      using inj a m(1) by (auto dest: inj_onD)
  qed
qed

definition demo_node :: "u8 \<Rightarrow> u8 \<Rightarrow> node" where
  "demo_node host prio = (Ipv4 192 168 8 host, (vr_new 51 prio True 1)\<lparr>state := Master\<rparr>)"

lemma one_master_remains_witness:
  "\<exists>!a. a \<in> {demo_node 10 100, demo_node 20 100, demo_node 30 50} \<and>
     is_master (foldl hear a (filter (\<lambda>b. b \<noteq> a) [demo_node 10 100, demo_node 20 100, demo_node 30 50]))"
proof -
  let ?ns = "[demo_node 10 100, demo_node 20 100, demo_node 30 50]"
  have "?ns \<noteq> []" and "distinct (map fst ?ns)"
    and "\<forall>a \<in> set ?ns. is_master a \<and> priority (snd a) \<noteq> 0"
    by (simp_all add: demo_node_def is_master_def vr_new_def Let_def)
  moreover have "\<forall>a \<in> set ?ns. set (filter (\<lambda>b. b \<noteq> a) ?ns) = set ?ns - {a}"
    by auto
  ultimately show ?thesis
    using one_master_remains [of ?ns "\<lambda>a. filter (\<lambda>b. b \<noteq> a) ?ns"] by simp
qed

text \<open>For every interval the VIP API accepts (up to 40 s, and 0 read as 1) the router's
  interval is that many seconds in centiseconds and fits the 12 bits an advertisement has for it.\<close>

theorem vr_new_interval:
  assumes "secs \<le> 40"
  shows "unat (advert_interval_centis (vr_new v prio pre secs)) = 100 * max (unat secs) 1
    \<and> advert_interval_centis (vr_new v prio pre secs) AND 0x0fff
        = advert_interval_centis (vr_new v prio pre secs)"
  using assms by (rule vr_new_centis)

lemma vr_new_interval_witness: "unat (advert_interval_centis (vr_new 51 100 True 40)) = 4000"
  using vr_new_interval [of 40 51 100 True] by simp

end
