(* ===== verification/Vrrp_Wire.thy ===== *)
theory Vrrp_Wire
  imports Net
begin

text \<open>
  \<open>src/vrrp.rs\<close>, the VRRPv3 advertisement codec: the encoder, the one's-complement checksum over
  the IPv4 pseudo-header, and the parser of a received datagram.
\<close>

subsection \<open>The checksum\<close>

definition VRRP_MCAST :: ipv4 where
  "VRRP_MCAST = Ipv4 224 0 0 18"

text \<open>\<open>with_pseudo_header\<close>: source, group, zero, protocol 112, payload length, payload.\<close>

definition with_pseudo_header :: "bytes \<Rightarrow> ipv4 \<Rightarrow> bytes" where
  "with_pseudo_header vrrp src =
     octets src @ octets VRRP_MCAST @ [0, 112] @ be16 (word_of_nat (length vrrp)) @ vrrp"

text \<open>The loop over \<open>chunks_exact(2)\<close> with its remainder, in \<open>u32\<close>.\<close>

fun sum_words :: "u32 \<Rightarrow> bytes \<Rightarrow> u32" where
  "sum_words s (a # b # bs) = sum_words (s + ucast (of_be16 a b)) bs"
| "sum_words s [a] = s + push_bit 8 (ucast a)"
| "sum_words s [] = s"

lemma nat_mod_add_cancel: "(a + c) mod m = (0 + c) mod (m :: nat) \<Longrightarrow> a mod m = 0"
proof -
  assume "(a + c) mod m = (0 + c) mod m"
  then have "m dvd (a + c) - c"
    by (metis add_0 le_add2 mod_eq_dvd_iff_nat)
  then show ?thesis by simp
qed

lemma power_numeral_65536: "(2 :: nat) ^ 16 = 65536"
  by simp

lemma carry_less: "n div 65536 \<noteq> 0 \<Longrightarrow> n mod 65536 + n div 65536 < (n :: nat)"
proof -
  assume "n div 65536 \<noteq> 0"
  then have "0 < n div 65536" by simp
  moreover have "n = n div 65536 * 65536 + n mod 65536" by simp
  ultimately show ?thesis by linarith
qed

lemma carry_mod: "(n mod 65536 + n div 65536) mod 65535 = n mod (65535 :: nat)"
proof -
  have "n = n div 65536 * 65536 + n mod 65536" by simp
  also have "\<dots> = (n mod 65536 + n div 65536) + 65535 * (n div 65536)" by simp
  finally show ?thesis by (metis mod_mult_self2)
qed

lemma carry_zero: "n mod 65536 + n div 65536 = 0 \<longleftrightarrow> (n :: nat) = 0"
proof -
  have "n = n div 65536 * 65536 + n mod 65536" by simp
  then show ?thesis by linarith
qed

lemma unat_and_ffff: "unat (s AND 0xffff :: u32) = unat s mod 65536"
proof -
  have "s AND 0xffff = take_bit 16 s"
    by (simp add: take_bit_eq_mask mask_eq_exp_minus_1)
  then show ?thesis by (metis take_bit_eq_mod unsigned_take_bit_eq power_numeral_65536)
qed

lemma unat_drop16: "unat (drop_bit 16 s :: u32) = unat s div 65536"
  by (simp add: drop_bit_eq_div unat_div)

lemma unat_carry_step:
  "unat ((s AND 0xffff) + drop_bit 16 s :: u32) = unat s mod 65536 + unat s div 65536"
proof -
  have "unat s < 2 ^ 32"
    using unsigned_less [of s, where ?'a = nat] by simp
  then have "unat s mod 65536 + unat s div 65536 < 2 ^ 32" by linarith
  then show ?thesis
    by (simp add: unat_word_ariths unat_and_ffff unat_drop16)
qed

function fold_carry :: "u32 \<Rightarrow> u32" where
  "fold_carry s =
     (if drop_bit 16 s \<noteq> 0 then fold_carry ((s AND 0xffff) + drop_bit 16 s) else s)"
  by pat_completeness auto
termination
proof (relation "measure unat")
  fix s :: u32 assume "drop_bit 16 s \<noteq> 0"
  then have "unat s div 65536 \<noteq> 0"
    by (metis unat_drop16 unat_eq_zero)
  then show "((s AND 0xffff) + drop_bit 16 s, s) \<in> measure unat"
    unfolding in_measure unat_carry_step by (rule carry_less)
qed simp

declare fold_carry.simps [simp del]

definition ones_complement_checksum :: "bytes \<Rightarrow> u16" where
  "ones_complement_checksum data = NOT (ucast (fold_carry (sum_words 0 data)))"

subsection \<open>Encoding and parsing\<close>

definition encode_advertisement :: "u8 \<Rightarrow> u8 \<Rightarrow> u16 \<Rightarrow> ipv4 list \<Rightarrow> ipv4 \<Rightarrow> bytes" where
  "encode_advertisement v prio interval vips src =
     (let p = [0x31, v, prio, word_of_nat (length vips)] @ be16 (interval AND 0x0fff) @ [0, 0]
            @ concat (map octets vips);
          ck = ones_complement_checksum (with_pseudo_header p src)
      in take 6 p @ be16 ck @ drop 8 p)"

record advert =
  adv_priority :: u8
  adv_src :: ipv4
  adv_interval :: u16

definition parse_advertisement :: "bytes \<Rightarrow> u8 \<Rightarrow> advert option" where
  "parse_advertisement datagram our_vrid =
     (if length datagram < 20 then None
      else (let ihl = unat (datagram ! 0 AND 0x0f) * 4
       in if ihl < 20 \<or> length datagram < ihl + 8 \<or> datagram ! 8 \<noteq> 255 then None
          else (let src = Ipv4 (datagram ! 12) (datagram ! 13) (datagram ! 14) (datagram ! 15);
                    vrrp = drop ihl datagram;
                    version = drop_bit 4 (vrrp ! 0);
                    vtype = vrrp ! 0 AND 0x0f
                in if version \<noteq> 3 \<or> vtype \<noteq> 1 \<or> vrrp ! 1 \<noteq> our_vrid then None
                   else if ones_complement_checksum (with_pseudo_header vrrp src) \<noteq> 0 then None
                   else Some \<lparr>adv_priority = vrrp ! 2, adv_src = src,
                              adv_interval = of_be16 (vrrp ! 4) (vrrp ! 5) AND 0x0fff\<rparr>)))"

subsection \<open>The checksum, as arithmetic\<close>

fun nsum :: "bytes \<Rightarrow> nat" where
  "nsum (a # b # bs) = (unat a * 256 + unat b) + nsum bs"
| "nsum [a] = unat a * 256"
| "nsum [] = 0"

lemma nsum_bound: "nsum bs \<le> 65535 * ((length bs + 1) div 2)"
proof (induction bs rule: nsum.induct)
  case (1 a b bs)
  then show ?case using u8_less [of a] u8_less [of b] by simp
next
  case (2 a)
  then show ?case using u8_less [of a] by simp
qed simp

lemma nsum_append: "even (length xs) \<Longrightarrow> nsum (xs @ ys) = nsum xs + nsum ys"
  by (induction xs rule: nsum.induct) auto

lemma nsum_be16: "nsum (be16 w) = unat w"
  using unat_of_be16 [of "ucast (drop_bit 8 w)" "ucast w"] by (simp add: be16_def wire)

lemma unat_push8: "unat (push_bit 8 (ucast (a :: u8)) :: u32) = unat a * 256"
proof -
  have "unat (ucast a :: u32) = unat a"
    using u8_less [of a] by (simp add: unsigned_ucast_eq take_bit_nat_eq_self_iff)
  then show ?thesis
    using u8_less [of a] by (simp add: push_bit_eq_mult unat_word_ariths)
qed

lemma unat_sum_words:
  "unat s + nsum bs < 2 ^ 32 \<Longrightarrow> unat (sum_words s bs) = unat s + nsum bs"
proof (induction s bs rule: sum_words.induct)
  case (1 s a b bs)
  have "unat (ucast (of_be16 a b) :: u32) = unat (of_be16 a b)"
    using u16_less [of "of_be16 a b"] by (simp add: unsigned_ucast_eq take_bit_nat_eq_self_iff)
  then have "unat (s + ucast (of_be16 a b)) = unat s + (unat a * 256 + unat b)"
    using "1.prems" by (simp add: unat_word_ariths unat_of_be16)
  with 1 show ?case by simp
next
  case (2 s a)
  then show ?case by (simp add: unat_word_ariths unat_push8)
qed simp

lemma unat_fold_carry:
  "unat (fold_carry s) < 65536 \<and> unat (fold_carry s) mod 65535 = unat s mod 65535
   \<and> (unat (fold_carry s) = 0 \<longleftrightarrow> unat s = 0)"
proof (induction s rule: fold_carry.induct)
  case (1 s)
  let ?t = "(s AND 0xffff) + drop_bit 16 s"
  show ?case
  proof (cases "drop_bit 16 s = 0")
    case True
    then have "unat s div 65536 = 0" by (metis unat_0 unat_drop16)
    then have "unat s < 65536" by (simp add: div_eq_0_iff)
    with True show ?thesis by (simp add: fold_carry.simps [of s])
  next
    case False
    then have eq: "fold_carry s = fold_carry ?t" by (simp add: fold_carry.simps [of s])
    have "unat ?t mod 65535 = unat s mod 65535" and "unat ?t = 0 \<longleftrightarrow> unat s = 0"
      unfolding unat_carry_step by (rule carry_mod, rule carry_zero)
    with "1.IH" [OF False] show ?thesis unfolding eq by metis
  qed
qed

text \<open>Buffers up to 131070 bytes are summed without wrap-around.\<close>

lemma nsum_small: "length bs \<le> 131070 \<Longrightarrow> nsum bs < 2 ^ 32"
proof -
  assume "length bs \<le> 131070"
  then have "65535 * ((length bs + 1) div 2) \<le> 65535 * 65535"
    by (intro mult_le_mono2) linarith
  then show ?thesis using nsum_bound [of bs] by simp
qed

definition folded :: "bytes \<Rightarrow> nat" where
  "folded data = unat (fold_carry (sum_words 0 data))"

lemma folded_facts:
  assumes "length data \<le> 131070"
  shows "folded data < 65536" and "folded data mod 65535 = nsum data mod 65535"
    and "folded data = 0 \<longleftrightarrow> nsum data = 0"
  using unat_fold_carry [of "sum_words 0 data"] unat_sum_words [of 0 data] nsum_small [OF assms]
  by (simp_all add: folded_def)

lemma unat_checksum:
  assumes "length data \<le> 131070"
  shows "unat (ones_complement_checksum data) = 65535 - folded data"
proof -
  have "unat (ucast (fold_carry (sum_words 0 data)) :: u16) = folded data"
    using folded_facts(1) [OF assms]
    by (simp add: folded_def unsigned_ucast_eq take_bit_nat_eq_self_iff)
  moreover have "NOT w = 65535 - (w :: u16)" for w
    by (simp add: not_eq_complement)
  moreover have "unat (65535 - w :: u16) = 65535 - unat w" for w
  proof -
    have "w \<le> 65535" using u16_less [of w] by (simp add: word_le_nat_alt)
    then have "unat (65535 - w) = unat (65535 :: u16) - unat w" by (rule unat_sub)
    then show ?thesis by simp
  qed
  ultimately show ?thesis
    by (simp add: ones_complement_checksum_def)
qed

lemma checksum_zero_iff:
  assumes "length data \<le> 131070"
  shows "ones_complement_checksum data = 0 \<longleftrightarrow> nsum data \<noteq> 0 \<and> nsum data mod 65535 = 0"
proof -
  have "ones_complement_checksum data = 0 \<longleftrightarrow> 65535 - folded data = 0"
    by (metis unat_checksum [OF assms] unat_eq_zero)
  also have "\<dots> \<longleftrightarrow> folded data = 65535"
    using folded_facts(1) [OF assms] by linarith
  also have "\<dots> \<longleftrightarrow> nsum data \<noteq> 0 \<and> nsum data mod 65535 = 0"
  proof
    assume "folded data = 65535"
    then show "nsum data \<noteq> 0 \<and> nsum data mod 65535 = 0"
      using folded_facts [OF assms] by auto
  next
    assume "nsum data \<noteq> 0 \<and> nsum data mod 65535 = 0"
    then have "folded data \<noteq> 0" and "65535 dvd folded data"
      using folded_facts [OF assms] by auto
    then show "folded data = 65535"
      using folded_facts(1) [OF assms] by auto
  qed
  finally show ?thesis .
qed

text \<open>Storing the checksum where it was computed as zero makes the whole buffer check.\<close>

lemma checksum_verifies:
  assumes "even (length xs)" and "length xs + length ys + 2 \<le> 131070"
  shows "ones_complement_checksum (xs @ be16 (ones_complement_checksum (xs @ [0, 0] @ ys)) @ ys) = 0"
proof -
  let ?z = "xs @ [0, 0] @ ys"
  let ?d = "xs @ be16 (ones_complement_checksum ?z) @ ys"
  have len: "length ?z \<le> 131070" and len': "length ?d \<le> 131070"
    using assms(2) by simp_all
  have z: "nsum ?z = nsum xs + nsum ys"
    using assms(1) by (simp add: nsum_append)
  have "nsum ?d = nsum xs + (unat (ones_complement_checksum ?z) + nsum ys)"
    using assms(1) by (simp add: nsum_append nsum_be16 del: append.simps)
  also have "\<dots> = nsum ?z + (65535 - folded ?z)"
    using unat_checksum [OF len] z by simp
  finally have d: "nsum ?d = nsum ?z + (65535 - folded ?z)" .
  have f: "folded ?z \<le> 65535"
    using folded_facts(1) [OF len] by linarith
  have "(nsum ?d + folded ?z) mod 65535 = (nsum ?z + 65535) mod 65535"
    using d f by simp
  then have "(nsum ?d + folded ?z) mod 65535 = (0 + folded ?z) mod 65535"
    using folded_facts(2) [OF len] by simp
  then have "nsum ?d mod 65535 = 0"
    by (rule nat_mod_add_cancel)
  moreover have "nsum ?d \<noteq> 0"
    using d f folded_facts(3) [OF len] by (cases "folded ?z = 0") auto
  ultimately show ?thesis
    using checksum_zero_iff [OF len'] by simp
qed

subsection \<open>What an encoded advertisement looks like\<close>

lemma length_concat_octets [simp]: "length (concat (map octets vips)) = 4 * length vips"
  by (induction vips) auto

text \<open>The pseudo-header and the six bytes before the checksum.\<close>

definition before_checksum :: "u8 \<Rightarrow> u8 \<Rightarrow> u16 \<Rightarrow> ipv4 list \<Rightarrow> bytes" where
  "before_checksum v prio interval vips =
     [0x31, v, prio, word_of_nat (length vips)] @ be16 (interval AND 0x0fff)"

lemma length_before_checksum [simp]: "length (before_checksum v prio i vips) = 6"
  by (simp add: before_checksum_def)

definition advert_checksum :: "u8 \<Rightarrow> u8 \<Rightarrow> u16 \<Rightarrow> ipv4 list \<Rightarrow> ipv4 \<Rightarrow> u16" where
  "advert_checksum v prio i vips src =
     ones_complement_checksum
       (with_pseudo_header (before_checksum v prio i vips @ [0, 0] @ concat (map octets vips)) src)"

lemma encode_advertisement_eq:
  "encode_advertisement v prio i vips src =
     before_checksum v prio i vips @ be16 (advert_checksum v prio i vips src)
       @ concat (map octets vips)"
  by (simp add: encode_advertisement_def Let_def advert_checksum_def before_checksum_def be16_def)

lemma length_encode_advertisement [simp]:
  "length (encode_advertisement v prio i vips src) = 8 + 4 * length vips"
  by (simp add: encode_advertisement_eq)

lemma encode_advertisement_checks:
  assumes "length vips \<le> 32000"
  shows "ones_complement_checksum
    (with_pseudo_header (encode_advertisement v prio i vips src) src) = 0"
proof -
  let ?pseudo = "octets src @ octets VRRP_MCAST @ [0, 112]
      @ be16 (word_of_nat (8 + 4 * length vips)) @ before_checksum v prio i vips"
  let ?tail = "concat (map octets vips)"
  have "advert_checksum v prio i vips src = ones_complement_checksum (?pseudo @ [0, 0] @ ?tail)"
    by (simp add: advert_checksum_def with_pseudo_header_def)
  moreover have "with_pseudo_header (encode_advertisement v prio i vips src) src =
      ?pseudo @ be16 (advert_checksum v prio i vips src) @ ?tail"
    by (simp add: with_pseudo_header_def) (simp add: encode_advertisement_eq)
  moreover have "even (length ?pseudo)" and "length ?pseudo + length ?tail + 2 \<le> 131070"
    using assms by simp_all
  ultimately show ?thesis
    using checksum_verifies by metis
qed

text \<open>A received datagram: an IPv4 header from \<open>src\<close> with TTL 255, then the VRRP payload.\<close>

definition ip_header :: "bytes \<Rightarrow> ipv4 \<Rightarrow> bool" where
  "ip_header hdr src \<longleftrightarrow> 20 \<le> length hdr \<and> length hdr = unat (hdr ! 0 AND 0x0f) * 4
     \<and> hdr ! 8 = 255 \<and> src = Ipv4 (hdr ! 12) (hdr ! 13) (hdr ! 14) (hdr ! 15)"

lemma parse_with_header:
  assumes "ip_header hdr src" and "8 \<le> length vrrp"
  shows "parse_advertisement (hdr @ vrrp) our_vrid =
    (if drop_bit 4 (vrrp ! 0) \<noteq> 3 \<or> vrrp ! 0 AND 0x0f \<noteq> 1 \<or> vrrp ! 1 \<noteq> our_vrid then None
     else if ones_complement_checksum (with_pseudo_header vrrp src) \<noteq> 0 then None
     else Some \<lparr>adv_priority = vrrp ! 2, adv_src = src,
                adv_interval = of_be16 (vrrp ! 4) (vrrp ! 5) AND 0x0fff\<rparr>)"
proof -
  have at: "(hdr @ vrrp) ! k = hdr ! k" if "k < 20" for k
    using assms(1) that by (simp add: ip_header_def nth_append)
  have d: "drop (unat (hdr ! 0 AND 0x0f) * 4) (hdr @ vrrp) = vrrp"
    using assms(1) by (simp add: ip_header_def)
  show ?thesis
    using assms by (simp add: parse_advertisement_def Let_def at d ip_header_def)
qed

text \<open>How one byte of a buffer weighs in its sum.\<close>

lemma nsum_update:
  "i < length bs \<Longrightarrow>
     nsum (bs[i := b]) + (if even i then 256 else 1) * unat (bs ! i)
       = nsum bs + (if even i then 256 else 1) * unat b"
proof (induction bs arbitrary: i rule: nsum.induct)
  case (1 x y bs)
  consider "i = 0" | "i = 1" | j where "i = Suc (Suc j)"
    by (metis One_nat_def not0_implies_Suc)
  then show ?case
  proof cases
    case 3
    with "1.prems" "1.IH" [of j] show ?thesis by simp
  qed simp_all
qed simp_all

lemma mod_cancel:
  "(p + a) mod m = 0 \<Longrightarrow> (p + b) mod m = 0 \<Longrightarrow> a + x = b + y \<Longrightarrow> x mod m = y mod (m :: nat)"
proof -
  assume 0: "(p + a) mod m = 0" "(p + b) mod m = 0" and eq: "a + x = b + y"
  have "x mod m = ((p + a) mod m + x) mod m" using 0 by simp
  also have "\<dots> = (p + a + x) mod m" by (rule mod_add_left_eq)
  also have "\<dots> = (p + b + y) mod m" using eq by (simp add: add.assoc)
  also have "\<dots> = ((p + b) mod m + y) mod m" by (rule mod_add_left_eq [symmetric])
  also have "\<dots> = y mod m" using 0 by simp
  finally show ?thesis .
qed

lemma byte_weight_inj:
  assumes "((if c then 256 else 1) * unat (x :: u8)) mod 65535
      = ((if c then 256 else 1 :: nat) * unat (y :: u8)) mod 65535"
  shows "unat x = unat y"
  using assms u8_less [of x] u8_less [of y] by (cases c) simp_all

lemma parse_encode_advertisement:
  assumes "ip_header hdr src" and "length vips \<le> 32000"
  shows "parse_advertisement (hdr @ encode_advertisement v prio i vips src) our_vrid =
    (if our_vrid = v
     then Some \<lparr>adv_priority = prio, adv_src = src, adv_interval = i AND 0x0fff\<rparr> else None)"
proof -
  let ?e = "encode_advertisement v prio i vips src"
  have "?e ! 0 = 0x31" "?e ! 1 = v" "?e ! 2 = prio"
    and at: "?e ! 4 = be16 (i AND 0x0fff) ! 0" "?e ! 5 = be16 (i AND 0x0fff) ! 1"
    by (simp_all add: encode_advertisement_eq before_checksum_def nth_append)
  moreover have "of_be16 (?e ! 4) (?e ! 5) = i AND 0x0fff"
    unfolding at by (rule of_be16_nth)
  moreover have "(i AND 0x0fff) AND 0x0fff = i AND (0x0fff :: u16)"
    by (simp add: and.assoc)
  ultimately show ?thesis
    using parse_with_header [OF assms(1), of ?e our_vrid]
      encode_advertisement_checks [OF assms(2), of v prio i src]
    by auto
qed

subsection \<open>Properties\<close>

text \<open>C27: What one router advertises, another one of the same virtual router reads back: for every
  priority, interval and source and up to 32000 addresses, the datagram parses to the priority,
  the source and the 12-bit interval, and a router of another VRID ignores it.\<close>

theorem advertisement_roundtrip:
  assumes "ip_header hdr src" and "length vips \<le> 32000"
  shows "parse_advertisement (hdr @ encode_advertisement v prio i vips src) our_vrid =
    (if our_vrid = v
     then Some \<lparr>adv_priority = prio, adv_src = src, adv_interval = i AND 0x0fff\<rparr> else None)"
  using assms by (rule parse_encode_advertisement)

definition demo_header :: bytes where
  "demo_header = [0x45, 0, 0, 32, 0, 0, 0, 0, 255, 112, 0, 0, 192, 168, 8, 11, 224, 0, 0, 18]"

lemma demo_header: "ip_header demo_header (Ipv4 192 168 8 11)"
  by (simp add: ip_header_def demo_header_def)

lemma advertisement_roundtrip_witness:
  "parse_advertisement
     (demo_header @ encode_advertisement 51 200 100 [Ipv4 192 168 8 50] (Ipv4 192 168 8 11)) 51 =
   Some \<lparr>adv_priority = 200, adv_src = Ipv4 192 168 8 11, adv_interval = 100\<rparr>"
  using advertisement_roundtrip [OF demo_header, of "[Ipv4 192 168 8 50]" 51 200 100 51] by simp

text \<open>The checksum catches every corruption of a single byte: an advertisement with one byte of
  the VRRP payload changed is rejected whatever the receiver's VRID.\<close>

theorem corrupted_byte_rejected:
  assumes "ip_header hdr src" and "length vips \<le> 32000"
    and "k < length (encode_advertisement v prio i vips src)"
    and "b \<noteq> encode_advertisement v prio i vips src ! k"
  shows "parse_advertisement (hdr @ (encode_advertisement v prio i vips src)[k := b]) our_vrid = None"
proof (rule ccontr)
  let ?e = "encode_advertisement v prio i vips src" and ?w = "if even k then 256 else 1 :: nat"
  let ?pseudo = "octets src @ octets VRRP_MCAST @ [0, 112] @ be16 (word_of_nat (length ?e))"
  assume "parse_advertisement (hdr @ ?e[k := b]) our_vrid \<noteq> None"
  then have ok: "ones_complement_checksum (with_pseudo_header (?e[k := b]) src) = 0"
    using parse_with_header [OF assms(1), of "?e[k := b]" our_vrid] by (auto split: if_splits)
  have split: "nsum (with_pseudo_header x src) = nsum ?pseudo + nsum x"
    if "length x = length ?e" for x
    using that by (simp add: with_pseudo_header_def nsum_append flip: append_assoc)
  have zero: "(nsum ?pseudo + nsum x) mod 65535 = 0"
    if "length x = length ?e" and "ones_complement_checksum (with_pseudo_header x src) = 0" for x
    using that checksum_zero_iff [of "with_pseudo_header x src"] split [of x] assms(2)
    by (simp add: with_pseudo_header_def)
  have upd: "nsum (?e[k := b]) + ?w * unat (?e ! k) = nsum ?e + ?w * unat b"
    using assms(3) by (rule nsum_update)
  have "(nsum ?pseudo + nsum (?e[k := b])) mod 65535 = 0" and "(nsum ?pseudo + nsum ?e) mod 65535 = 0"
    using zero [OF _ ok] zero [OF refl encode_advertisement_checks [OF assms(2)]] by simp_all
  from mod_cancel [OF this upd]
  have "(?w * unat (?e ! k)) mod 65535 = (?w * unat b) mod 65535" .
  then have "unat (?e ! k) = unat b"
    by (rule byte_weight_inj)
  then show False using assms(4) by (metis word_unat_eq_iff)
qed

lemma corrupted_byte_rejected_witness:
  "parse_advertisement (demo_header @
     (encode_advertisement 51 200 100 [Ipv4 192 168 8 50] (Ipv4 192 168 8 11))[2 := 255]) 51 = None"
proof -
  let ?e = "encode_advertisement 51 200 100 [Ipv4 192 168 8 50] (Ipv4 192 168 8 11)"
  have "?e ! 2 = 200"
    by (simp add: encode_advertisement_eq before_checksum_def)
  then show ?thesis
    using corrupted_byte_rejected [OF demo_header, of "[Ipv4 192 168 8 50]" 2 51 200 100 255 51]
    by simp
qed

end
