(* ===== verification/Vrrp_Loop.thy ===== *)
theory Vrrp_Loop
  imports Vrrp_Machine Vrrp_Wire
begin

text \<open>
  \<open>src/vrrp.rs\<close>, the control loop (\<open>run\<close>, \<open>run_loop\<close>) around the state machine and the codec, and
  the handle through which others stop it and read its state.

  One turn of the loop is a function of the loop's state and of what the outside answered in that
  turn: the stop flag, the health of the pool, the clock (nanoseconds), and the receive call.  Its
  results are the calls the turn makes, in order, and how it ends.  Calls whose errors the code only
  logs (\<open>send_to\<close>, \<open>claim\<close>, \<open>release\<close>) are actions of the trace.
\<close>

subsection \<open>The loop's state, inputs and actions\<close>

record loop =
  vr :: virtual_router
  next_advert :: nat
  master_down_deadline :: nat
  handle :: u8

datatype received = Datagram bytes | WouldBlock | RecvError

text \<open>
  What one turn sees: the stop flag; \<open>healthy()\<close> at the top; the clock when a resigning Master
  restarts its timer; the clock before the wait; whether \<open>set_read_timeout\<close> succeeded; what
  \<open>recv_from\<close> answered; the clock after it; \<open>healthy()\<close> when the master-down timer ran out.
\<close>

record turn_input =
  stop_seen :: bool
  healthy_now :: bool
  resigned_at :: nat
  waits_at :: nat
  timeout_set :: bool
  got :: received
  woke_at :: nat
  healthy_then :: bool

datatype action = Send bytes | Claim | Release | SetTimeout nat

datatype outcome = Running loop | Stopped | Failed

subsection \<open>The operations\<close>

definition millis :: "nat \<Rightarrow> nat" where
  "millis n = n * 1000000"

definition centis :: "u32 \<Rightarrow> nat" where
  "centis c = millis (unat c * 10)"

definition advert_packet :: "params \<Rightarrow> ipv4 \<Rightarrow> virtual_router \<Rightarrow> u8 \<Rightarrow> bytes" where
  "advert_packet p self v prio =
     encode_advertisement (p_vrid p) prio (advert_interval_centis v) [p_vip p] self"

text \<open>The code before the loop: the router starts, and an address owner claims at once.\<close>

definition begin_loop :: "params \<Rightarrow> bool \<Rightarrow> nat \<Rightarrow> nat \<Rightarrow> action list \<times> loop" where
  "begin_loop p healthy now1 now2 =
     (let v = vr_start (vr_new (p_vrid p) (p_priority p) (p_preempt p) (p_advert_interval_secs p)) healthy
      in (if state v = Master then [Claim] else [],
          \<lparr>vr = v, next_advert = now1,
           master_down_deadline = now2 + centis (master_down_interval_centis v),
           handle = handle_code (state v)\<rparr>))"

text \<open>The \<open>match sock.recv_from\<close>; the buffer holds 512 bytes.\<close>

definition on_datagram :: "params \<Rightarrow> ipv4 \<Rightarrow> loop \<Rightarrow> nat \<Rightarrow> bytes \<Rightarrow> action list \<times> outcome" where
  "on_datagram p self l now data =
     (case parse_advertisement (take 512 data) (p_vrid p) of
        None \<Rightarrow> ([], Running l)
      | Some a \<Rightarrow>
          (if adv_src a = self then ([], Running l)
           else (case on_advertisement (vr l) (adv_priority a) (adv_src a) self (adv_interval a) of
                   (r, v) \<Rightarrow>
                     (let l' = l\<lparr>vr := v\<rparr>
                      in (case r of
                            Ignore \<Rightarrow> ([], Running l')
                          | ResetTimer c \<Rightarrow> ([], Running (l'\<lparr>master_down_deadline := now + centis c\<rparr>))
                          | AdvertiseNow \<Rightarrow> ([], Running (l'\<lparr>next_advert := now\<rparr>))
                          | Demoted c \<Rightarrow>
                              ([Release], Running (l'\<lparr>master_down_deadline := now + centis c\<rparr>)))))))"

definition on_timeout :: "params \<Rightarrow> ipv4 \<Rightarrow> loop \<Rightarrow> nat \<Rightarrow> bool \<Rightarrow> action list \<times> outcome" where
  "on_timeout p self l now healthy =
     (case state (vr l) of
        Master \<Rightarrow>
          (if next_advert l \<le> now
           then ([Send (advert_packet p self (vr l) (p_priority p))],
                 Running (l\<lparr>next_advert := now + millis (unat (advert_interval_centis (vr l)) * 10)\<rparr>))
           else ([], Running l))
      | Backup \<Rightarrow>
          (if master_down_deadline l \<le> now
           then (case on_master_down_timeout (vr l) healthy of
                   (took, v) \<Rightarrow>
                     (if took then ([Claim], Running (l\<lparr>vr := v, next_advert := now\<rparr>))
                      else ([], Running (l\<lparr>vr := v,
                              master_down_deadline := now + centis (master_down_interval_centis v)\<rparr>))))
           else ([], Running l))
      | Initialize \<Rightarrow> ([], Running l))"

definition receive :: "params \<Rightarrow> ipv4 \<Rightarrow> loop \<Rightarrow> turn_input \<Rightarrow> action list \<times> outcome" where
  "receive p self l i =
     (case got i of
        Datagram data \<Rightarrow> on_datagram p self l (woke_at i) data
      | WouldBlock \<Rightarrow> on_timeout p self l (woke_at i) (healthy_then i)
      | RecvError \<Rightarrow> ([], Failed))"

definition wait_time :: "loop \<Rightarrow> nat \<Rightarrow> nat" where
  "wait_time l now =
     (let wake = (if state (vr l) = Master then next_advert l else master_down_deadline l)
      in min (max (wake - now) (millis 10)) (millis 500))"

text \<open>The top of a turn: the health check, with its resignation.\<close>

definition check_health :: "params \<Rightarrow> ipv4 \<Rightarrow> loop \<Rightarrow> turn_input \<Rightarrow> action list \<times> loop" where
  "check_health p self l i =
     (case on_health (vr l) (healthy_now i) of
        (resign, v) \<Rightarrow>
          (if resign then [Send (advert_packet p self v 0), Release] else [],
           l\<lparr>vr := v, handle := handle_code (state v),
             master_down_deadline :=
               (if resign then resigned_at i + centis (master_down_interval_centis v)
                else master_down_deadline l)\<rparr>))"

definition turn :: "params \<Rightarrow> ipv4 \<Rightarrow> loop \<Rightarrow> turn_input \<Rightarrow> action list \<times> outcome" where
  "turn p self l i =
     (if stop_seen i
      then (if state (vr l) = Master then [Send (advert_packet p self (vr l) 0), Release] else [], Stopped)
      else (case check_health p self l i of
              (acts, l') \<Rightarrow>
                (let acts' = acts @ [SetTimeout (wait_time l' (waits_at i))]
                 in if timeout_set i
                    then (case receive p self l' i of (rest, r) \<Rightarrow> (acts' @ rest, r))
                    else (acts', Failed))))"

fun run_turns :: "params \<Rightarrow> ipv4 \<Rightarrow> loop \<Rightarrow> turn_input list \<Rightarrow> action list \<times> outcome" where
  "run_turns p self l [] = ([], Running l)"
| "run_turns p self l (i # is) =
     (case turn p self l i of
        (acts, Running l') \<Rightarrow> (case run_turns p self l' is of (rest, r) \<Rightarrow> (acts @ rest, r))
      | (acts, r) \<Rightarrow> (acts, r))"

text \<open>
  \<open>run\<close> on a finite run of the loop: what \<open>interface_ipv4\<close> answered, whether the socket could be
  set up, health and clock at the start, and the turns.  The results are the calls made, the
  handle's code and the outcome; the handle is reset when the loop has returned.
\<close>

record start_input =
  iface_addr :: "ipv4 option"
  socket_ok :: bool
  start_healthy :: bool
  start_clock :: nat
  deadline_clock :: nat

definition run_loop :: "params \<Rightarrow> start_input \<Rightarrow> turn_input list \<Rightarrow> action list \<times> outcome" where
  "run_loop p s is =
     (case iface_addr s of
        None \<Rightarrow> ([], Failed)
      | Some self \<Rightarrow>
          (if \<not> socket_ok s then ([], Failed)
           else (case begin_loop p (start_healthy s) (start_clock s) (deadline_clock s) of
                   (acts, l) \<Rightarrow> (case run_turns p self l is of (rest, r) \<Rightarrow> (acts @ rest, r)))))"

definition vrrp_run :: "params \<Rightarrow> start_input \<Rightarrow> turn_input list \<Rightarrow> action list \<times> u8 \<times> outcome" where
  "vrrp_run p s is =
     (case run_loop p s is of
        (acts, r) \<Rightarrow> (acts, (case r of Running l \<Rightarrow> handle l | _ \<Rightarrow> handle_code Initialize), r))"

subsection \<open>The VIP ledger\<close>

text \<open>
  Whether the node holds the VIP after a trace, when it held it (or not) before: \<open>None\<close> when the
  trace claims an address that is held or releases one that is not.
\<close>

fun ledger :: "bool \<Rightarrow> action list \<Rightarrow> bool option" where
  "ledger b [] = Some b"
| "ledger b (Claim # as) = (if b then None else ledger True as)"
| "ledger b (Release # as) = (if b then ledger False as else None)"
| "ledger b (Send _ # as) = ledger b as"
| "ledger b (SetTimeout _ # as) = ledger b as"

lemma ledger_append:
  "ledger b (as @ bs) = (case ledger b as of None \<Rightarrow> None | Some b' \<Rightarrow> ledger b' bs)"
  by (induction b as rule: ledger.induct) auto

definition is_up :: "loop \<Rightarrow> bool" where
  "is_up l \<longleftrightarrow> state (vr l) = Master"

lemma ledger_check_health:
  "check_health p self l i = (acts, l') \<Longrightarrow> ledger (is_up l) acts = Some (is_up l')"
  by (auto simp: check_health_def on_health_def is_up_def split: if_splits)

lemma ledger_on_datagram:
  "on_datagram p self l now data = (acts, r) \<Longrightarrow>
     \<exists>l'. r = Running l' \<and> ledger (is_up l) acts = Some (is_up l')"
  by (auto simp: on_datagram_def on_advertisement_def is_up_def Let_def
      split: option.splits if_splits state.splits)

lemma ledger_on_timeout:
  "on_timeout p self l now healthy = (acts, r) \<Longrightarrow>
     \<exists>l'. r = Running l' \<and> ledger (is_up l) acts = Some (is_up l')"
  by (auto simp: on_timeout_def on_master_down_timeout_def is_up_def
      split: if_splits state.splits)

text \<open>What a finished trace leaves: nothing held after a stop, the state's say otherwise.\<close>

definition settled :: "bool \<Rightarrow> outcome \<Rightarrow> bool" where
  "settled held r \<longleftrightarrow>
     (case r of Running l \<Rightarrow> held = is_up l | Stopped \<Rightarrow> \<not> held | Failed \<Rightarrow> True)"

lemma ledger_receive:
  "receive p self l i = (acts, r) \<Longrightarrow> \<exists>held. ledger (is_up l) acts = Some held \<and> settled held r"
  by (auto simp: receive_def settled_def split: received.splits
      dest!: ledger_on_datagram ledger_on_timeout)

lemma ledger_turn:
  assumes "turn p self l i = (acts, r)"
  shows "\<exists>held. ledger (is_up l) acts = Some held \<and> settled held r"
proof (cases "stop_seen i")
  case True
  with assms show ?thesis by (auto simp: turn_def settled_def is_up_def split: if_splits)
next
  case False
  obtain acts1 l' where health: "check_health p self l i = (acts1, l')" by fastforce
  note up = ledger_check_health [OF health]
  show ?thesis
  proof (cases "timeout_set i")
    case True
    obtain rest where rest: "receive p self l' i = (rest, r)"
      and acts: "acts = acts1 @ [SetTimeout (wait_time l' (waits_at i))] @ rest"
      using assms False True health by (auto simp: turn_def Let_def split: prod.splits)
    from ledger_receive [OF rest] show ?thesis
      by (simp add: acts ledger_append up)
  next
    case False
    with assms \<open>\<not> stop_seen i\<close> health have "acts = acts1 @ [SetTimeout (wait_time l' (waits_at i))]"
      and "r = Failed"
      by (simp_all add: turn_def Let_def)
    then show ?thesis by (simp add: ledger_append up settled_def)
  qed
qed

lemma ledger_run_turns:
  "run_turns p self l is = (acts, r) \<Longrightarrow> \<exists>held. ledger (is_up l) acts = Some held \<and> settled held r"
proof (induction "is" arbitrary: l acts)
  case Nil
  then show ?case by (auto simp: settled_def)
next
  case (Cons i "is")
  obtain acts1 r1 where turn: "turn p self l i = (acts1, r1)" by fastforce
  note one = ledger_turn [OF turn]
  show ?case
  proof (cases r1)
    case (Running l1)
    obtain rest where rest: "run_turns p self l1 is = (rest, r)" and "acts = acts1 @ rest"
      using Cons.prems by (auto simp: turn Running split: prod.splits)
    moreover have "ledger (is_up l) acts1 = Some (is_up l1)"
      using one by (auto simp: Running settled_def)
    ultimately show ?thesis
      using Cons.IH [OF rest] by (simp add: ledger_append)
  next
    case Stopped
    then show ?thesis using Cons.prems turn one by auto
  next
    case Failed
    then show ?thesis using Cons.prems turn one by auto
  qed
qed

lemma ledger_begin_loop:
  "begin_loop p h t1 t2 = (acts, l) \<Longrightarrow> ledger False acts = Some (is_up l)"
  by (auto simp: begin_loop_def Let_def is_up_def split: if_splits)

lemma ledger_run_loop:
  assumes "run_loop p s is = (acts, r)"
  shows "\<exists>held. ledger False acts = Some held \<and> settled held r"
proof (cases "iface_addr s = None \<or> \<not> socket_ok s")
  case True
  with assms show ?thesis by (auto simp: run_loop_def settled_def split: option.splits)
next
  case False
  then obtain self where self: "iface_addr s = Some self" "socket_ok s" by auto
  obtain acts1 l where b: "begin_loop p (start_healthy s) (start_clock s) (deadline_clock s) = (acts1, l)"
    by fastforce
  obtain rest where rest: "run_turns p self l is = (rest, r)" and "acts = acts1 @ rest"
    using assms by (auto simp: run_loop_def self b split: prod.splits)
  with ledger_run_turns [OF rest] ledger_begin_loop [OF b] show ?thesis
    by (simp add: ledger_append)
qed

subsection \<open>Master, to the end\<close>

text \<open>Whether the router is Master after a turn; after one that failed, whether it was when it failed.\<close>

definition stands :: "params \<Rightarrow> ipv4 \<Rightarrow> loop \<Rightarrow> turn_input \<Rightarrow> bool" where
  "stands p self l i =
     (case snd (turn p self l i) of
        Running l' \<Rightarrow> is_up l'
      | Stopped \<Rightarrow> False
      | Failed \<Rightarrow> is_up (snd (check_health p self l i)))"

fun stands_after :: "params \<Rightarrow> ipv4 \<Rightarrow> loop \<Rightarrow> turn_input list \<Rightarrow> bool" where
  "stands_after p self l [] = is_up l"
| "stands_after p self l (i # is) =
     (case snd (turn p self l i) of Running l' \<Rightarrow> stands_after p self l' is | _ \<Rightarrow> stands p self l i)"

definition run_stands :: "params \<Rightarrow> start_input \<Rightarrow> turn_input list \<Rightarrow> bool" where
  "run_stands p s is =
     (case iface_addr s of
        None \<Rightarrow> False
      | Some self \<Rightarrow> socket_ok s
          \<and> stands_after p self (snd (begin_loop p (start_healthy s) (start_clock s) (deadline_clock s))) is)"

lemma failed_receive: "receive p self l i = (acts, Failed) \<Longrightarrow> acts = []"
  using ledger_on_datagram [of p self l "woke_at i"] ledger_on_timeout [of p self l "woke_at i" "healthy_then i"]
  by (fastforce simp: receive_def split: received.splits)

lemma ledger_stands:
  assumes "turn p self l i = (acts, r)"
  shows "ledger (is_up l) acts = Some (stands p self l i)"
proof -
  obtain held where held: "ledger (is_up l) acts = Some held" "settled held r"
    using ledger_turn [OF assms] by blast
  show ?thesis
  proof (cases r)
    case Failed
    obtain acts1 l' where health: "check_health p self l i = (acts1, l')" by fastforce
    have "\<not> stop_seen i" using assms Failed by (auto simp: turn_def)
    then have "acts = acts1 @ [SetTimeout (wait_time l' (waits_at i))]"
      using assms Failed health failed_receive by (auto simp: turn_def Let_def split: if_splits prod.splits)
    then show ?thesis
      using ledger_check_health [OF health] by (simp add: stands_def assms Failed health ledger_append)
  qed (use held in \<open>simp_all add: stands_def assms settled_def\<close>)
qed

lemma ledger_stands_after:
  "run_turns p self l is = (acts, r) \<Longrightarrow> ledger (is_up l) acts = Some (stands_after p self l is)"
proof (induction "is" arbitrary: l acts)
  case (Cons i "is")
  obtain acts1 r1 where turn: "turn p self l i = (acts1, r1)" by fastforce
  note one = ledger_stands [OF turn]
  show ?case
  proof (cases r1)
    case (Running l1)
    obtain rest where rest: "run_turns p self l1 is = (rest, r)" and "acts = acts1 @ rest"
      using Cons.prems by (auto simp: turn Running split: prod.splits)
    then show ?thesis
      using Cons.IH [OF rest] one by (simp add: ledger_append turn Running stands_def)
  qed (use Cons.prems one in \<open>auto simp: turn\<close>)
qed simp

lemma ledger_run_stands:
  assumes "run_loop p s is = (acts, r)"
  shows "ledger False acts = Some (run_stands p s is)" and "settled (run_stands p s is) r"
proof -
  show "ledger False acts = Some (run_stands p s is)"
  proof (cases "iface_addr s = None \<or> \<not> socket_ok s")
    case True
    with assms show ?thesis by (auto simp: run_loop_def run_stands_def split: option.splits)
  next
    case False
    then obtain self where self: "iface_addr s = Some self" "socket_ok s" by auto
    obtain acts1 l where b: "begin_loop p (start_healthy s) (start_clock s) (deadline_clock s) = (acts1, l)"
      by fastforce
    obtain rest where rest: "run_turns p self l is = (rest, r)" and "acts = acts1 @ rest"
      using assms by (auto simp: run_loop_def self b split: prod.splits)
    with ledger_stands_after [OF rest] ledger_begin_loop [OF b] show ?thesis
      by (simp add: ledger_append run_stands_def self b)
  qed
  with ledger_run_loop [OF assms] show "settled (run_stands p s is) r" by auto
qed

subsection \<open>Quiet and busy turns\<close>

text \<open>A turn in which a healthy node is neither stopped nor fails.\<close>

definition steady :: "turn_input \<Rightarrow> bool" where
  "steady i \<longleftrightarrow> \<not> stop_seen i \<and> healthy_now i \<and> healthy_then i \<and> timeout_set i"

definition quiet :: "turn_input \<Rightarrow> bool" where
  "quiet i \<longleftrightarrow> steady i \<and> got i = WouldBlock"

definition is_datagram :: "received \<Rightarrow> bool" where
  "is_datagram g = (case g of Datagram _ \<Rightarrow> True | _ \<Rightarrow> False)"

definition is_send :: "action \<Rightarrow> bool" where
  "is_send a = (case a of Send _ \<Rightarrow> True | _ \<Rightarrow> False)"

lemma turn_steady:
  "steady i \<Longrightarrow> turn p self l i =
     (let l' = l\<lparr>handle := handle_code (state (vr l))\<rparr>
      in case receive p self l' i of
           (rest, r) \<Rightarrow> (SetTimeout (wait_time l (waits_at i)) # rest, r))"
  by (simp add: turn_def steady_def check_health_def on_health_def wait_time_def Let_def)

lemma quiet_master:
  assumes "quiet i" and "is_up l"
  shows "\<exists>acts l'. turn p self l i = (acts, Running l') \<and> is_up l'"
  using assms
  by (auto simp: quiet_def turn_steady receive_def on_timeout_def is_up_def Let_def split: if_splits)

lemma quiet_backup:
  assumes "quiet i" and "state (vr l) = Backup"
  shows "if master_down_deadline l \<le> woke_at i
    then \<exists>acts l'. turn p self l i = (acts, Running l') \<and> is_up l' \<and> Claim \<in> set acts
    else \<exists>acts l'. turn p self l i = (acts, Running l') \<and> vr l' = vr l
      \<and> master_down_deadline l' = master_down_deadline l"
  using assms by (auto simp: quiet_def steady_def turn_steady receive_def on_timeout_def
      on_master_down_timeout_def is_up_def Let_def)

lemma quiet_masters:
  "\<forall>i \<in> set is. quiet i \<Longrightarrow> is_up l \<Longrightarrow> \<exists>acts l'. run_turns p self l is = (acts, Running l') \<and> is_up l'"
proof (induction "is" arbitrary: l)
  case (Cons i "is")
  obtain acts l' where "turn p self l i = (acts, Running l')" and "is_up l'"
    using quiet_master [of i l p self] Cons.prems by auto
  with Cons.IH [of l'] Cons.prems show ?case by auto
qed simp

lemma quiet_takeover:
  assumes "\<forall>i \<in> set is. quiet i" and "state (vr l) = Backup"
    and "\<exists>i \<in> set is. master_down_deadline l \<le> woke_at i"
  shows "\<exists>acts l'. run_turns p self l is = (acts, Running l') \<and> is_up l' \<and> Claim \<in> set acts"
  using assms
proof (induction "is" arbitrary: l)
  case (Cons i "is")
  show ?case
  proof (cases "master_down_deadline l \<le> woke_at i")
    case True
    then obtain acts l' where "turn p self l i = (acts, Running l')" "is_up l'" "Claim \<in> set acts"
      using quiet_backup [of i l p self] Cons.prems by auto
    with quiet_masters [of "is" l' p self] Cons.prems show ?thesis by auto
  next
    case False
    then obtain acts l' where "turn p self l i = (acts, Running l')" "vr l' = vr l"
      "master_down_deadline l' = master_down_deadline l"
      using quiet_backup [of i l p self] Cons.prems by auto
    with False Cons.IH [of l'] Cons.prems show ?thesis by auto
  qed
qed simp

definition wait_ok :: "action \<Rightarrow> bool" where
  "wait_ok a = (case a of SetTimeout n \<Rightarrow> millis 10 \<le> n \<and> n \<le> millis 500 | _ \<Rightarrow> True)"

lemma wait_ok_simps [simp]:
  "wait_ok Claim" "wait_ok Release" "wait_ok (Send b)" "wait_ok (SetTimeout (wait_time l t))"
  by (simp_all add: wait_ok_def wait_time_def millis_def)

lemma wait_ok_turn: "turn p self l i = (acts, r) \<Longrightarrow> list_all wait_ok acts"
  by (auto simp: turn_def check_health_def receive_def on_datagram_def on_timeout_def Let_def
      split: if_splits prod.splits received.splits option.splits on_advert.splits state.splits)

lemma wait_ok_run_turns: "run_turns p self l is = (acts, r) \<Longrightarrow> list_all wait_ok acts"
proof (induction "is" arbitrary: l acts)
  case (Cons i "is")
  obtain acts1 r1 where turn: "turn p self l i = (acts1, r1)" by fastforce
  with Cons wait_ok_turn [OF turn] show ?case
    by (auto split: outcome.splits prod.splits)
qed simp

subsection \<open>Properties\<close>

text \<open>The VIP follows the state: whatever the peers send and the clock reads, a run claims the
  address only when it is not held and releases it only when it is, the address is held exactly
  while the router is Master, and a run that was stopped holds nothing.\<close>

theorem vip_follows_state:
  "case vrrp_run p s is of
     (acts, h, r) \<Rightarrow> (\<exists>held. ledger False acts = Some held \<and> settled held r)"
proof -
  obtain acts r where "run_loop p s is = (acts, r)" by fastforce
  with ledger_run_loop [OF this] show ?thesis by (simp add: vrrp_run_def)
qed

text \<open>A Backup that hears nothing takes over: as soon as one of its turns wakes at or after the
  master-down deadline, the run has claimed the VIP and is Master, and it stays Master through the
  quiet turns that follow.\<close>

theorem silent_backup_takes_over:
  assumes "\<forall>i \<in> set is. quiet i" and "state (vr l) = Backup"
    and "\<exists>i \<in> set is. master_down_deadline l \<le> woke_at i"
  shows "\<exists>acts l'. run_turns p self l is = (acts, Running l') \<and> is_up l' \<and> Claim \<in> set acts"
  using assms by (rule quiet_takeover)

definition demo_params :: params where
  "demo_params = \<lparr>p_vrid = 51, p_priority = 100, p_preempt = True, p_advert_interval_secs = 1,
     p_iface = ''eth0'', p_vip = Ipv4 192 168 8 50\<rparr>"

definition demo_loop :: "virtual_router \<Rightarrow> loop" where
  "demo_loop v = \<lparr>vr = v, next_advert = 0, master_down_deadline = 3600000000,
     handle = handle_code (state v)\<rparr>"

definition demo_turn :: "received \<Rightarrow> nat \<Rightarrow> turn_input" where
  "demo_turn g t = \<lparr>stop_seen = False, healthy_now = True, resigned_at = 0, waits_at = t,
     timeout_set = True, got = g, woke_at = t + 500000000, healthy_then = True\<rparr>"

definition demo_router :: "state \<Rightarrow> virtual_router" where
  "demo_router st = (vr_new 51 100 True 1)\<lparr>state := st\<rparr>"

lemma state_demo_router [simp]: "state (demo_router st) = st"
  by (simp add: demo_router_def)

lemma silent_backup_takes_over_witness:
  "\<exists>acts l'. run_turns demo_params (Ipv4 192 168 8 10) (demo_loop (demo_router Backup))
       [demo_turn WouldBlock 0, demo_turn WouldBlock 3500000000] = (acts, Running l')
     \<and> is_up l' \<and> Claim \<in> set acts"
  by (rule silent_backup_takes_over)
    (simp_all add: demo_loop_def demo_turn_def quiet_def steady_def)

text \<open>A stopped Master resigns: its last calls are a priority-0 advertisement and the release, and
  every Backup of the virtual router that receives that advertisement then waits only its skew
  time.\<close>

theorem stopped_master_resigns:
  assumes "is_up l" and "stop_seen i" and "vrid (vr l) = p_vrid p"
    and "ip_header hdr self" and "state peer = Backup" and "vrid peer = p_vrid p"
  shows "\<exists>pkt a. turn p self l i = ([Send pkt, Release], Stopped)
    \<and> parse_advertisement (hdr @ pkt) (vrid peer) = Some a
    \<and> on_advertisement peer (adv_priority a) (adv_src a) peer_addr (adv_interval a)
        = (ResetTimer (skew_centis peer), peer)"
  using assms
  by (auto simp: turn_def is_up_def advert_packet_def parse_encode_advertisement
      on_advertisement_def)

lemma stopped_master_resigns_witness:
  "\<exists>pkt a. turn demo_params (Ipv4 192 168 8 11) (demo_loop (demo_router Master))
       ((demo_turn WouldBlock 0)\<lparr>stop_seen := True\<rparr>) = ([Send pkt, Release], Stopped)
     \<and> parse_advertisement (demo_header @ pkt) (vrid (demo_router Backup)) = Some a
     \<and> on_advertisement (demo_router Backup) (adv_priority a) (adv_src a) (Ipv4 192 168 8 20) (adv_interval a)
         = (ResetTimer (skew_centis (demo_router Backup)), demo_router Backup)"
  by (rule stopped_master_resigns)
    (simp_all add: demo_header is_up_def demo_loop_def demo_params_def demo_router_def vr_new_def Let_def)

text \<open>Every wait of a run is between 10 and 500 milliseconds, so a stop or a change of health is
  seen within half a second and the loop never spins.\<close>

theorem waits_are_clamped: "list_all wait_ok (fst (run_loop p s is))"
proof (cases "iface_addr s = None \<or> \<not> socket_ok s")
  case True
  then show ?thesis by (auto simp: run_loop_def split: option.splits)
next
  case False
  then obtain self where self: "iface_addr s = Some self" "socket_ok s" by auto
  obtain acts l where b: "begin_loop p (start_healthy s) (start_clock s) (deadline_clock s) = (acts, l)"
    by fastforce
  obtain rest r where "run_turns p self l is = (rest, r)" by fastforce
  with wait_ok_run_turns [OF this] b show ?thesis
    by (auto simp: run_loop_def self begin_loop_def Let_def split: if_splits)
qed

text \<open>A Master that keeps receiving does not advertise: while every wait ends with a datagram
  that is not a valid advertisement of its virtual router, it sends nothing, however long the run and
  whatever the clock reads, because advertisements are sent only when a wait times out.\<close>

theorem busy_master_is_silent:
  assumes "is_up l"
    and "\<forall>i \<in> set is. steady i \<and> (\<exists>d. got i = Datagram d
           \<and> parse_advertisement (take 512 d) (p_vrid p) = None)"
  shows "\<exists>acts l'. run_turns p self l is = (acts, Running l') \<and> is_up l' \<and> list_all (\<lambda>a. \<not> is_send a) acts"
  using assms
proof (induction "is" arbitrary: l)
  case (Cons i "is")
  then have "turn p self l i =
      ([SetTimeout (wait_time l (waits_at i))], Running (l\<lparr>handle := handle_code (state (vr l))\<rparr>))"
    by (auto simp: turn_steady receive_def on_datagram_def Let_def)
  moreover have "is_up (l\<lparr>handle := handle_code (state (vr l))\<rparr>)"
    using Cons.prems by (simp add: is_up_def)
  ultimately show ?case
    using Cons.IH [of "l\<lparr>handle := handle_code (state (vr l))\<rparr>"] Cons.prems
    by (auto simp: is_send_def)
qed simp

lemma busy_master_is_silent_witness:
  "\<exists>acts l'. run_turns demo_params (Ipv4 192 168 8 11) (demo_loop (demo_router Master))
       (replicate 1000 (demo_turn (Datagram []) 9000000000)) = (acts, Running l')
     \<and> is_up l' \<and> list_all (\<lambda>a. \<not> is_send a) acts"
  by (rule busy_master_is_silent)
    (simp_all add: is_up_def demo_loop_def demo_turn_def steady_def parse_advertisement_def)

text \<open>A run that ends because the socket failed leaves the VIP on the interface: a Master whose
  receive call fails returns at once, with the address claimed and not released, no resignation sent
  and the handle saying that the loop is stopped.\<close>

theorem failed_receive_keeps_vip:
  "\<exists>p s i acts h. vrrp_run p s [i] = (acts, h, Failed) \<and> \<not> stop_seen i
     \<and> ledger False acts = Some True \<and> list_all (\<lambda>a. \<not> is_send a) acts \<and> handle_name h = ''stopped''"
proof (intro exI conjI)
  let ?p = "demo_params\<lparr>p_priority := 255\<rparr>"
  let ?s = "\<lparr>iface_addr = Some (Ipv4 192 168 8 10), socket_ok = True, start_healthy = True,
      start_clock = 0, deadline_clock = 0\<rparr>"
  let ?i = "demo_turn RecvError 0"
  show "vrrp_run ?p ?s [?i] = ([Claim, SetTimeout (millis 10)], handle_code Initialize, Failed)"
    by (simp add: vrrp_run_def run_loop_def begin_loop_def vr_start_def vr_new_def Let_def
        demo_params_def turn_steady steady_def demo_turn_def receive_def wait_time_def millis_def)
  show "\<not> stop_seen ?i" by (simp add: demo_turn_def)
  show "ledger False [Claim, SetTimeout (millis 10)] = Some True" by simp
  show "list_all (\<lambda>a. \<not> is_send a) [Claim, SetTimeout (millis 10)]" by (simp add: is_send_def)
  show "handle_name (handle_code Initialize) = ''stopped''"
    by (simp add: handle_name_def handle_code_def)
qed

end
