(* ===== verification/Vrrp_Network.thy ===== *)
theory Vrrp_Network
  imports Vrrp_Loop
begin

text \<open>
  Several nodes running the control loop of \<open>src/vrrp.rs\<close> on one network: what a node's turn sends is what
  the others' turns receive, behind the IPv4 header their raw sockets deliver.  The theory composes the
  state machine, the codec and the loop: no statement here is about one node only.
\<close>

subsection \<open>Stations\<close>

text \<open>A node with its settings, its address on the interface and its loop.\<close>

record station =
  s_params :: params
  s_addr :: ipv4
  s_loop :: loop

definition s_turn :: "station \<Rightarrow> turn_input \<Rightarrow> action list \<times> outcome" where
  "s_turn a i = turn (s_params a) (s_addr a) (s_loop a) i"

definition s_run :: "station \<Rightarrow> turn_input list \<Rightarrow> action list \<times> outcome" where
  "s_run a is = run_turns (s_params a) (s_addr a) (s_loop a) is"

definition sent :: "action list \<Rightarrow> bytes list" where
  "sent acts = concat (map (\<lambda>a. case a of Send b \<Rightarrow> [b] | _ \<Rightarrow> []) acts)"

text \<open>A Master of virtual router \<open>v\<close>, with the priority it was given.\<close>

definition contender :: "u8 \<Rightarrow> station \<Rightarrow> bool" where
  "contender v a \<longleftrightarrow> is_up (s_loop a) \<and> p_vrid (s_params a) = v \<and> p_priority (s_params a) \<noteq> 0
     \<and> priority (vr (s_loop a)) = p_priority (s_params a)"

definition standing :: "station \<Rightarrow> u8 \<times> ipv4" where
  "standing a = (p_priority (s_params a), s_addr a)"

text \<open>A turn that waits for nothing, with the next advertisement due.\<close>

definition due :: "loop \<Rightarrow> turn_input \<Rightarrow> bool" where
  "due l i \<longleftrightarrow> quiet i \<and> next_advert l \<le> woke_at i"

text \<open>A turn that receives what \<open>b\<close> sent in the turn \<open>j\<close>.\<close>

definition hears_from :: "station \<Rightarrow> turn_input \<Rightarrow> turn_input \<Rightarrow> bool" where
  "hears_from b j i \<longleftrightarrow> steady i \<and> (\<exists>h pkt. ip_header h (s_addr b) \<and> pkt \<in> set (sent (fst (s_turn b j)))
     \<and> got i = Datagram (h @ pkt))"

subsection \<open>One station's turns\<close>

lemma due_turn:
  assumes "contender v a" and "due (s_loop a) i"
  shows "\<exists>acts l. s_turn a i = (acts, Running l) \<and> vr l = vr (s_loop a)
    \<and> ledger True acts = Some True
    \<and> sent acts = [advert_packet (s_params a) (s_addr a) (vr (s_loop a)) (p_priority (s_params a))]"
  using assms
  by (simp add: s_turn_def due_def quiet_def turn_steady receive_def on_timeout_def contender_def is_up_def
      sent_def Let_def)

lemma header_short: "ip_header h src \<Longrightarrow> length h \<le> 60"
proof -
  assume "ip_header h src"
  then have len: "length h = unat (h ! 0 AND 0x0f) * 4" by (simp add: ip_header_def)
  have "h ! 0 AND 0x0f \<le> (0x0f :: u8)" by (rule word_and_le1)
  then have "unat (h ! 0 AND 0x0f :: u8) \<le> 15" by (simp add: word_le_nat_alt)
  then show "length h \<le> 60" by (simp add: len)
qed

lemma advert_received:
  assumes "ip_header h b" and "p_vrid q = p_vrid p"
  shows "parse_advertisement (take 512 (h @ advert_packet q b w prio)) (p_vrid p)
    = Some \<lparr>adv_priority = prio, adv_src = b, adv_interval = advert_interval_centis w AND 0x0fff\<rparr>"
proof -
  have "length (h @ advert_packet q b w prio) \<le> 512"
    using header_short [OF assms(1)] by (simp add: advert_packet_def)
  then show ?thesis
    using parse_encode_advertisement [OF assms(1), of "[p_vip q]" "p_vrid q" prio "advert_interval_centis w" "p_vrid p"]
    by (simp add: advert_packet_def assms(2))
qed

text \<open>A station stays Master under another one's advertisement exactly when that one does not outrank
  it; when it does, the station lets the address go in the same turn.\<close>

lemma hearing_turn:
  assumes "steady i" and "got i = Datagram (h @ advert_packet q b w (p_priority q))" and "ip_header h b"
    and "p_vrid q = p_vrid p" and "p_priority q \<noteq> 0" and "b \<noteq> self" and "priority (vr l) = p_priority p"
  shows "\<exists>acts l'. turn p self l i = (acts, Running l') \<and> priority (vr l') = p_priority p
    \<and> (is_up l' \<longleftrightarrow> is_up l \<and> \<not> (p_priority p, self) < (p_priority q, b))
    \<and> ledger (is_up l) acts = Some (is_up l')"
proof -
  let ?l = "l\<lparr>handle := handle_code (state (vr l))\<rparr>"
  obtain acts r where d: "on_datagram p self ?l (woke_at i) (h @ advert_packet q b w (p_priority q)) = (acts, r)"
    by (rule prod.exhaust)
  obtain l' where r: "r = Running l'" and led: "ledger (is_up ?l) acts = Some (is_up l')"
    using ledger_on_datagram [OF d] by blast
  have "priority (vr l') = p_priority p \<and> (is_up l' \<longleftrightarrow> is_up l \<and> \<not> (p_priority p, self) < (p_priority q, b))"
    using d assms(5-7) unfolding r on_datagram_def advert_received [OF assms(3,4)]
    by (auto simp: on_advertisement_def Let_def is_up_def split: state.splits if_splits)
  moreover have "turn p self l i = (SetTimeout (wait_time l (waits_at i)) # acts, Running l')"
    using assms(1,2) d r by (simp add: turn_steady receive_def Let_def)
  ultimately show ?thesis using led by (simp add: is_up_def)
qed

lemma hearing_run:
  assumes "\<forall>(b, i) \<in> set heard. s_addr b \<noteq> self \<and> contender (p_vrid p) b \<and> due (s_loop b) (first b)
      \<and> hears_from b (first b) i"
    and "priority (vr l) = p_priority p"
  shows "\<exists>acts l'. run_turns p self l (map snd heard) = (acts, Running l')
    \<and> (is_up l' \<longleftrightarrow> is_up l \<and> (\<forall>b \<in> fst ` set heard. \<not> (p_priority p, self) < standing b))
    \<and> ledger (is_up l) acts = Some (is_up l')"
  using assms
proof (induction heard arbitrary: l)
  case (Cons x heard)
  obtain b i where x: "x = (b, i)" by (rule prod.exhaust)
  have b: "s_addr b \<noteq> self" "contender (p_vrid p) b" "due (s_loop b) (first b)" "hears_from b (first b) i"
    using Cons.prems(1) by (auto simp: x)
  obtain h where got: "steady i" "ip_header h (s_addr b)"
    "got i = Datagram (h @ advert_packet (s_params b) (s_addr b) (vr (s_loop b)) (p_priority (s_params b)))"
    using b(4) due_turn [OF b(2,3)] by (auto simp: hears_from_def)
  have q: "p_vrid (s_params b) = p_vrid p" "p_priority (s_params b) \<noteq> 0"
    using b(2) by (simp_all add: contender_def)
  from hearing_turn [OF got(1,3,2) q b(1) Cons.prems(2)] obtain acts1 l1 where
    one: "turn p self l i = (acts1, Running l1)" "priority (vr l1) = p_priority p"
    "is_up l1 \<longleftrightarrow> is_up l \<and> \<not> (p_priority p, self) < standing b" "ledger (is_up l) acts1 = Some (is_up l1)"
    unfolding standing_def by blast
  have "\<forall>(b, i) \<in> set heard. s_addr b \<noteq> self \<and> contender (p_vrid p) b \<and> due (s_loop b) (first b)
      \<and> hears_from b (first b) i"
    using Cons.prems(1) by simp
  from Cons.IH [OF this one(2)] obtain acts2 l2 where
    "run_turns p self l1 (map snd heard) = (acts2, Running l2)"
    "is_up l2 \<longleftrightarrow> is_up l1 \<and> (\<forall>b \<in> fst ` set heard. \<not> (p_priority p, self) < standing b)"
    "ledger (is_up l1) acts2 = Some (is_up l2)" by blast
  with one show ?case by (auto simp: x ledger_append)
qed simp

subsection \<open>A round of the network\<close>

text \<open>What the stations do in a round: each one's advertisement is due, and then it receives, in any order
  and perhaps repeatedly, what all the others sent.\<close>

definition advert_round ::
  "u8 \<Rightarrow> station list \<Rightarrow> (station \<Rightarrow> turn_input) \<Rightarrow> (station \<Rightarrow> (station \<times> turn_input) list) \<Rightarrow> bool" where
  "advert_round v nodes first heard \<longleftrightarrow>
     distinct (map s_addr nodes) \<and> list_all (\<lambda>a. contender v a \<and> due (s_loop a) (first a)) nodes
     \<and> list_all (\<lambda>a. fst ` set (heard a) = set nodes - {a}
          \<and> list_all (\<lambda>(b, i). hears_from b (first b) i) (heard a)) nodes"

lemma station_round:
  assumes round: "advert_round v nodes first heard" and a: "a \<in> set nodes"
  shows "\<exists>acts l. s_run a (first a # map snd (heard a)) = (acts, Running l)
    \<and> (is_up l \<longleftrightarrow> (\<forall>b \<in> set nodes. standing b \<le> standing a)) \<and> ledger True acts = Some (is_up l)"
proof -
  have a_ok: "contender v a" "due (s_loop a) (first a)" "fst ` set (heard a) = set nodes - {a}"
    using round a by (auto simp: advert_round_def list_all_iff)
  obtain acts1 l1 where one: "s_turn a (first a) = (acts1, Running l1)" "vr l1 = vr (s_loop a)"
    "ledger True acts1 = Some True"
    using due_turn [OF a_ok(1,2)] by blast
  have "\<forall>(b, i) \<in> set (heard a). s_addr b \<noteq> s_addr a \<and> contender (p_vrid (s_params a)) b
      \<and> due (s_loop b) (first b) \<and> hears_from b (first b) i"
  proof clarify
    fix b i assume bi: "(b, i) \<in> set (heard a)"
    then have "b \<in> set nodes" "b \<noteq> a" using a_ok(3) by force+
    moreover from this have "s_addr b \<noteq> s_addr a"
      using round a by (auto simp: advert_round_def distinct_map inj_on_def)
    ultimately show "s_addr b \<noteq> s_addr a \<and> contender (p_vrid (s_params a)) b
        \<and> due (s_loop b) (first b) \<and> hears_from b (first b) i"
      using round a bi a_ok(1) by (auto simp: advert_round_def list_all_iff contender_def)
  qed
  moreover have "priority (vr l1) = p_priority (s_params a)" and up: "is_up l1"
    using a_ok(1) one(2) by (simp_all add: contender_def is_up_def)
  ultimately obtain acts2 l2 where two:
    "run_turns (s_params a) (s_addr a) l1 (map snd (heard a)) = (acts2, Running l2)"
    "is_up l2 \<longleftrightarrow> is_up l1 \<and> (\<forall>b \<in> fst ` set (heard a). \<not> standing a < standing b)"
    "ledger (is_up l1) acts2 = Some (is_up l2)"
    using hearing_run unfolding standing_def by blast
  have "is_up l2 \<longleftrightarrow> (\<forall>b \<in> set nodes. standing b \<le> standing a)"
    unfolding two(2) a_ok(3) using up by (auto simp: not_less)
  then show ?thesis
    using one two up by (simp add: s_run_def s_turn_def ledger_append)
qed

text \<open>C10: A split brain ends with one holder of the address.  Any number of nodes with different addresses
  hold the same VIP as Masters of one virtual router, each advertises, and each then receives what all the
  others really sent, in any order: after that round the node with the highest priority (the highest address
  among equals) still holds the VIP, and every other one has released it and is Backup.\<close>

theorem one_holder_remains:
  assumes "nodes \<noteq> []" and "advert_round v nodes first heard"
  shows "\<exists>w \<in> set nodes. \<forall>a \<in> set nodes. standing a \<le> standing w
    \<and> (\<exists>acts l. s_run a (first a # map snd (heard a)) = (acts, Running l)
         \<and> is_up l = (a = w) \<and> ledger True acts = Some (a = w))"
proof -
  have inj: "inj_on standing (set nodes)"
    using assms(2) by (auto simp: advert_round_def inj_on_def standing_def distinct_map)
  have "Max (standing ` set nodes) \<in> standing ` set nodes" using assms(1) by (intro Max_in) auto
  then obtain w where w: "w \<in> set nodes" "standing w = Max (standing ` set nodes)" by force
  then have top: "\<forall>a \<in> set nodes. standing a \<le> standing w" by simp
  have "(\<forall>b \<in> set nodes. standing b \<le> standing a) \<longleftrightarrow> a = w" if "a \<in> set nodes" for a
    using top w(1) that inj by (metis inj_onD order_antisym)
  then show ?thesis
    using station_round [OF assms(2)] top w(1) by (intro bexI [of _ w]) fastforce+
qed

definition demo_station :: "u8 \<Rightarrow> u8 \<Rightarrow> station" where
  "demo_station host prio = \<lparr>s_params = demo_params\<lparr>p_priority := prio\<rparr>, s_addr = Ipv4 192 168 8 host,
     s_loop = demo_loop ((vr_new 51 prio True 1)\<lparr>state := Master\<rparr>)\<rparr>"

definition demo_stations :: "station list" where
  "demo_stations = [demo_station 10 100, demo_station 20 100, demo_station 30 50]"

definition demo_hears :: "station \<Rightarrow> turn_input \<Rightarrow> turn_input" where
  "demo_hears b j = demo_turn (Datagram (concat
     (([0x45, 0, 0, 32, 0, 0, 0, 0, 255, 112, 0, 0] @ octets (s_addr b) @ [224, 0, 0, 18])
       # sent (fst (s_turn b j))))) 0"

lemma demo_station [simp]:
  "s_addr (demo_station h n) = Ipv4 192 168 8 h" "p_priority (s_params (demo_station h n)) = n"
  by (simp_all add: demo_station_def)

lemma contender_demo: "n \<noteq> 0 \<Longrightarrow> contender 51 (demo_station h n)"
  by (simp add: contender_def demo_station_def demo_loop_def demo_params_def is_up_def vr_new_def Let_def)

lemma due_demo: "due (s_loop (demo_station h n)) (demo_turn WouldBlock 0)"
  by (simp add: due_def quiet_def steady_def demo_turn_def demo_station_def demo_loop_def)

lemma hears_demo:
  assumes "sent (fst (s_turn b j)) = [pkt]"
  shows "hears_from b j (demo_hears b j)"
proof -
  let ?h = "[0x45, 0, 0, 32, 0, 0, 0, 0, 255, 112, 0, 0] @ octets (s_addr b) @ [224, 0, 0, 18] :: bytes"
  have "ip_header ?h (s_addr b)" by (cases "s_addr b") (simp add: ip_header_def)
  then show ?thesis
    using assms unfolding hears_from_def
    by (intro conjI exI [of _ ?h] exI [of _ pkt]) (simp_all add: steady_def demo_turn_def demo_hears_def)
qed

lemma one_holder_remains_witness:
  "\<exists>w \<in> set demo_stations. \<forall>a \<in> set demo_stations. \<exists>acts l.
     s_run a (demo_turn WouldBlock 0
         # map (\<lambda>b. demo_hears b (demo_turn WouldBlock 0)) (filter (\<lambda>b. b \<noteq> a) demo_stations)) = (acts, Running l)
     \<and> is_up l = (a = w) \<and> ledger True acts = Some (a = w)"
proof -
  let ?first = "\<lambda>_ :: station. demo_turn WouldBlock 0"
  let ?heard = "\<lambda>a. map (\<lambda>b. (b, demo_hears b (?first b))) (filter (\<lambda>b. b \<noteq> a) demo_stations)"
  have hears: "hears_from b (?first b) (demo_hears b (?first b))" if "b \<in> set demo_stations" for b
  proof -
    have "contender 51 b" "due (s_loop b) (?first b)"
      using that by (auto simp: demo_stations_def contender_demo due_demo)
    from due_turn [OF this] show ?thesis by (auto intro!: hears_demo)
  qed
  have "advert_round 51 demo_stations ?first ?heard"
    unfolding advert_round_def
  proof (intro conjI)
    show "list_all (\<lambda>a. fst ` set (?heard a) = set demo_stations - {a}
        \<and> list_all (\<lambda>(b, i). hears_from b (?first b) i) (?heard a)) demo_stations"
      using hears by (auto simp: list_all_iff image_iff)
  qed (simp_all add: demo_stations_def contender_demo due_demo)
  moreover have "demo_stations \<noteq> []" by (simp add: demo_stations_def)
  ultimately show ?thesis
    using one_holder_remains [of demo_stations 51 ?first ?heard] by (simp add: comp_def) blast
qed

subsection \<open>A Master that leaves\<close>

text \<open>A Backup that hears a resignation has claimed the address one skew time later.\<close>

lemma resignation_heard:
  assumes "p_vrid p = p_vrid (s_params b)" and "state (vr (s_loop b)) = Backup" and "s_addr b \<noteq> src"
    and "steady j" and "ip_header h src" and "got j = Datagram (h @ advert_packet p src v 0)"
    and "\<forall>k \<in> set rest. quiet k"
    and "\<exists>k \<in> set rest. woke_at j + centis (skew_centis (vr (s_loop b))) \<le> woke_at k"
  shows "\<exists>acts l. s_run b (j # rest) = (acts, Running l) \<and> is_up l \<and> Claim \<in> set acts"
proof -
  let ?l = "(s_loop b)\<lparr>handle := handle_code (state (vr (s_loop b))),
      master_down_deadline := woke_at j + centis (skew_centis (vr (s_loop b)))\<rparr>"
  have "s_turn b j = ([SetTimeout (wait_time (s_loop b) (waits_at j))], Running ?l)"
    using assms(2,3) advert_received [OF assms(5,1)]
    by (simp add: s_turn_def turn_steady [OF assms(4)] receive_def assms(6) on_datagram_def on_advertisement_def Let_def)
  moreover obtain acts l where "run_turns (s_params b) (s_addr b) ?l rest = (acts, Running l)"
    "is_up l" "Claim \<in> set acts"
    using quiet_takeover [of rest ?l "s_params b" "s_addr b"] assms(2,7,8) by auto
  ultimately show ?thesis by (auto simp: s_run_def s_turn_def)
qed

text \<open>A stopped Master hands its address over.  A node that is stopped while it is Master releases the
  address and is done in that turn; a Backup that hears what it sent in that turn, and nothing after it, has
  claimed the address as soon as a turn wakes its own skew time later, which is at most one advertisement
  interval, instead of the three intervals and the skew it waits for a Master that died.\<close>

theorem resignation_hands_over:
  assumes "contender v a" and "stop_seen i" and "state (vr (s_loop b)) = Backup" and "p_vrid (s_params b) = v"
    and "s_addr b \<noteq> s_addr a" and "hears_from a i j" and "\<forall>k \<in> set rest. quiet k"
    and "\<exists>k \<in> set rest. woke_at j + centis (skew_centis (vr (s_loop b))) \<le> woke_at k"
  shows "\<exists>acts acts' l. s_turn a i = (acts, Stopped) \<and> ledger True acts = Some False
    \<and> s_run b (j # rest) = (acts', Running l) \<and> is_up l \<and> Claim \<in> set acts'
    \<and> unat (skew_centis (vr (s_loop b))) \<le> unat (master_adver_interval_centis (vr (s_loop b)))"
proof -
  let ?pkt = "advert_packet (s_params a) (s_addr a) (vr (s_loop a)) 0"
  have stop: "s_turn a i = ([Send ?pkt, Release], Stopped)"
    using assms(1,2) by (simp add: s_turn_def turn_def contender_def is_up_def)
  then obtain h where j: "steady j" "ip_header h (s_addr a)" "got j = Datagram (h @ ?pkt)"
    using assms(6) by (auto simp: hears_from_def sent_def)
  have q: "p_vrid (s_params a) = p_vrid (s_params b)" using assms(1,4) by (simp add: contender_def)
  show ?thesis
    using stop resignation_heard [OF q assms(3,5) j assms(7,8)] skew_le_interval by auto
qed

lemma resignation_hands_over_witness:
  "\<exists>acts l. s_run ((demo_station 20 50)\<lparr>s_loop := demo_loop (demo_router Backup)\<rparr>)
       [demo_hears (demo_station 10 100) ((demo_turn WouldBlock 0)\<lparr>stop_seen := True\<rparr>),
        demo_turn WouldBlock 2000000000] = (acts, Running l)
     \<and> is_up l \<and> Claim \<in> set acts"
proof -
  let ?a = "demo_station 10 100" and ?b = "(demo_station 20 50)\<lparr>s_loop := demo_loop (demo_router Backup)\<rparr>"
  let ?i = "(demo_turn WouldBlock 0)\<lparr>stop_seen := True\<rparr>" and ?k = "demo_turn WouldBlock 2000000000"
  have "s_turn ?a ?i = ([Send (advert_packet (s_params ?a) (s_addr ?a) (vr (s_loop ?a)) 0), Release], Stopped)"
    using contender_demo [of 100 10] by (simp add: s_turn_def turn_def contender_def is_up_def)
  then have j: "hears_from ?a ?i (demo_hears ?a ?i)" by (intro hears_demo) (simp add: sent_def)
  have a: "contender 51 ?a" by (simp add: contender_demo)
  have i: "stop_seen ?i" and b: "state (vr (s_loop ?b)) = Backup"
    "p_vrid (s_params ?b) = 51" "s_addr ?b \<noteq> s_addr ?a"
    by (simp_all add: demo_loop_def demo_station_def demo_params_def)
  have quiet: "\<forall>k \<in> set [?k]. quiet k" by (simp add: quiet_def steady_def demo_turn_def)
  have "unat (skew_centis (vr (s_loop ?b))) \<le> 100"
    using skew_le_interval [of "vr (s_loop ?b)"] by (simp add: demo_loop_def demo_router_def vr_new_def Let_def)
  then have "\<exists>k \<in> set [?k]. woke_at (demo_hears ?a ?i) + centis (skew_centis (vr (s_loop ?b))) \<le> woke_at k"
    by (simp add: demo_hears_def demo_turn_def centis_def millis_def)
  from resignation_hands_over [OF a i b j quiet this] show ?thesis by blast
qed

end
