(* ===== verification/Bgp_Wire.thy ===== *)
theory Bgp_Wire
  imports Interfaces
begin

text \<open>
  \<open>src/bgp.rs\<close>, the wire side of the BGP speaker: the message encoders, the reader that takes
  whole messages off the socket, and the check of the peer's OPEN.

  The socket's input is the list of bytes the peer sent before it closed; a read that the list
  cannot fill is the failure \<open>read_exact\<close> reports then.
\<close>

subsection \<open>Constants\<close>

definition HOLD_TIME :: u16 where "HOLD_TIME = 180"

definition OPEN :: u8 where "OPEN = 1"
definition UPDATE :: u8 where "UPDATE = 2"
definition NOTIFICATION :: u8 where "NOTIFICATION = 3"
definition KEEPALIVE :: u8 where "KEEPALIVE = 4"

definition ERR_HEADER :: u8 where "ERR_HEADER = 1"
definition ERR_OPEN :: u8 where "ERR_OPEN = 2"
definition ERR_OPEN_VERSION :: u8 where "ERR_OPEN_VERSION = 1"
definition ERR_OPEN_PEER_AS :: u8 where "ERR_OPEN_PEER_AS = 2"
definition ERR_OPEN_HOLD :: u8 where "ERR_OPEN_HOLD = 6"
definition ERR_HOLD_EXPIRED :: u8 where "ERR_HOLD_EXPIRED = 4"
definition ERR_FSM :: u8 where "ERR_FSM = 5"

lemmas bgp_types = OPEN_def UPDATE_def NOTIFICATION_def KEEPALIVE_def

subsection \<open>Encoders\<close>

definition message :: "u8 \<Rightarrow> bytes \<Rightarrow> bytes" where
  "message msg_type body =
     replicate 16 0xff @ be16 (word_of_nat (19 + length body)) @ [msg_type] @ body"

definition open_body :: "u16 \<Rightarrow> u16 \<Rightarrow> ipv4 \<Rightarrow> bytes" where
  "open_body local_asn hold bgp_id = [4] @ be16 local_asn @ be16 hold @ octets bgp_id @ [0]"

definition open_msg :: "u16 \<Rightarrow> u16 \<Rightarrow> ipv4 \<Rightarrow> bytes" where
  "open_msg local_asn hold bgp_id = message OPEN (open_body local_asn hold bgp_id)"

definition keepalive_msg :: bytes where
  "keepalive_msg = message KEEPALIVE []"

definition notification_msg :: "u8 \<Rightarrow> u8 \<Rightarrow> bytes" where
  "notification_msg code sub = message NOTIFICATION [code, sub]"

definition encode_prefix :: "ipv4 \<Rightarrow> u8 \<Rightarrow> bytes" where
  "encode_prefix prefix prefix_len =
     prefix_len # take ((unat prefix_len + 7) div 8) (octets prefix)"

definition announce_attrs :: "u16 \<Rightarrow> ipv4 \<Rightarrow> bytes" where
  "announce_attrs local_asn next_hop =
     [0x40, 1, 1, 0] @ [0x40, 2, 4, 2, 1] @ be16 local_asn @ [0x40, 3, 4] @ octets next_hop"

definition announce_body :: "u16 \<Rightarrow> ipv4 \<Rightarrow> ipv4 \<Rightarrow> u8 \<Rightarrow> bytes" where
  "announce_body local_asn next_hop prefix prefix_len =
     be16 0 @ be16 (word_of_nat (length (announce_attrs local_asn next_hop)))
       @ announce_attrs local_asn next_hop @ encode_prefix prefix prefix_len"

definition update_announce :: "u16 \<Rightarrow> ipv4 \<Rightarrow> ipv4 \<Rightarrow> u8 \<Rightarrow> bytes" where
  "update_announce local_asn next_hop prefix prefix_len =
     message UPDATE (announce_body local_asn next_hop prefix prefix_len)"

definition withdraw_body :: "ipv4 \<Rightarrow> u8 \<Rightarrow> bytes" where
  "withdraw_body prefix prefix_len =
     be16 (word_of_nat (length (encode_prefix prefix prefix_len)))
       @ encode_prefix prefix prefix_len @ be16 0"

definition update_withdraw :: "ipv4 \<Rightarrow> u8 \<Rightarrow> bytes" where
  "update_withdraw prefix prefix_len = message UPDATE (withdraw_body prefix prefix_len)"

subsection \<open>The reader\<close>

type_synonym msg = "u8 \<times> bytes"

datatype read_error = PeerClosed | BadMarker | BadLength nat | ShortRead

definition read_exact :: "'e \<Rightarrow> nat \<Rightarrow> bytes \<Rightarrow> ('e, bytes \<times> bytes) result" where
  "read_exact e n bs = (if length bs < n then Inl e else Inr (take n bs, drop n bs))"

definition read_msg :: "bytes \<Rightarrow> (read_error, msg \<times> bytes) result" where
  "read_msg bs =
     rbind (read_exact PeerClosed 19 bs) (\<lambda>(hdr, bs1).
     rbind (ensure (take 16 hdr = replicate 16 0xff) BadMarker) (\<lambda>_.
     let len = unat (of_be16 (hdr ! 16) (hdr ! 17)) in
     rbind (ensure (19 \<le> len \<and> len \<le> 4096) (BadLength len)) (\<lambda>_.
     rbind (read_exact ShortRead (len - 19) bs1) (\<lambda>(body, bs2).
     Inr ((hdr ! 18, body), bs2)))))"

lemma read_exact_Inr:
  "read_exact e n bs = Inr (a, b) \<longleftrightarrow> n \<le> length bs \<and> a = take n bs \<and> b = drop n bs"
  by (auto simp: read_exact_def)

lemma read_msg_shrinks: "read_msg bs = Inr (m, rest) \<Longrightarrow> length rest < length bs"
  by (auto simp: read_msg_def rbind_eq_Inr read_exact_Inr Let_def)

text \<open>\<open>spawn_reader\<close>: the channel's contents, every message in order and the error that ended it.\<close>

function reader :: "bytes \<Rightarrow> (read_error, msg) result list" where
  "reader bs =
     (case read_msg bs of
        Inl e \<Rightarrow> [Inl e]
      | Inr (m, rest) \<Rightarrow> Inr m # reader rest)"
  by pat_completeness auto
termination
  by (relation "measure length") (auto dest: read_msg_shrinks)

declare reader.simps [simp del]

subsection \<open>The check of the peer's OPEN\<close>

definition check_open :: "bytes \<Rightarrow> u32 \<Rightarrow> (u8 \<times> u8 \<times> string, u16) result" where
  "check_open body want_asn =
     (if length body < 10
      then Inl (ERR_OPEN, 0, ''OPEN body of '' @ dec (length body) @ '' bytes'')
      else if body ! 0 \<noteq> 4
      then Inl (ERR_OPEN, ERR_OPEN_VERSION, ''BGP version '' @ dec (unat (body ! 0)))
      else (let asn = ucast (of_be16 (body ! 1) (body ! 2)) :: u32 in
        if asn \<noteq> want_asn
        then Inl (ERR_OPEN, ERR_OPEN_PEER_AS,
                  ''peer AS'' @ dec (unat asn) @ '', configured AS'' @ dec (unat want_asn))
        else (let hold = of_be16 (body ! 3) (body ! 4) in
          if hold = 1 \<or> hold = 2
          then Inl (ERR_OPEN, ERR_OPEN_HOLD, ''hold time '' @ dec (unat hold) @ '' s'')
          else Inr hold)))"

subsection \<open>Framing\<close>

lemma length_message [simp]: "length (message t body) = 19 + length body"
  by (simp add: message_def)

lemma read_msg_message:
  assumes "length body \<le> 4077"
  shows "read_msg (message t body @ rest) = Inr ((t, body), rest)"
proof -
  obtain w :: u16 where w: "w = word_of_nat (19 + length body)" by simp
  then have len: "unat w = 19 + length body"
    using assms unat_word16 [of "19 + length body"] by simp
  let ?hdr = "replicate 16 0xff @ be16 w @ [t]"
  have hdr: "take 19 (message t body @ rest) = ?hdr" and bs1: "drop 19 (message t body @ rest) = body @ rest"
    unfolding message_def w [symmetric] by simp_all
  have "?hdr ! 16 = be16 w ! 0" "?hdr ! 17 = be16 w ! 1" and type: "?hdr ! 18 = t"
    by (simp_all add: nth_append)
  then have at: "unat (of_be16 (?hdr ! 16) (?hdr ! 17)) = 19 + length body"
    using len by (simp only: of_be16_nth)
  have "read_exact PeerClosed 19 (message t body @ rest) = Inr (?hdr, body @ rest)"
    unfolding read_exact_def hdr bs1 by simp
  moreover have "take 16 ?hdr = replicate 16 0xff"
    by simp
  ultimately show ?thesis
    using assms unfolding read_msg_def
    by (simp only: rbind_simps prod.case at type ensure_def Let_def if_True)
      (simp add: read_exact_def)
qed

definition sendable :: "msg \<Rightarrow> bool" where
  "sendable m \<longleftrightarrow> length (snd m) \<le> 4077"

definition wire_message :: "msg \<Rightarrow> bytes" where
  "wire_message m = message (fst m) (snd m)"

lemma reader_message:
  "sendable m \<Longrightarrow> reader (wire_message m @ rest) = Inr m # reader rest"
  by (simp add: sendable_def wire_message_def reader.simps [of "_ @ _"] read_msg_message)

interpretation bgp: framed sendable wire_message reader Inr
  by unfold_locales (rule reader_message)

lemma reader_Nil: "reader [] = [Inl PeerClosed]"
  by (simp add: reader.simps read_msg_def read_exact_def)

subsection \<open>What an RFC 4271 receiver reads\<close>

text \<open>
  The receiving side of section 4.3 of the RFC, which this speaker does not have: withdrawn routes,
  path attributes (flags, type, value; one length byte, two with the extended-length flag) and NLRI.
\<close>

definition prefix_bytes :: "u8 \<Rightarrow> nat" where
  "prefix_bytes n = (unat n + 7) div 8"

function rfc_prefixes :: "bytes \<Rightarrow> (u8 \<times> bytes) list option" where
  "rfc_prefixes bs =
     (case bs of
        [] \<Rightarrow> Some []
      | n # rest \<Rightarrow>
          (if 32 < n \<or> length rest < prefix_bytes n then None
           else map_option (\<lambda>ps. (n, take (prefix_bytes n) rest) # ps)
                  (rfc_prefixes (drop (prefix_bytes n) rest))))"
  by pat_completeness auto
termination by (relation "measure length") auto

declare rfc_prefixes.simps [simp del]

function rfc_attributes :: "bytes \<Rightarrow> (u8 \<times> u8 \<times> bytes) list option" where
  "rfc_attributes bs =
     (case bs of
        [] \<Rightarrow> Some []
      | f # t # rest \<Rightarrow>
          (case (if bit f 4
                 then (case rest of a # b # vs \<Rightarrow> Some (unat (of_be16 a b), vs) | _ \<Rightarrow> None)
                 else (case rest of a # vs \<Rightarrow> Some (unat a, vs) | _ \<Rightarrow> None)) of
             None \<Rightarrow> None
           | Some (n, vs) \<Rightarrow>
               (if length vs < n then None
                else map_option (\<lambda>as. (f, t, take n vs) # as) (rfc_attributes (drop n vs))))
      | _ \<Rightarrow> None)"
  by pat_completeness auto
termination
  by (relation "measure length") (auto split: if_splits list.splits)

declare rfc_attributes.simps [simp del]

definition rfc_block :: "bytes \<Rightarrow> (bytes \<times> bytes) option" where
  "rfc_block bs =
     (case bs of
        a # b # rest \<Rightarrow>
          (let n = unat (of_be16 a b)
           in if length rest < n then None else Some (take n rest, drop n rest))
      | _ \<Rightarrow> None)"

definition rfc_update ::
  "bytes \<Rightarrow> ((u8 \<times> bytes) list \<times> (u8 \<times> u8 \<times> bytes) list \<times> (u8 \<times> bytes) list) option" where
  "rfc_update body =
     (case rfc_block body of
        None \<Rightarrow> None
      | Some (withdrawn, rest) \<Rightarrow>
          (case rfc_block rest of
             None \<Rightarrow> None
           | Some (ats, nlri) \<Rightarrow>
               (case (rfc_prefixes withdrawn, rfc_attributes ats, rfc_prefixes nlri) of
                  (Some w, Some a, Some n) \<Rightarrow> Some (w, a, n)
                | _ \<Rightarrow> None)))"

lemma rfc_block_be16:
  assumes "length xs < 65536"
  shows "rfc_block (be16 (word_of_nat (length xs)) @ xs @ rest) = Some (xs, rest)"
proof -
  have "unat (of_be16 (ucast (drop_bit 8 w)) (ucast w)) = unat w" for w :: u16
    by (simp add: wire)
  then show ?thesis
    using assms unat_word16 [of "length xs"] by (simp add: rfc_block_def be16_def)
qed

lemma rfc_prefixes_encode_prefix:
  assumes "unat n \<le> 32"
  shows "rfc_prefixes (encode_prefix prefix n) = Some [(n, take (prefix_bytes n) (octets prefix))]"
proof -
  have "prefix_bytes n \<le> 4" and "\<not> 32 < n"
    using assms by (simp_all add: prefix_bytes_def word_less_nat_alt)
  then show ?thesis
    by (simp add: encode_prefix_def rfc_prefixes.simps prefix_bytes_def [symmetric])
qed

lemma rfc_prefixes_Nil [simp]: "rfc_prefixes [] = Some []"
  by (simp add: rfc_prefixes.simps)

lemma rfc_attributes_announce:
  "rfc_attributes (announce_attrs local_asn next_hop) =
     Some [(0x40, 1, [0]), (0x40, 2, [2, 1] @ be16 local_asn), (0x40, 3, octets next_hop)]"
proof -
  have "\<not> bit (0x40 :: u8) 4"
    by (simp add: bit_iff_odd)
  then show ?thesis
    by (cases next_hop) (simp add: announce_attrs_def be16_def rfc_attributes.simps)
qed

lemma length_announce [simp]: "length (announce_attrs local_asn next_hop) = 18"
  by (simp add: announce_attrs_def)

lemma length_encode_prefix: "length (encode_prefix prefix n) \<le> 5"
  by (simp add: encode_prefix_def)

lemma rfc_update_announce:
  assumes "unat n \<le> 32"
  shows "rfc_update (announce_body local_asn next_hop prefix n) =
    Some ([], [(0x40, 1, [0]), (0x40, 2, [2, 1] @ be16 local_asn), (0x40, 3, octets next_hop)],
          [(n, take (prefix_bytes n) (octets prefix))])"
proof -
  let ?attrs = "announce_attrs local_asn next_hop"
  have "rfc_block (announce_body local_asn next_hop prefix n) =
      Some ([], be16 (word_of_nat (length ?attrs)) @ ?attrs @ encode_prefix prefix n)"
    using rfc_block_be16 [of "[]"] by (simp add: announce_body_def)
  moreover have "rfc_block (be16 (word_of_nat (length ?attrs)) @ ?attrs @ encode_prefix prefix n) =
      Some (?attrs, encode_prefix prefix n)"
    by (rule rfc_block_be16) simp
  ultimately show ?thesis
    using assms by (simp add: rfc_update_def rfc_attributes_announce rfc_prefixes_encode_prefix)
qed

lemma rfc_update_withdraw:
  assumes "unat n \<le> 32"
  shows "rfc_update (withdraw_body prefix n) =
    Some ([(n, take (prefix_bytes n) (octets prefix))], [], [])"
proof -
  have "length (encode_prefix prefix n) < 65536"
    using length_encode_prefix [of prefix n] by linarith
  then have "rfc_block (withdraw_body prefix n) = Some (encode_prefix prefix n, be16 0)"
    unfolding withdraw_body_def by (rule rfc_block_be16)
  moreover have "rfc_block (be16 0) = Some ([], [])"
    using rfc_block_be16 [of "[]" "[]"] by simp
  ultimately show ?thesis
    using assms by (simp add: rfc_update_def rfc_prefixes_encode_prefix rfc_attributes.simps)
qed

text \<open>The whole messages, as the reader takes them off the stream.\<close>

lemma update_sendable [simp]:
  "sendable (UPDATE, announce_body local_asn next_hop prefix n)"
  "sendable (UPDATE, withdraw_body prefix n)"
  using length_encode_prefix [of prefix n]
  by (simp_all add: sendable_def announce_body_def withdraw_body_def)

lemma open_sendable [simp]:
  "sendable (OPEN, open_body local_asn hold bgp_id)" "sendable (KEEPALIVE, [])"
  "sendable (NOTIFICATION, [code, sub])"
  by (simp_all add: sendable_def open_body_def)

lemmas msg_defs = open_msg_def keepalive_msg_def notification_msg_def update_announce_def
  update_withdraw_def

lemma wire_messages:
  "open_msg local_asn hold bgp_id = wire_message (OPEN, open_body local_asn hold bgp_id)"
  "keepalive_msg = wire_message (KEEPALIVE, [])"
  "notification_msg code sub = wire_message (NOTIFICATION, [code, sub])"
  "update_announce local_asn next_hop prefix n =
     wire_message (UPDATE, announce_body local_asn next_hop prefix n)"
  "update_withdraw prefix n = wire_message (UPDATE, withdraw_body prefix n)"
  by (simp_all add: msg_defs wire_message_def)

lemma check_open_body:
  "check_open (open_body asn hold bgp_id) want =
     (if ucast asn \<noteq> want
      then Inl (ERR_OPEN, ERR_OPEN_PEER_AS,
                ''peer AS'' @ dec (unat asn) @ '', configured AS'' @ dec (unat want))
      else if hold = 1 \<or> hold = 2
      then Inl (ERR_OPEN, ERR_OPEN_HOLD, ''hold time '' @ dec (unat hold) @ '' s'')
      else Inr hold)"
proof -
  have "unat (ucast asn :: u32) = unat asn"
    using u16_less [of asn] by (simp add: unsigned_ucast_eq take_bit_nat_eq_self_iff)
  then show ?thesis
    by (cases bgp_id) (simp add: check_open_def open_body_def be16_def wire Let_def)
qed

lemma check_open_hold: "check_open body want = Inr h \<Longrightarrow> h = 0 \<or> 3 \<le> unat h"
proof -
  assume "check_open body want = Inr h"
  then have "h \<noteq> 1" and "h \<noteq> 2"
    by (auto simp: check_open_def Let_def split: if_splits)
  then have "unat h \<noteq> unat (1 :: u16)" and "unat h \<noteq> unat (2 :: u16)"
    by (simp_all only: word_unat_eq_iff not_False_eq_True)
  then have "unat h \<noteq> 1" and "unat h \<noteq> 2"
    by simp_all
  then have "unat h = 0 \<or> 3 \<le> unat h"
    by linarith
  then show ?thesis
    by (metis unat_eq_zero)
qed

subsection \<open>Properties\<close>

text \<open>C26: The reader takes off the socket exactly the messages that were written to it, whatever their
  types and bodies of up to 4077 bytes, and then reports that the peer closed.\<close>

theorem bgp_stream_roundtrip:
  assumes "\<forall>m \<in> set ms. sendable m"
  shows "reader (concat (map (\<lambda>m. message (fst m) (snd m)) ms)) = map Inr ms @ [Inl PeerClosed]"
  using bgp.units_concat [OF assms, of "[]"] by (simp add: reader_Nil wire_message_def [abs_def])

lemma bgp_stream_roundtrip_witness:
  "reader (message OPEN [1, 2, 3] @ message KEEPALIVE [] @ message NOTIFICATION [4, 0]) =
     [Inr (OPEN, [1, 2, 3]), Inr (KEEPALIVE, []), Inr (NOTIFICATION, [4, 0]), Inl PeerClosed]"
  using bgp_stream_roundtrip [of "[(OPEN, [1, 2, 3]), (KEEPALIVE, []), (NOTIFICATION, [4, 0])]"]
  by (simp add: sendable_def)

text \<open>C33: An UPDATE says what it should to an RFC 4271 receiver, which reads one message whose UPDATE
  body announces exactly the prefix, with ORIGIN IGP, the path of the one AS and the next hop, or
  withdraws exactly the prefix and announces nothing.\<close>

theorem update_means_prefix:
  assumes "unat n \<le> 32"
  shows "(\<exists>body. read_msg (update_announce local_asn next_hop prefix n) = Inr ((UPDATE, body), [])
      \<and> rfc_update body =
          Some ([], [(0x40, 1, [0]), (0x40, 2, [2, 1] @ be16 local_asn), (0x40, 3, octets next_hop)],
                [(n, take (prefix_bytes n) (octets prefix))]))
    \<and> (\<exists>body. read_msg (update_withdraw prefix n) = Inr ((UPDATE, body), [])
      \<and> rfc_update body = Some ([(n, take (prefix_bytes n) (octets prefix))], [], []))"
proof -
  have read: "sendable m \<Longrightarrow> read_msg (wire_message m) = Inr (m, [])" for m
    using read_msg_message [of "snd m" "fst m" "[]"] by (simp add: sendable_def wire_message_def)
  show ?thesis
    unfolding wire_messages using assms by (simp add: read rfc_update_announce rfc_update_withdraw)
qed

lemma update_means_prefix_witness:
  "\<exists>body. read_msg (update_withdraw (Ipv4 192 168 8 50) 32) = Inr ((UPDATE, body), [])
     \<and> rfc_update body = Some ([(32, [192, 168, 8, 50])], [], [])"
  using update_means_prefix [of 32 _ _ "Ipv4 192 168 8 50"] by (simp add: prefix_bytes_def)

end
