(* ===== verification/Config.thy ===== *)
theory Config
  imports Net
begin

text \<open>
  \<open>src/config.rs\<close>: the configuration as records with the source's fields, and the defaults that
  the components rely on.  How a document is decoded into these records is in \<open>Config_Load\<close>.
\<close>

subsection \<open>Health\<close>

datatype health_mode = Tcp | Http | Https

record health_spec =
  mode :: health_mode
  path :: string
  interval_secs :: u64
  timeout_secs :: u64
  expect_status :: "u16 list"
  ca_file :: "string option"

definition default_path :: string where "default_path = ''/readyz''"
definition default_interval :: u64 where "default_interval = 2"
definition default_timeout :: u64 where "default_timeout = 2"
definition default_expect :: "u16 list" where "default_expect = [200]"

definition health_default :: health_spec where
  "health_default = \<lparr>mode = Tcp, path = default_path, interval_secs = default_interval,
     timeout_secs = default_timeout, expect_status = default_expect, ca_file = None\<rparr>"

subsection \<open>The VIP of the config file, its VRRP and its BGP settings\<close>

record vip_cfg =
  vip_address :: string
  vip_port :: u16
  vip_bind :: string

record backend_cfg =
  backend_address :: string
  backend_port :: u16

record vrrp_cfg =
  vrrp_enabled :: bool
  vrrp_interface :: string
  vrrp_vrid :: u8
  vrrp_priority :: u8
  vrrp_preempt :: bool
  vrrp_advert_interval_secs :: u64

record bgp_peer =
  peer_address :: string
  peer_asn :: u32
  peer_port :: u16

record bgp_cfg =
  bgp_enabled :: bool
  local_asn :: u32
  router_id :: string
  peers :: "bgp_peer list"

subsection \<open>The router's, with its TLS, and the metrics'\<close>

text \<open>\<open>src/tls.rs\<close>, \<open>src/router.rs\<close> and \<open>src/metrics.rs\<close> declare these.\<close>

record cert_pair =
  cert_file :: string
  key_file :: string

record tls_cfg =
  tls_listen :: string
  tls_certs :: "cert_pair list"
  tls_redirect :: bool
  tls_reload_secs :: u64

record router_cfg =
  router_listen :: string
  apiserver :: string
  poll_secs :: u64
  insecure :: bool
  api_ca_file :: "string option"
  token_file :: "string option"
  router_tls :: "tls_cfg option"
  backend_ca_file :: "string option"

record metrics_cfg =
  metrics_listen :: string

subsection \<open>The API's, and the whole file\<close>

record api_cfg =
  api_listen :: string
  api_token_file :: "string option"
  api_state_file :: "string option"

record config =
  cfg_vip :: "vip_cfg option"
  cfg_backends :: "backend_cfg list"
  cfg_health :: health_spec
  cfg_vrrp :: vrrp_cfg
  cfg_bgp :: bgp_cfg
  cfg_router :: "router_cfg option"
  cfg_api :: "api_cfg option"
  cfg_metrics :: "metrics_cfg option"

end
