(* ===== verification/Bgp_Session.thy ===== *)
theory Bgp_Session
  imports Bgp_Wire Config
begin

text \<open>
  \<open>src/bgp.rs\<close>, the session with one peer: the handshake and the \<open>select!\<close> loop of the
  Established session, with its keepalive ticker, its hold timer and the health watch that makes it
  announce or withdraw the VIP; and what \<open>spawn\<close> and \<open>preflight\<close> make of the configuration.

  A session is a state and the arms of its waits are events: what arrived from the reader, a timer
  that ran out, a tick, a change of the watched health.  \<open>enabled\<close> says when an arm can be chosen,
  \<open>session_step\<close> what its handler does: the messages written and the next state, or why the session ended.
\<close>

subsection \<open>Peers\<close>

record peer =
  bgp_ip :: ipv4
  bgp_port :: u16
  bgp_asn :: u32

definition peer_of :: "bgp_peer \<Rightarrow> peer option" where
  "peer_of p =
     map_option (\<lambda>a. \<lparr>bgp_ip = a, bgp_port = peer_port p, bgp_asn = peer_asn p\<rparr>) (parse_ipv4 (peer_address p))"

text \<open>\<open>spawn\<close>: the BGP identifier and the peers that get a session.\<close>

definition spawn :: "bgp_cfg \<Rightarrow> ipv4 \<Rightarrow> ipv4 \<times> peer list" where
  "spawn cfg next_hop =
     ((case parse_ipv4 (router_id cfg) of Some i \<Rightarrow> i | None \<Rightarrow> next_hop),
      List.map_filter peer_of (peers cfg))"

definition preflight :: "bgp_cfg \<Rightarrow> (string, ipv4) result" where
  "preflight cfg =
     (if local_asn cfg = 0 \<or> 65535 < local_asn cfg
      then Inl ''bgp.local_asn must be a 2-byte private ASN (1..65535) for now''
      else if peers cfg = [] then Inl ''bgp.enabled but no peers configured''
      else (case parse_ipv4 (router_id cfg) of
              None \<Rightarrow> Inl ''bgp.router_id must be this node's IPv4 (used as next-hop)''
            | Some i \<Rightarrow> Inr i))"

subsection \<open>State, events and ends\<close>

text \<open>Time is in nanoseconds.\<close>

definition secs :: "nat \<Rightarrow> nat" where
  "secs n = n * 1000000000"

definition OPEN_WAIT :: nat where "OPEN_WAIT = secs 240"
definition far :: nat where "far = secs (365 * 24 * 3600)"

record session_cfg =
  to_peer :: peer
  my_asn :: u32
  bgp_id :: ipv4
  next_hop :: ipv4
  bgp_vip :: ipv4

datatype phase = OpenSent | OpenConfirm u16 | Established u16

text \<open>
  \<open>advertise\<close> and \<open>unseen\<close> are the watched health and whether a change of it waits to be seen;
  \<open>deadline\<close> is the time-out of the handshake's wait, then \<open>hold_deadline\<close>.
\<close>

record session =
  phase :: phase
  deadline :: nat
  next_tick :: nat
  announced :: bool
  advertise :: bool
  unseen :: bool

datatype ended =
  ReadFailed read_error | WriteFailed | HealthGone | PeerNotified "bytes option" | Notified u8 u8 string

datatype event =
  Incoming "(read_error, msg) result" | TimerRan | TickRan | HealthSet bool | HealthSeen | HealthClosed

record input =
  event :: event
  at_time :: nat
  writes :: bool

type_synonym reaction = "bytes list \<times> (ended, session) result"

subsection \<open>The handlers\<close>

text \<open>\<open>w.write_all(m).await?\<close> and \<open>notify\<close>.\<close>

definition write_then :: "bool \<Rightarrow> bytes \<Rightarrow> session \<Rightarrow> reaction" where
  "write_then w m s = (if w then ([m], Inr s) else ([], Inl WriteFailed))"

definition notify :: "bool \<Rightarrow> u8 \<Rightarrow> u8 \<Rightarrow> string \<Rightarrow> reaction" where
  "notify w code sub why =
     (if w then [notification_msg code sub] else [], Inl (Notified code sub why))"

definition peer_notified :: "bytes \<Rightarrow> reaction" where
  "peer_notified body = ([], Inl (PeerNotified (if length body < 2 then None else Some (take 2 body))))"

definition on_open_sent :: "session_cfg \<Rightarrow> session \<Rightarrow> nat \<Rightarrow> bool \<Rightarrow> msg \<Rightarrow> reaction" where
  "on_open_sent c s now w m =
     (case m of (t, body) \<Rightarrow>
        if t = OPEN
        then (case check_open body (bgp_asn (to_peer c)) of
                Inl (code, sub, why) \<Rightarrow> notify w code sub (''refused the peer's OPEN: '' @ why)
              | Inr peer_hold \<Rightarrow>
                  (let hold = min HOLD_TIME peer_hold
                   in write_then w keepalive_msg
                        (s\<lparr>phase := OpenConfirm hold,
                           deadline := now + (if hold = 0 then OPEN_WAIT else secs (unat hold))\<rparr>)))
        else if t = NOTIFICATION then peer_notified body
        else notify w ERR_FSM 0 (''message type '' @ dec (unat t) @ '' before OPEN''))"

definition tick_period :: "u16 \<Rightarrow> nat" where
  "tick_period hold = (if hold = 0 then far else secs (unat hold) div 3)"

definition on_open_confirm :: "session \<Rightarrow> u16 \<Rightarrow> nat \<Rightarrow> bool \<Rightarrow> msg \<Rightarrow> reaction" where
  "on_open_confirm s hold now w m =
     (case m of (t, body) \<Rightarrow>
        if t = KEEPALIVE
        then ([], Inr (s\<lparr>phase := Established hold, next_tick := now + tick_period hold,
                        deadline := now + (if hold = 0 then far else secs (unat hold)),
                        announced := False, unseen := True\<rparr>))
        else if t = NOTIFICATION then peer_notified body
        else notify w ERR_FSM 0 (''message type '' @ dec (unat t) @ '' in OpenConfirm''))"

definition on_established :: "session \<Rightarrow> u16 \<Rightarrow> nat \<Rightarrow> bool \<Rightarrow> msg \<Rightarrow> reaction" where
  "on_established s hold now w m =
     (case m of (t, body) \<Rightarrow>
        let s' = (if hold \<noteq> 0 then s\<lparr>deadline := now + secs (unat hold)\<rparr> else s)
        in if t = KEEPALIVE \<or> t = UPDATE then ([], Inr s')
           else if t = NOTIFICATION then peer_notified body
           else if t = OPEN then notify w ERR_FSM 0 ''OPEN while Established''
           else notify w ERR_HEADER 3 (''message type '' @ dec (unat t)))"

definition on_health_seen :: "session_cfg \<Rightarrow> session \<Rightarrow> bool \<Rightarrow> reaction" where
  "on_health_seen c s w =
     (let want = advertise s; s' = s\<lparr>unseen := False\<rparr>
      in if want \<and> \<not> announced s
         then write_then w (update_announce (ucast (my_asn c)) (next_hop c) (bgp_vip c) 32)
                (s'\<lparr>announced := True\<rparr>)
         else if \<not> want \<and> announced s
         then write_then w (update_withdraw (bgp_vip c) 32) (s'\<lparr>announced := False\<rparr>)
         else ([], Inr s'))"

definition on_timer :: "session \<Rightarrow> bool \<Rightarrow> reaction" where
  "on_timer s w =
     notify w ERR_HOLD_EXPIRED 0
       (case phase s of
          OpenSent \<Rightarrow> ''no OPEN from the peer''
        | OpenConfirm _ \<Rightarrow> ''no KEEPALIVE after OPEN''
        | Established hold \<Rightarrow>
            ''nothing from the peer for '' @ dec (unat hold) @ '' s (hold timer)'')"

definition on_message :: "session_cfg \<Rightarrow> session \<Rightarrow> nat \<Rightarrow> bool \<Rightarrow> msg \<Rightarrow> reaction" where
  "on_message c s now w m =
     (case phase s of
        OpenSent \<Rightarrow> on_open_sent c s now w m
      | OpenConfirm hold \<Rightarrow> on_open_confirm s hold now w m
      | Established hold \<Rightarrow> on_established s hold now w m)"

definition established :: "session \<Rightarrow> bool" where
  "established s = (case phase s of Established _ \<Rightarrow> True | _ \<Rightarrow> False)"

definition hold_of :: "phase \<Rightarrow> u16" where
  "hold_of p = (case p of OpenSent \<Rightarrow> 0 | OpenConfirm h \<Rightarrow> h | Established h \<Rightarrow> h)"

definition session_step :: "session_cfg \<Rightarrow> session \<Rightarrow> input \<Rightarrow> reaction" where
  "session_step c s i =
     (case event i of
        Incoming (Inl e) \<Rightarrow> ([], Inl (ReadFailed e))
      | Incoming (Inr m) \<Rightarrow> on_message c s (at_time i) (writes i) m
      | TimerRan \<Rightarrow> on_timer s (writes i)
      | TickRan \<Rightarrow>
          write_then (writes i) keepalive_msg
            (s\<lparr>next_tick := next_tick s + tick_period (hold_of (phase s))\<rparr>)
      | HealthSet v \<Rightarrow> ([], Inr (s\<lparr>advertise := v, unseen := True\<rparr>))
      | HealthSeen \<Rightarrow> on_health_seen c s (writes i)
      | HealthClosed \<Rightarrow> ([], Inl HealthGone))"

text \<open>When an arm can be chosen.  \<open>send_if_modified\<close> makes every \<open>HealthSet\<close> a change.\<close>

definition enabled :: "session \<Rightarrow> input \<Rightarrow> bool" where
  "enabled s i =
     (case event i of
        Incoming _ \<Rightarrow> True
      | TimerRan \<Rightarrow> deadline s \<le> at_time i
      | TickRan \<Rightarrow> established s \<and> next_tick s \<le> at_time i
      | HealthSet v \<Rightarrow> v \<noteq> advertise s
      | HealthSeen \<Rightarrow> established s \<and> unseen s
      | HealthClosed \<Rightarrow> established s \<and> \<not> unseen s)"

text \<open>The connection is up: the OPEN is written and the wait for the peer's begins.\<close>

definition new_session :: "nat \<Rightarrow> bool \<Rightarrow> session" where
  "new_session now healthy = \<lparr>phase = OpenSent, deadline = now + OPEN_WAIT, next_tick = 0,
     announced = False, advertise = healthy, unseen = False\<rparr>"

definition connected :: "session_cfg \<Rightarrow> nat \<Rightarrow> bool \<Rightarrow> bool \<Rightarrow> reaction" where
  "connected c now healthy w =
     write_then w (open_msg (ucast (my_asn c)) HOLD_TIME (bgp_id c)) (new_session now healthy)"

text \<open>A finite run; it stops at the end of the session, and \<open>None\<close> is a run whose chosen arm was
  not enabled.\<close>

fun run_arms :: "session_cfg \<Rightarrow> session \<Rightarrow> input list \<Rightarrow> reaction option" where
  "run_arms c s [] = Some ([], Inr s)"
| "run_arms c s (i # is) =
     (if \<not> enabled s i then None
      else (case session_step c s i of
              (out, Inl e) \<Rightarrow> Some (out, Inl e)
            | (out, Inr s') \<Rightarrow> map_option (\<lambda>(rest, r). (out @ rest, r)) (run_arms c s' is)))"

definition session_run :: "session_cfg \<Rightarrow> nat \<Rightarrow> bool \<Rightarrow> bool \<Rightarrow> input list \<Rightarrow> reaction option" where
  "session_run c now healthy w is =
     (case connected c now healthy w of
        (out, Inl e) \<Rightarrow> Some (out, Inl e)
      | (out, Inr s) \<Rightarrow> map_option (\<lambda>(rest, r). (out @ rest, r)) (run_arms c s is))"

subsection \<open>The peer's view of the route\<close>

text \<open>
  What a message does to the peer's table, as an RFC 4271 receiver reads it: \<open>b\<close> says whether the
  VIP's /32 is in it.  \<open>None\<close> is a message that does not parse, announces a route that is there
  or withdraws one that is not.
\<close>

definition rib_step :: "ipv4 \<Rightarrow> bool \<Rightarrow> bytes \<Rightarrow> bool option" where
  "rib_step v b m =
     (case read_msg m of
        Inr ((t, body), []) \<Rightarrow>
          (if t \<noteq> UPDATE then Some b
           else (case rfc_update body of
                   None \<Rightarrow> None
                 | Some (withdrawn, _, nlri) \<Rightarrow>
                     (if (32, octets v) \<in> set nlri then (if b then None else Some True)
                      else if (32, octets v) \<in> set withdrawn then (if b then Some False else None)
                      else Some b)))
      | _ \<Rightarrow> None)"

fun rib :: "ipv4 \<Rightarrow> bool \<Rightarrow> bytes list \<Rightarrow> bool option" where
  "rib v b [] = Some b"
| "rib v b (m # ms) = (case rib_step v b m of None \<Rightarrow> None | Some b' \<Rightarrow> rib v b' ms)"

lemma rib_append: "rib v b (ms @ ns) = (case rib v b ms of None \<Rightarrow> None | Some b' \<Rightarrow> rib v b' ns)"
  by (induction ms arbitrary: b) (auto split: option.splits)

lemma read_wire_message: "sendable m \<Longrightarrow> read_msg (wire_message m) = Inr (m, [])"
  using read_msg_message [of "snd m" "fst m" "[]"] by (simp add: sendable_def wire_message_def)

lemma type_neq: "OPEN \<noteq> UPDATE" "KEEPALIVE \<noteq> UPDATE" "NOTIFICATION \<noteq> UPDATE"
  by (simp_all add: bgp_types)

lemma rib_step_silent [simp]:
  "rib_step v b (open_msg a h i) = Some b" "rib_step v b keepalive_msg = Some b"
  "rib_step v b (notification_msg code sub) = Some b"
  unfolding wire_messages rib_step_def by (simp_all add: read_wire_message type_neq)

lemma take_octets [simp]: "take (prefix_bytes 32) (octets v) = octets v"
  by (simp add: prefix_bytes_def)

lemma rib_step_announce [simp]:
  "rib_step v b (update_announce a nh v 32) = (if b then None else Some True)"
  unfolding wire_messages rib_step_def
  by (simp add: read_wire_message rfc_update_announce)

lemma rib_step_withdraw [simp]:
  "rib_step v b (update_withdraw v 32) = (if b then Some False else None)"
  unfolding wire_messages rib_step_def
  by (simp add: read_wire_message rfc_update_withdraw)

subsection \<open>The session's invariant\<close>

definition session_ok :: "session \<Rightarrow> bool" where
  "session_ok s \<longleftrightarrow>
     (announced s \<longrightarrow> established s)
     \<and> (established s \<and> \<not> unseen s \<longrightarrow> announced s = advertise s)
     \<and> hold_of (phase s) \<le> 180 \<and> (hold_of (phase s) = 0 \<or> 3 \<le> unat (hold_of (phase s)))"

lemmas handler_defs = on_message_def on_open_sent_def on_open_confirm_def on_established_def
  on_health_seen_def on_timer_def write_then_def notify_def peer_notified_def

lemma hold_min: "check_open body want = Inr h \<Longrightarrow>
    min HOLD_TIME h \<le> 180 \<and> (min HOLD_TIME h = 0 \<or> 3 \<le> unat (min HOLD_TIME h))"
  using check_open_hold [of body want h] by (auto simp: min_def HOLD_TIME_def)

text \<open>One handler at a time: it keeps the invariant and the peer's table follows \<open>announced\<close>.\<close>

definition follows :: "session_cfg \<Rightarrow> session \<Rightarrow> reaction \<Rightarrow> bool" where
  "follows c s x =
     (case x of (out, r) \<Rightarrow>
        (case r of
           Inl _ \<Rightarrow> rib (bgp_vip c) (announced s) out = Some (announced s)
         | Inr s' \<Rightarrow> session_ok s' \<and> rib (bgp_vip c) (announced s) out = Some (announced s')))"

lemma follows_notify [simp]: "follows c s (notify w code sub why)"
  by (simp add: follows_def notify_def)

lemma follows_peer_notified [simp]: "follows c s (peer_notified body)"
  by (simp add: follows_def peer_notified_def)

lemma follows_quiet [simp]: "follows c s ([], Inr s') \<longleftrightarrow> session_ok s' \<and> announced s' = announced s"
  by (auto simp: follows_def)

lemma follows_keepalive [simp]:
  "follows c s (write_then w keepalive_msg s') \<longleftrightarrow>
     (w \<longrightarrow> session_ok s' \<and> announced s' = announced s)"
  by (auto simp: follows_def write_then_def)

lemmas session_ok_simps = session_ok_def established_def hold_of_def

lemma follows_open_sent:
  assumes "session_ok s" and "phase s = OpenSent"
  shows "follows c s (on_open_sent c s now w m)"
proof (cases "check_open (snd m) (bgp_asn (to_peer c))")
  case (Inl e)
  then show ?thesis
    by (cases m; cases e) (simp add: on_open_sent_def)
next
  case (Inr h)
  with hold_min [OF Inr] assms show ?thesis
    by (cases m) (simp add: on_open_sent_def session_ok_simps Let_def)
qed

lemma follows_open_confirm:
  "session_ok s \<Longrightarrow> phase s = OpenConfirm hold \<Longrightarrow> follows c s (on_open_confirm s hold now w m)"
  by (cases m) (simp add: on_open_confirm_def session_ok_simps)

lemma follows_established:
  "session_ok s \<Longrightarrow> phase s = Established hold \<Longrightarrow> follows c s (on_established s hold now w m)"
  by (cases m; cases "hold = 0") (simp_all add: on_established_def session_ok_simps Let_def)

lemma follows_health_seen:
  "session_ok s \<Longrightarrow> established s \<Longrightarrow> follows c s (on_health_seen c s w)"
  by (auto simp: on_health_seen_def follows_def write_then_def session_ok_simps Let_def)

lemma follows_message: "session_ok s \<Longrightarrow> follows c s (on_message c s now w m)"
  by (cases "phase s")
    (simp_all add: on_message_def follows_open_sent follows_open_confirm follows_established)

lemma follows_end: "follows c s ([], Inl e)"
  by (simp add: follows_def)

lemma follows_step:
  assumes "session_ok s" and "enabled s i"
  shows "follows c s (session_step c s i)"
proof (cases "event i")
  case (Incoming m)
  then show ?thesis
    using assms by (cases m) (simp_all add: session_step_def follows_message follows_end)
next
  case TimerRan
  then show ?thesis by (simp add: session_step_def on_timer_def)
next
  case TickRan
  with assms show ?thesis by (simp add: session_step_def session_ok_simps)
next
  case (HealthSet v)
  with assms show ?thesis by (simp add: session_step_def session_ok_simps)
next
  case HealthSeen
  with assms show ?thesis by (simp add: session_step_def enabled_def follows_health_seen)
next
  case HealthClosed
  then show ?thesis by (simp add: session_step_def follows_def)
qed

definition route_settled :: "bool \<Rightarrow> (ended, session) result \<Rightarrow> bool" where
  "route_settled b r =
     (case r of
        Inl _ \<Rightarrow> True
      | Inr s \<Rightarrow> session_ok s \<and> b = announced s)"

lemma run_arms_ok:
  "run_arms c s is = Some (out, r) \<Longrightarrow> session_ok s \<Longrightarrow>
     \<exists>b. rib (bgp_vip c) (announced s) out = Some b \<and> route_settled b r"
proof (induction "is" arbitrary: s out)
  case Nil
  then show ?case by (auto simp: route_settled_def)
next
  case (Cons i "is")
  obtain out1 r1 where step: "session_step c s i = (out1, r1)" by fastforce
  show ?case
  proof (cases r1)
    case (Inl e)
    with Cons.prems step follows_step [of s i c] show ?thesis
      by (auto simp: route_settled_def follows_def split: if_splits)
  next
    case (Inr s1)
    then obtain rest where rest: "run_arms c s1 is = Some (rest, r)" "out = out1 @ rest"
      using Cons.prems step by (auto split: if_splits)
    have "session_ok s1 \<and> rib (bgp_vip c) (announced s) out1 = Some (announced s1)"
      using Cons.prems step Inr follows_step [of s i c] by (auto simp: follows_def split: if_splits)
    with Cons.IH [OF rest(1)] rest(2) show ?thesis
      by (simp add: rib_append)
  qed
qed

lemma session_run_cases:
  assumes "session_run c now healthy w is = Some (out, r)"
  obtains (refused) "out = []" and "r = Inl WriteFailed"
  | (sent) rest where "run_arms c (new_session now healthy) is = Some (rest, r)"
      and "out = open_msg (ucast (my_asn c)) HOLD_TIME (bgp_id c) # rest"
  using assms by (cases w) (auto simp: session_run_def connected_def write_then_def)

lemma new_session_ok [simp]:
  "session_ok (new_session now healthy)" "\<not> announced (new_session now healthy)"
  "phase (new_session now healthy) = OpenSent"
  by (simp_all add: new_session_def session_ok_simps)

lemma session_run_ok:
  assumes "session_run c now healthy w is = Some (out, r)"
  shows "\<exists>b. rib (bgp_vip c) False out = Some b \<and> route_settled b r"
  using assms
proof (cases rule: session_run_cases)
  case refused
  then show ?thesis by (auto simp: route_settled_def)
next
  case (sent rest)
  from run_arms_ok [OF sent(1)] show ?thesis by (simp add: sent(2))
qed

subsection \<open>The handshake comes before any UPDATE\<close>

definition is_update :: "bytes \<Rightarrow> bool" where
  "is_update m \<longleftrightarrow> m ! 18 = UPDATE"

lemma message_type: "message t body ! 18 = t"
  by (simp add: message_def be16_def nth_append)

lemma is_update_simps [simp]:
  "\<not> is_update (open_msg a h i)" "\<not> is_update keepalive_msg" "\<not> is_update (notification_msg code sub)"
  by (simp_all add: is_update_def msg_defs message_type type_neq)

definition accepted_open :: "session_cfg \<Rightarrow> input \<Rightarrow> bool" where
  "accepted_open c i \<longleftrightarrow>
     (\<exists>body h. event i = Incoming (Inr (OPEN, body)) \<and> check_open body (bgp_asn (to_peer c)) = Inr h)"

definition got_keepalive :: "input \<Rightarrow> bool" where
  "got_keepalive i \<longleftrightarrow> (\<exists>body. event i = Incoming (Inr (KEEPALIVE, body)))"

lemma step_open_sent:
  assumes "phase s = OpenSent" and "enabled s i" and "session_step c s i = (out, r)"
  shows "list_all (\<lambda>m. \<not> is_update m) out"
    and "r = Inr s' \<Longrightarrow> phase s' = OpenSent \<or> accepted_open c i \<and> (\<exists>h. phase s' = OpenConfirm h)"
  using assms
  by (auto simp: session_step_def enabled_def established_def handler_defs accepted_open_def Let_def
      split: event.splits sum.splits prod.splits if_splits)

lemma step_open_confirm:
  assumes "phase s = OpenConfirm h" and "enabled s i" and "session_step c s i = (out, r)"
  shows "list_all (\<lambda>m. \<not> is_update m) out"
    and "r = Inr s' \<Longrightarrow> phase s' = OpenConfirm h \<or> got_keepalive i \<and> phase s' = Established h"
  using assms
  by (auto simp: session_step_def enabled_def established_def handler_defs got_keepalive_def
      split: event.splits sum.splits prod.splits if_splits)

lemma update_needs_keepalive:
  "run_arms c s is = Some (out, r) \<Longrightarrow> phase s = OpenConfirm h \<Longrightarrow> m \<in> set out \<Longrightarrow> is_update m \<Longrightarrow>
     \<exists>i \<in> set is. got_keepalive i"
proof (induction "is" arbitrary: s out)
  case (Cons i "is")
  obtain out1 r1 where step: "session_step c s i = (out1, r1)" by fastforce
  have on: "enabled s i" using Cons.prems(1) by (auto split: if_splits)
  note facts = step_open_confirm [OF Cons.prems(2) on step]
  show ?case
  proof (cases r1)
    case (Inl e)
    with Cons.prems step on facts(1) show ?thesis by (auto simp: list_all_iff)
  next
    case (Inr s1)
    obtain rest where "run_arms c s1 is = Some (rest, r)" "out = out1 @ rest"
      using Cons.prems(1) step on Inr by auto
    with facts(2) [OF Inr] facts(1) Cons.IH [of s1 rest] Cons.prems(3,4) show ?thesis
      by (auto simp: list_all_iff)
  qed
qed simp

lemma update_needs_open:
  "run_arms c s is = Some (out, r) \<Longrightarrow> phase s = OpenSent \<Longrightarrow> m \<in> set out \<Longrightarrow> is_update m \<Longrightarrow>
     \<exists>is1 i is2. is = is1 @ i # is2 \<and> accepted_open c i \<and> (\<exists>j \<in> set is2. got_keepalive j)"
proof (induction "is" arbitrary: s out)
  case (Cons i "is")
  obtain out1 r1 where step: "session_step c s i = (out1, r1)" by fastforce
  have on: "enabled s i" using Cons.prems(1) by (auto split: if_splits)
  note facts = step_open_sent [OF Cons.prems(2) on step]
  show ?case
  proof (cases r1)
    case (Inl e)
    with Cons.prems step on facts(1) show ?thesis by (auto simp: list_all_iff)
  next
    case (Inr s1)
    obtain rest where rest: "run_arms c s1 is = Some (rest, r)" "out = out1 @ rest"
      using Cons.prems(1) step on Inr by auto
    then have m: "m \<in> set rest"
      using facts(1) Cons.prems(3,4) by (auto simp: list_all_iff)
    from facts(2) [OF Inr] show ?thesis
    proof
      assume "phase s1 = OpenSent"
      from Cons.IH [OF rest(1) this m Cons.prems(4)] show ?thesis
        by (metis append_Cons)
    next
      assume "accepted_open c i \<and> (\<exists>h. phase s1 = OpenConfirm h)"
      with update_needs_keepalive [OF rest(1) _ m Cons.prems(4)] show ?thesis
        by (metis append_Nil)
    qed
  qed
qed simp

subsection \<open>The hold timer\<close>

definition incoming :: "input \<Rightarrow> bool" where
  "incoming i = (case event i of Incoming _ \<Rightarrow> True | _ \<Rightarrow> False)"

lemma step_silent:
  assumes "phase s = Established h" and "session_step c s i = (out, Inr s')"
    and "\<not> incoming i \<or> h = 0"
  shows "phase s' = Established h \<and> deadline s' = deadline s"
  using assms
  by (auto simp: session_step_def handler_defs incoming_def Let_def
      split: event.splits sum.splits prod.splits if_splits)

lemma run_silent:
  assumes "phase s = Established h" and "run_arms c s is = Some (out, Inr s')"
    and "list_all (\<lambda>i. \<not> incoming i) is \<or> h = 0"
  shows "phase s' = Established h \<and> deadline s' = deadline s"
  using assms
proof (induction "is" arbitrary: s out)
  case (Cons i "is")
  obtain out1 s1 where step: "session_step c s i = (out1, Inr s1)"
    and rest: "\<exists>rest. run_arms c s1 is = Some (rest, Inr s')"
    using Cons.prems(2) by (auto split: if_splits prod.splits sum.splits)
  from rest obtain rest where rest: "run_arms c s1 is = Some (rest, Inr s')" by blast
  have "phase s1 = Established h \<and> deadline s1 = deadline s"
    using step_silent [OF Cons.prems(1) step] Cons.prems(3) by auto
  with Cons.IH [OF _ rest] Cons.prems(3) show ?case by auto
qed simp

text \<open>
  When something of the peer was last read (the start of the session before that), and how long a session
  waits from then on: 240 seconds for the OPEN, then the hold time, with 240 seconds again for the
  KEEPALIVE when that is zero.
\<close>

definition last_heard :: "nat \<Rightarrow> input list \<Rightarrow> nat" where
  "last_heard now is = foldl (\<lambda>t i. if incoming i then at_time i else t) now is"

definition wait_of :: "phase \<Rightarrow> nat" where
  "wait_of p = (if hold_of p = 0 then OPEN_WAIT else secs (unat (hold_of p)))"

definition timed :: "nat \<Rightarrow> session \<Rightarrow> bool" where
  "timed t s \<longleftrightarrow> phase s = Established 0 \<or> deadline s = t + wait_of (phase s)"

text \<open>The hold time is agreed: the smaller of the node's 180 seconds and what an accepted OPEN offers.\<close>

definition offers :: "session_cfg \<Rightarrow> u16 \<Rightarrow> input \<Rightarrow> bool" where
  "offers c h i \<longleftrightarrow> (\<exists>body peer_hold. event i = Incoming (Inr (OPEN, body))
     \<and> check_open body (bgp_asn (to_peer c)) = Inr peer_hold \<and> h = min HOLD_TIME peer_hold)"

lemma step_timed:
  assumes "timed t s" and "session_step c s i = (out, Inr s')"
  shows "timed (if incoming i then at_time i else t) s'"
  using assms
  by (cases "phase s") (auto simp: session_step_def handler_defs incoming_def Let_def timed_def wait_of_def hold_of_def
      split: event.splits sum.splits prod.splits if_splits)

lemma step_offered:
  assumes "session_step c s i = (out, Inr s')"
  shows "phase s' = OpenSent \<or> phase s \<noteq> OpenSent \<and> hold_of (phase s') = hold_of (phase s)
    \<or> offers c (hold_of (phase s')) i"
  using assms
  by (cases "phase s") (auto simp: session_step_def handler_defs Let_def hold_of_def offers_def
      split: event.splits sum.splits prod.splits if_splits)

lemma run_timed:
  assumes "run_arms c s is = Some (out, Inr s')" and "timed t s"
  shows "timed (last_heard t is) s'"
  using assms
proof (induction "is" arbitrary: s out t)
  case (Cons i "is")
  then obtain out1 s1 rest where "session_step c s i = (out1, Inr s1)" "run_arms c s1 is = Some (rest, Inr s')"
    by (auto split: if_splits prod.splits sum.splits)
  with Cons.IH [of s1 rest "if incoming i then at_time i else t"] step_timed [OF Cons.prems(2)] show ?case
    by (simp add: last_heard_def)
qed (simp add: last_heard_def)

lemma run_offered:
  assumes "run_arms c s is = Some (out, Inr s')"
  shows "phase s' = OpenSent \<or> phase s \<noteq> OpenSent \<and> hold_of (phase s') = hold_of (phase s)
    \<or> (\<exists>i \<in> set is. offers c (hold_of (phase s')) i)"
  using assms
proof (induction "is" arbitrary: s out)
  case (Cons i "is")
  then obtain out1 s1 rest where step: "session_step c s i = (out1, Inr s1)" and rest: "run_arms c s1 is = Some (rest, Inr s')"
    by (auto split: if_splits prod.splits sum.splits)
  from Cons.IH [OF rest] step_offered [OF step] show ?case by auto
qed auto

subsection \<open>Properties\<close>

text \<open>The peer's table follows the health of the VIP.  In every run of a session the messages
  written, read as an RFC 4271 receiver reads them, announce the /32 only when it is absent and
  withdraw it only when it is present, and it is present exactly when the session says so; while the
  session lives, the route is there only once Established, and as soon as the last change of health
  has been seen, exactly when the VIP is healthy.\<close>

theorem bgp_route_follows_health:
  assumes "session_run c now healthy w is = Some (out, r)"
  shows "\<exists>b. rib (bgp_vip c) False out = Some b \<and>
    (case r of
       Inl _ \<Rightarrow> True
     | Inr s \<Rightarrow> b = announced s \<and> (b \<longrightarrow> established s) \<and> (established s \<and> \<not> unseen s \<longrightarrow> b = advertise s))"
  using session_run_ok [OF assms] by (auto simp: route_settled_def session_ok_def split: sum.splits)

definition demo_session :: session_cfg where
  "demo_session = \<lparr>to_peer = \<lparr>bgp_ip = Ipv4 192 168 8 1, bgp_port = 179, bgp_asn = 64513\<rparr>,
     my_asn = 64512, bgp_id = Ipv4 192 168 8 51, next_hop = Ipv4 192 168 8 51,
     bgp_vip = Ipv4 192 168 8 50\<rparr>"

definition demo_events :: "input list" where
  "demo_events =
     [\<lparr>event = Incoming (Inr (OPEN, open_body 64513 90 (Ipv4 192 168 8 1))), at_time = 0, writes = True\<rparr>,
      \<lparr>event = Incoming (Inr (KEEPALIVE, [])), at_time = 1, writes = True\<rparr>,
      \<lparr>event = HealthSeen, at_time = 2, writes = True\<rparr>]"

lemma demo_run:
  "session_run demo_session 0 True True demo_events =
     Some ([open_msg 64512 HOLD_TIME (Ipv4 192 168 8 51), keepalive_msg,
            update_announce 64512 (Ipv4 192 168 8 51) (Ipv4 192 168 8 50) 32],
           Inr \<lparr>phase = Established 90, deadline = 1 + secs 90, next_tick = 1 + secs 90 div 3,
                announced = True, advertise = True, unseen = False\<rparr>)"
  by (simp add: session_run_def connected_def write_then_def new_session_def demo_session_def
      demo_events_def enabled_def session_step_def on_message_def on_open_sent_def check_open_body
      on_open_confirm_def on_health_seen_def established_def HOLD_TIME_def tick_period_def min_def)

lemma bgp_route_follows_health_witness:
  "\<exists>out s. session_run demo_session 0 True True demo_events = Some (out, Inr s)
     \<and> rib (Ipv4 192 168 8 50) False out = Some True \<and> announced s"
proof -
  from bgp_route_follows_health [OF demo_run] obtain b where
    "rib (bgp_vip demo_session) False
       [open_msg 64512 HOLD_TIME (Ipv4 192 168 8 51), keepalive_msg,
        update_announce 64512 (Ipv4 192 168 8 51) (Ipv4 192 168 8 50) 32] = Some b" and "b"
    by auto
  then show ?thesis
    using demo_run by (auto simp: demo_session_def)
qed

text \<open>C25: No UPDATE is written before the handshake is over: whenever a session wrote one, the peer's
  OPEN had arrived and passed its check, and a KEEPALIVE of the peer had arrived after it.\<close>

theorem update_only_after_handshake:
  assumes "session_run c now healthy w is = Some (out, r)" and "m \<in> set out" and "is_update m"
  shows "\<exists>is1 i is2 j. is = is1 @ i # is2 \<and> accepted_open c i \<and> j \<in> set is2 \<and> got_keepalive j"
  using assms(1)
proof (cases rule: session_run_cases)
  case refused
  with assms show ?thesis by simp
next
  case (sent rest)
  with assms have "m \<in> set rest" by auto
  from update_needs_open [OF sent(1) _ this assms(3)] show ?thesis by auto
qed

lemma update_only_after_handshake_witness:
  "\<exists>is1 i is2 j. demo_events = is1 @ i # is2 \<and> accepted_open demo_session i \<and> j \<in> set is2 \<and> got_keepalive j"
  by (rule update_only_after_handshake [OF demo_run,
        of "update_announce 64512 (Ipv4 192 168 8 51) (Ipv4 192 168 8 50) 32"])
    (simp_all add: is_update_def msg_defs message_type)

text \<open>The negotiated hold time is the smaller of both sides', zero or from 3 to 180 seconds, and
  the keepalive ticker's period, a third of it, is at least a second.\<close>

theorem negotiated_hold_time:
  assumes "session_run c now healthy w is = Some (out, Inr s)"
  shows "hold_of (phase s) \<le> 180 \<and> (hold_of (phase s) = 0 \<or> 3 \<le> unat (hold_of (phase s)))
    \<and> secs 1 \<le> tick_period (hold_of (phase s))"
proof -
  have ok: "session_ok s"
    using session_run_ok [OF assms] by (auto simp: route_settled_def)
  moreover have "secs 1 \<le> tick_period h" if "h = 0 \<or> 3 \<le> unat h" for h
    using that by (auto simp: tick_period_def far_def secs_def)
  ultimately show ?thesis by (simp add: session_ok_def)
qed

lemma negotiated_hold_time_witness: "(90 :: u16) \<le> 180 \<and> secs 1 \<le> tick_period 90"
  using negotiated_hold_time [OF demo_run] by (simp add: hold_of_def)

text \<open>C38: The timer of a session is exact.  In every run, however it went, a session that waits for the peer's
  OPEN or KEEPALIVE, or is Established with a hold time that is not zero, can run out exactly from the
  moment something of the peer was last read (the OPEN, the KEEPALIVE that made it Established, any message
  since; before those, the start) plus the time this wait has: 240 seconds for the OPEN, then the hold time,
  which is the smaller of the node's and of what an accepted OPEN of the peer offered.  Then a Hold Timer
  Expired NOTIFICATION ends it.\<close>

theorem hold_timer_exact:
  assumes "session_run c now healthy w is = Some (out, Inr s)" and "phase s \<noteq> Established 0"
  shows "(enabled s \<lparr>event = TimerRan, at_time = t, writes = True\<rparr> \<longleftrightarrow> last_heard now is + wait_of (phase s) \<le> t)
    \<and> (phase s = OpenSent \<or> (\<exists>i \<in> set is. offers c (hold_of (phase s)) i))
    \<and> (\<exists>why. session_step c s \<lparr>event = TimerRan, at_time = t, writes = True\<rparr> =
      ([notification_msg ERR_HOLD_EXPIRED 0], Inl (Notified ERR_HOLD_EXPIRED 0 why)))"
  using assms(1)
proof (cases rule: session_run_cases)
  case (sent rest)
  have "timed now (new_session now healthy)"
    by (simp add: timed_def new_session_def wait_of_def hold_of_def)
  from run_timed [OF sent(1) this] assms(2) have "deadline s = last_heard now is + wait_of (phase s)"
    by (simp add: timed_def)
  then show ?thesis
    using run_offered [OF sent(1)] by (auto simp: enabled_def session_step_def on_timer_def notify_def)
qed simp

definition demo_established :: "u16 \<Rightarrow> session" where
  "demo_established h = \<lparr>phase = Established h, deadline = secs 90, next_tick = 0,
     announced = False, advertise = False, unseen = False\<rparr>"

lemma hold_timer_exact_witness:
  "\<exists>out s. session_run demo_session 0 True True demo_events = Some (out, Inr s)
    \<and> \<not> enabled s \<lparr>event = TimerRan, at_time = secs 90, writes = True\<rparr>
    \<and> enabled s \<lparr>event = TimerRan, at_time = 1 + secs 90, writes = True\<rparr>"
proof -
  have "last_heard 0 demo_events = 1" by (simp add: last_heard_def demo_events_def incoming_def)
  with hold_timer_exact [OF demo_run, of "secs 90"] hold_timer_exact [OF demo_run, of "1 + secs 90"] demo_run
  show ?thesis by (auto simp: wait_of_def hold_of_def)
qed

text \<open>With hold time zero, where RFC 4271 runs no hold timer, the session still ends with a Hold
  Timer Expired NOTIFICATION, 365 days after it was Established, however often the peer was heard.\<close>

theorem zero_hold_expires_after_a_year:
  assumes "phase s = OpenConfirm 0"
    and "run_arms c s (\<lparr>event = Incoming (Inr (KEEPALIVE, body)), at_time = t, writes = w\<rparr> # is) = Some (out, Inr s')"
  shows "phase s' = Established 0
    \<and> enabled s' \<lparr>event = TimerRan, at_time = t + secs (365 * 24 * 3600), writes = True\<rparr>
    \<and> fst (session_step c s' \<lparr>event = TimerRan, at_time = t + secs (365 * 24 * 3600), writes = True\<rparr>)
        = [notification_msg ERR_HOLD_EXPIRED 0]"
proof -
  obtain rest s1 where "run_arms c s1 is = Some (rest, Inr s')"
    and "phase s1 = Established 0" and "deadline s1 = t + far"
    using assms by (auto simp: enabled_def session_step_def on_message_def on_open_confirm_def)
  with run_silent [of s1 0 c "is" rest s'] show ?thesis
    by (simp add: enabled_def session_step_def on_timer_def notify_def far_def)
qed

lemma zero_hold_expires_after_a_year_witness:
  "\<exists>s'. phase s' = Established 0
     \<and> enabled s' \<lparr>event = TimerRan, at_time = secs (365 * 24 * 3600), writes = True\<rparr>"
proof -
  let ?s = "(demo_established 0)\<lparr>phase := OpenConfirm 0\<rparr>"
  have "run_arms demo_session ?s [\<lparr>event = Incoming (Inr (KEEPALIVE, [])), at_time = 0, writes = True\<rparr>] =
      Some ([], Inr \<lparr>phase = Established 0, deadline = far, next_tick = far, announced = False,
                      advertise = False, unseen = True\<rparr>)"
    by (simp add: demo_established_def enabled_def session_step_def on_message_def on_open_confirm_def
        tick_period_def)
  from zero_hold_expires_after_a_year [OF _ this]
  have "enabled \<lparr>phase = Established 0, deadline = far, next_tick = far, announced = False,
      advertise = False, unseen = True\<rparr> \<lparr>event = TimerRan, at_time = secs (365 * 24 * 3600), writes = True\<rparr>"
    by simp
  then show ?thesis
    by (intro exI [of _ "\<lparr>phase = Established 0, deadline = far, next_tick = far, announced = False,
      advertise = False, unseen = True\<rparr>"]) simp
qed

text \<open>Two of these speakers, each configured with the other's AS, peer: from the bytes the other one
  writes (its OPEN, then its KEEPALIVE), either comes to Established with the full hold time, having
  written just its own OPEN and KEEPALIVE.\<close>

theorem two_speakers_peer:
  assumes "my_asn c' = bgp_asn (to_peer c)" and "my_asn c' \<le> 65535"
  shows "\<exists>s. session_run c now healthy True
      (map (\<lambda>x. \<lparr>event = Incoming x, at_time = now, writes = True\<rparr>)
        (take 2 (reader (open_msg (ucast (my_asn c')) HOLD_TIME (bgp_id c') @ keepalive_msg))))
      = Some ([open_msg (ucast (my_asn c)) HOLD_TIME (bgp_id c), keepalive_msg], Inr s)
    \<and> phase s = Established 180"
proof -
  have "reader (open_msg (ucast (my_asn c')) HOLD_TIME (bgp_id c') @ keepalive_msg) =
      [Inr (OPEN, open_body (ucast (my_asn c')) HOLD_TIME (bgp_id c')), Inr (KEEPALIVE, []), Inl PeerClosed]"
    using bgp.units_concat [of "[(OPEN, open_body (ucast (my_asn c')) HOLD_TIME (bgp_id c')), (KEEPALIVE, [])]" "[]"]
    by (simp add: wire_messages reader_Nil)
  moreover have "ucast (ucast (my_asn c') :: u16) = my_asn c'"
    using assms(2) by (intro ucast_u16_u32) (simp add: word_le_nat_alt)
  ultimately show ?thesis
    using assms(1)
    by (simp add: session_run_def connected_def write_then_def new_session_def enabled_def
        session_step_def on_message_def on_open_sent_def check_open_body on_open_confirm_def HOLD_TIME_def)
qed

lemma two_speakers_peer_witness:
  "\<exists>s. session_run demo_session 0 True True
      (map (\<lambda>x. \<lparr>event = Incoming x, at_time = 0, writes = True\<rparr>)
        (take 2 (reader (open_msg 64513 HOLD_TIME (Ipv4 192 168 8 52) @ keepalive_msg))))
      = Some ([open_msg 64512 HOLD_TIME (Ipv4 192 168 8 51), keepalive_msg], Inr s)
    \<and> phase s = Established 180"
  using two_speakers_peer [of "demo_session\<lparr>my_asn := 64513, bgp_id := Ipv4 192 168 8 52\<rparr>" demo_session 0 True]
  by (simp add: demo_session_def)

text \<open>The configuration check covers the node's own AS only.  What \<open>preflight\<close> lets through is
  carried in the OPEN unchanged; but a peer configured with an AS above 65535 gets a session that can
  never leave its first state, because no OPEN such a peer sends is accepted.\<close>

theorem wide_peer_as_never_peers:
  assumes "preflight cfg = Inr nh" and "to_peer c \<in> set (snd (spawn cfg nh))"
    and "65535 < unat (bgp_asn (to_peer c))" and "session_run c now healthy w is = Some (out, Inr s)"
  shows "unat (ucast (local_asn cfg) :: u16) = unat (local_asn cfg) \<and> phase s = OpenSent"
proof
  show "unat (ucast (local_asn cfg) :: u16) = unat (local_asn cfg)"
    using assms(1) by (intro unat_u32_to_u16)
      (auto simp: preflight_def word_less_nat_alt not_less split: if_splits)
next
  have "unat (ucast (x :: u16) :: u32) \<le> 65535" for x
    using u16_less [of x] by (simp add: unat_u16_to_u32)
  then have "ucast (x :: u16) \<noteq> bgp_asn (to_peer c)" for x
    using assms(3) by (metis linorder_not_less)
  then have no: "check_open body (bgp_asn (to_peer c)) \<noteq> Inr h" for body h
    by (auto simp: check_open_def Let_def split: if_splits)
  have stay: "run_arms c s1 is = Some (rest, Inr s2) \<Longrightarrow> phase s1 = OpenSent \<Longrightarrow> phase s2 = OpenSent"
    for s1 s2 "is" rest
  proof (induction "is" arbitrary: s1 rest)
    case (Cons i "is")
    obtain out1 s1' rest' where step: "session_step c s1 i = (out1, Inr s1')" "enabled s1 i"
      and tail: "run_arms c s1' is = Some (rest', Inr s2)"
      using Cons.prems(1) by (auto split: if_splits prod.splits sum.splits)
    have "phase s1' = OpenSent"
      using step_open_sent(2) [OF Cons.prems(2) step(2,1) refl] no by (auto simp: accepted_open_def)
    with Cons.IH [OF tail] show ?case by simp
  qed simp
  from assms(4) show "phase s = OpenSent"
    by (cases rule: session_run_cases) (auto dest: stay)
qed

definition demo_wide_cfg :: bgp_cfg where
  "demo_wide_cfg = \<lparr>bgp_enabled = True, local_asn = 64512, router_id = show_ipv4 (Ipv4 10 0 0 1),
     peers = [\<lparr>peer_address = show_ipv4 (Ipv4 10 0 0 2), peer_asn = 70000, peer_port = 179\<rparr>]\<rparr>"

lemma wide_peer_as_never_peers_witness:
  "preflight demo_wide_cfg = Inr (Ipv4 10 0 0 1)
   \<and> (\<exists>out s. session_run (demo_session\<lparr>to_peer := \<lparr>bgp_ip = Ipv4 10 0 0 2, bgp_port = 179, bgp_asn = 70000\<rparr>\<rparr>)
          0 True True [] = Some (out, Inr s) \<and> phase s = OpenSent)"
proof -
  let ?c = "demo_session\<lparr>to_peer := \<lparr>bgp_ip = Ipv4 10 0 0 2, bgp_port = 179, bgp_asn = 70000\<rparr>\<rparr>"
  have pre: "preflight demo_wide_cfg = Inr (Ipv4 10 0 0 1)"
    by (simp add: preflight_def demo_wide_cfg_def)
  have spawned: "to_peer ?c \<in> set (snd (spawn demo_wide_cfg (Ipv4 10 0 0 1)))"
    by (simp add: spawn_def demo_wide_cfg_def peer_of_def)
  obtain out s where run: "session_run ?c 0 True True [] = Some (out, Inr s)"
    by (simp add: session_run_def connected_def write_then_def)
  from wide_peer_as_never_peers [OF pre spawned _ run] have "phase s = OpenSent"
    by simp
  with pre run show ?thesis by blast
qed

end
