(* ===== verification/Vip_Netlink.thy ===== *)
theory Vip_Netlink
  imports Interfaces
begin

text \<open>
  \<open>src/vip.rs\<close>: adding the VIP to an interface and deleting it through rtnetlink, looking an
  interface up, and the gratuitous ARP frame.

  The kernel is code this repository does not hold, so it is an argument: \<open>kern k req\<close> is what
  opening a socket in state \<open>k\<close> and sending \<open>req\<close> leads to, an errno or the datagrams that
  \<open>recv\<close> then returns, and the kernel's next state.  Integers are in the native (little-endian)
  order of the shipped target.
\<close>

subsection \<open>Constants and errors\<close>

definition NLMSG_ERROR :: u16 where "NLMSG_ERROR = 2"
definition NLMSG_DONE :: u16 where "NLMSG_DONE = 3"
definition RTM_NEWLINK :: u16 where "RTM_NEWLINK = 16"
definition RTM_GETLINK :: u16 where "RTM_GETLINK = 18"
definition RTM_NEWADDR :: u16 where "RTM_NEWADDR = 20"
definition RTM_DELADDR :: u16 where "RTM_DELADDR = 21"
definition RTM_GETADDR :: u16 where "RTM_GETADDR = 22"
definition NLM_F_REQUEST :: u16 where "NLM_F_REQUEST = 0x1"
definition NLM_F_ACK :: u16 where "NLM_F_ACK = 0x4"
definition NLM_F_EXCL :: u16 where "NLM_F_EXCL = 0x200"
definition NLM_F_CREATE :: u16 where "NLM_F_CREATE = 0x400"
definition NLM_F_DUMP :: u16 where "NLM_F_DUMP = 0x300"
definition IFLA_ADDRESS :: u16 where "IFLA_ADDRESS = 1"
definition IFLA_IFNAME :: u16 where "IFLA_IFNAME = 3"
definition IFA_ADDRESS :: u16 where "IFA_ADDRESS = 1"
definition IFA_LOCAL :: u16 where "IFA_LOCAL = 2"

text \<open>\<open>libc\<close>: the address family and the errnos the code names.\<close>

definition AF_INET :: u8 where "AF_INET = 2"
definition EAGAIN :: int where "EAGAIN = 11"
definition EEXIST :: int where "EEXIST = 17"
definition EADDRNOTAVAIL :: int where "EADDRNOTAVAIL = 99"

datatype io_error = Os int | InvalidData

datatype vip_error = NotIpv4 | NetlinkError io_error | NoInterface | NoAddress

subsection \<open>Encoding\<close>

definition align :: "nat \<Rightarrow> nat" where
  "align n = (n + 3) div 4 * 4"

definition nl_msg :: "u16 \<Rightarrow> u16 \<Rightarrow> u32 \<Rightarrow> bytes \<Rightarrow> bytes" where
  "nl_msg ty flags seq payload =
     (let len = 16 + length payload
      in le32 (word_of_nat len) @ le16 ty @ le16 (flags OR NLM_F_REQUEST) @ le32 seq @ le32 0
           @ payload @ replicate (align len - len) 0)"

definition addr_payload :: "u32 \<Rightarrow> ipv4 \<Rightarrow> bytes" where
  "addr_payload index ip =
     [AF_INET, 32, 0, 0] @ le32 index
       @ le16 8 @ le16 IFA_LOCAL @ octets ip @ le16 8 @ le16 IFA_ADDRESS @ octets ip"

definition garp_frame :: "bytes \<Rightarrow> ipv4 \<Rightarrow> bytes" where
  "garp_frame mac ip =
     be16 1 @ be16 0x0800 @ [6, 4] @ be16 2 @ mac @ octets ip @ mac @ octets ip"

subsection \<open>Decoding\<close>

definition u16_at :: "bytes \<Rightarrow> nat \<Rightarrow> u16" where
  "u16_at b i = of_be16 (b ! (i + 1)) (b ! i)"

definition u32_at :: "bytes \<Rightarrow> nat \<Rightarrow> u32" where
  "u32_at b i = of_le32 (b ! i) (b ! (i + 1)) (b ! (i + 2)) (b ! (i + 3))"

function attrs :: "bytes \<Rightarrow> (u16 \<times> bytes) list" where
  "attrs b =
     (if length b < 4 then []
      else (let len = unat (u16_at b 0)
            in if len < 4 \<or> length b < len then []
               else (u16_at b 2 AND 0x3fff, take (len - 4) (drop 4 b))
                      # attrs (drop (min (align len) (length b)) b)))"
  by pat_completeness auto
termination
  by (relation "measure length") (auto simp: align_def)

declare attrs.simps [simp del]

type_synonym nl_message = "u16 \<times> bytes"

record link =
  index :: u32
  mac :: bytes

text \<open>The loop over one link's attributes: the name found, and the hardware address.\<close>

fun link_attrs :: "string \<Rightarrow> (u16 \<times> bytes) list \<Rightarrow> bool \<Rightarrow> bytes \<Rightarrow> bool \<times> bytes" where
  "link_attrs name [] found hw = (found, hw)"
| "link_attrs name ((t, d) # as) found hw =
     (if t = IFLA_IFNAME then link_attrs name as (hd (split_on 0 d) = map of_char name) hw
      else if t = IFLA_ADDRESS \<and> length d = 6 then link_attrs name as found d
      else link_attrs name as found hw)"

fun parse_links :: "nl_message list \<Rightarrow> string \<Rightarrow> link option" where
  "parse_links [] name = None"
| "parse_links ((ty, p) # msgs) name =
     (if ty \<noteq> RTM_NEWLINK \<or> length p < 16 then parse_links msgs name
      else (case link_attrs name (attrs (drop 16 p)) False (replicate 6 0) of
              (found, hw) \<Rightarrow>
                (if found then Some \<lparr>index = u32_at p 4, mac = hw\<rparr> else parse_links msgs name)))"

fun addr_attrs :: "(u16 \<times> bytes) list \<Rightarrow> ipv4 option \<Rightarrow> ipv4 option \<Rightarrow> ipv4 option \<times> ipv4 option" where
  "addr_attrs [] local address = (local, address)"
| "addr_attrs ((t, d) # as) local address =
     (if length d = 4
      then (let a = Ipv4 (d ! 0) (d ! 1) (d ! 2) (d ! 3)
            in if t = IFA_LOCAL then addr_attrs as (Some a) address
               else if t = IFA_ADDRESS then addr_attrs as local (Some a)
               else addr_attrs as local address)
      else addr_attrs as local address)"

fun parse_addrs :: "nl_message list \<Rightarrow> u32 \<Rightarrow> (ipv4 \<times> u8) list" where
  "parse_addrs [] idx = []"
| "parse_addrs ((ty, p) # msgs) idx =
     (if ty \<noteq> RTM_NEWADDR \<or> length p < 8 \<or> p ! 0 \<noteq> AF_INET \<or> u32_at p 4 \<noteq> idx
      then parse_addrs msgs idx
      else (case addr_attrs (attrs (drop 8 p)) None None of
              (local, address) \<Rightarrow>
                (case (case local of Some a \<Rightarrow> Some a | None \<Rightarrow> address) of
                   Some a \<Rightarrow> (a, p ! 1) # parse_addrs msgs idx
                 | None \<Rightarrow> parse_addrs msgs idx)))"

subsection \<open>Requests\<close>

text \<open>The inner loop of \<open>request\<close>, over the messages of one datagram: it returns, or reads on.\<close>

datatype progress = ReadOn "nl_message list" | Return "(io_error, nl_message list) result"

function eat :: "u32 \<Rightarrow> bytes \<Rightarrow> nl_message list \<Rightarrow> progress" where
  "eat seq b out =
     (if length b < 16 then ReadOn out
      else (let len = unat (u32_at b 0)
            in if len < 16 \<or> length b < len then Return (Inl InvalidData)
               else (let mty = u16_at b 4; mseq = u32_at b 8; body = take (len - 16) (drop 16 b);
                         rest = drop (min (align len) (length b)) b
                     in if mseq \<noteq> seq then eat seq rest out
                        else if mty = NLMSG_DONE then Return (Inr out)
                        else if mty = NLMSG_ERROR
                        then (let err = (if 4 \<le> length body then u32_at body 0 else 0)
                              in Return (if err = 0 then Inr out else Inl (Os (sint (- err)))))
                        else eat seq rest (out @ [(mty, body)]))))"
  by pat_completeness auto
termination
  by (relation "measure (\<lambda>(seq, b, out). length b)") (auto simp: align_def)

declare eat.simps [simp del]

text \<open>The outer loop, over what \<open>recv\<close> returned; the socket's receive timeout of two seconds makes
  a reply that does not come an \<open>EAGAIN\<close>.  The buffer holds 64 KiB.\<close>

fun collect :: "u32 \<Rightarrow> (io_error, bytes) result list \<Rightarrow> nl_message list \<Rightarrow> (io_error, nl_message list) result"
where
  "collect seq [] out = Inl (Os EAGAIN)"
| "collect seq (Inl e # replies) out = Inl e"
| "collect seq (Inr b # replies) out =
     (case eat seq (take 65536 b) out of
        ReadOn out' \<Rightarrow> collect seq replies out'
      | Return r \<Rightarrow> r)"

type_synonym 'k kernel = "'k \<Rightarrow> bytes \<Rightarrow> (io_error, (io_error, bytes) result list) result \<times> 'k"

definition request ::
  "'k kernel \<Rightarrow> 'k \<Rightarrow> u16 \<Rightarrow> u16 \<Rightarrow> bytes \<Rightarrow> (io_error, nl_message list) result \<times> 'k" where
  "request kern k ty flags payload =
     (case kern k (nl_msg ty flags 1 payload) of
        (r, k') \<Rightarrow> (rbind r (\<lambda>replies. collect 1 replies []), k'))"

definition addr_change ::
  "'k kernel \<Rightarrow> 'k \<Rightarrow> u16 \<Rightarrow> u16 \<Rightarrow> u32 \<Rightarrow> ipv4 \<Rightarrow> (io_error, unit) result \<times> 'k" where
  "addr_change kern k ty flags idx ip =
     (case request kern k ty (flags OR NLM_F_ACK) (addr_payload idx ip) of
        (r, k') \<Rightarrow> (rbind r (\<lambda>_. Inr ()), k'))"

definition find_link :: "'k kernel \<Rightarrow> 'k \<Rightarrow> string \<Rightarrow> (vip_error, link) result \<times> 'k" where
  "find_link kern k iface =
     (case request kern k RTM_GETLINK NLM_F_DUMP (replicate 16 0) of
        (Inl e, k') \<Rightarrow> (Inl (NetlinkError e), k')
      | (Inr msgs, k') \<Rightarrow>
          (case parse_links msgs iface of
             None \<Rightarrow> (Inl NoInterface, k')
           | Some l \<Rightarrow> (Inr l, k')))"

text \<open>The choice \<open>interface_ipv4\<close> makes among an interface's addresses.\<close>

definition own_address :: "(ipv4 \<times> u8) list \<Rightarrow> ipv4 option" where
  "own_address addrs =
     map_option fst
       (case List.find (\<lambda>(_, len). len < 32) addrs of
          Some x \<Rightarrow> Some x
        | None \<Rightarrow> (case addrs of [] \<Rightarrow> None | x # _ \<Rightarrow> Some x))"

definition interface_ipv4 :: "'k kernel \<Rightarrow> 'k \<Rightarrow> string \<Rightarrow> (vip_error, ipv4) result \<times> 'k" where
  "interface_ipv4 kern k iface =
     (case find_link kern k iface of
        (Inl e, k1) \<Rightarrow> (Inl e, k1)
      | (Inr l, k1) \<Rightarrow>
          (case request kern k1 RTM_GETADDR NLM_F_DUMP (AF_INET # replicate 7 0) of
             (Inl e, k2) \<Rightarrow> (Inl (NetlinkError e), k2)
           | (Inr msgs, k2) \<Rightarrow>
               (case own_address (parse_addrs msgs (index l)) of
                  None \<Rightarrow> (Inl NoAddress, k2)
                | Some a \<Rightarrow> (Inr a, k2))))"

subsection \<open>The controller\<close>

text \<open>
  \<open>claim\<close> answers, beside its result, the announcement it starts: interface index and frame, sent
  three times by a thread of its own.
\<close>

definition claim ::
  "'k kernel \<Rightarrow> 'k \<Rightarrow> string \<Rightarrow> string \<Rightarrow> (vip_error, (u32 \<times> bytes) option) result \<times> 'k" where
  "claim kern k vip iface =
     (case parse_ipv4 vip of
        None \<Rightarrow> (Inl NotIpv4, k)
      | Some ip \<Rightarrow>
          (case find_link kern k iface of
             (Inl e, k1) \<Rightarrow> (Inl e, k1)
           | (Inr l, k1) \<Rightarrow>
               (case addr_change kern k1 RTM_NEWADDR (NLM_F_CREATE OR NLM_F_EXCL) (index l) ip of
                  (r, k2) \<Rightarrow>
                    (let announce = (if mac l \<noteq> replicate 6 0
                                     then Some (index l, garp_frame (mac l) ip) else None)
                     in (case r of
                           Inl e \<Rightarrow> (if e = Os EEXIST then Inr announce else Inl (NetlinkError e), k2)
                         | Inr _ \<Rightarrow> (Inr announce, k2))))))"

definition release :: "'k kernel \<Rightarrow> 'k \<Rightarrow> string \<Rightarrow> string \<Rightarrow> (vip_error, unit) result \<times> 'k" where
  "release kern k vip iface =
     (case parse_ipv4 vip of
        None \<Rightarrow> (Inl NotIpv4, k)
      | Some ip \<Rightarrow>
          (case find_link kern k iface of
             (Inl e, k1) \<Rightarrow> (Inl e, k1)
           | (Inr l, k1) \<Rightarrow>
               (case addr_change kern k1 RTM_DELADDR 0 (index l) ip of
                  (r, k2) \<Rightarrow>
                    (case r of
                       Inl e \<Rightarrow> (if e = Os EADDRNOTAVAIL then Inr () else Inl (NetlinkError e), k2)
                     | Inr u \<Rightarrow> (Inr u, k2)))))"

subsection \<open>Attributes on the wire\<close>

lemma align_facts: "n \<le> align n" "align n < n + 4" "4 dvd align n"
  unfolding align_def by presburger+

definition enc_attr :: "u16 \<times> bytes \<Rightarrow> bytes" where
  "enc_attr a =
     (case a of (t, d) \<Rightarrow>
        let len = 4 + length d
        in le16 (word_of_nat len) @ le16 t @ d @ replicate (align len - len) 0)"

definition attr_ok :: "u16 \<times> bytes \<Rightarrow> bool" where
  "attr_ok a \<longleftrightarrow> 4 + length (snd a) < 65536"

text \<open>The two top bits of a type are flags (nested, network order).\<close>

definition bare :: "u16 \<times> bytes \<Rightarrow> u16 \<times> bytes" where
  "bare a = (fst a AND 0x3fff, snd a)"

lemma u16_at_le16 [simp]: "u16_at (le16 w @ rest) 0 = w"
  by (simp add: u16_at_def le16_def wire)

lemma u32_at_le32 [simp]: "u32_at (le32 w @ rest) 0 = w"
  by (simp add: u32_at_def le32_def wire numeral_2_eq_2 numeral_3_eq_3)

lemma u16_at_skip: "length xs = n \<Longrightarrow> u16_at (xs @ ys) (n + i) = u16_at ys i"
  by (simp add: u16_at_def nth_append)

lemma u32_at_skip: "length xs = n \<Longrightarrow> u32_at (xs @ ys) (n + i) = u32_at ys i"
  by (simp add: u32_at_def nth_append)

lemma attrs_enc_attr:
  assumes "attr_ok a"
  shows "attrs (enc_attr a @ rest) = bare a # attrs rest"
proof (cases a)
  case (Pair t d)
  obtain w :: u16 where w: "w = word_of_nat (4 + length d)" by simp
  have len: "unat w = 4 + length d"
    using assms Pair unat_word16 [of "4 + length d"] by (simp add: w attr_ok_def)
  define pad :: bytes where "pad = replicate (align (4 + length d) - (4 + length d)) 0"
  have b: "enc_attr a @ rest = le16 w @ le16 t @ d @ pad @ rest"
    by (simp add: enc_attr_def Pair Let_def w pad_def)
  have padding: "align (4 + length d) = 4 + length d + length pad"
    using align_facts(1) [of "4 + length d"] by (simp add: pad_def)
  have "u16_at (enc_attr a @ rest) 0 = w" and "u16_at (enc_attr a @ rest) 2 = t"
    using u16_at_skip [of "le16 w" 2 _ 0] by (simp_all add: b)
  moreover have "take (4 + length d - 4) (drop 4 (enc_attr a @ rest)) = d"
    by (simp add: b)
  moreover have "drop (min (align (4 + length d)) (length (enc_attr a @ rest))) (enc_attr a @ rest) = rest"
    unfolding padding by (simp add: b)
  moreover have "4 + length d \<le> length (enc_attr a @ rest)"
    by (simp add: b)
  ultimately show ?thesis
    using len by (subst attrs.simps) (simp add: Let_def Pair bare_def)
qed

interpretation nl_attr: framed attr_ok enc_attr attrs bare
  by unfold_locales (simp add: attrs_enc_attr)

lemma attrs_Nil [simp]: "attrs [] = []"
  by (simp add: attrs.simps)

lemma attrs_concat: "\<forall>a \<in> set as. attr_ok a \<Longrightarrow> attrs (concat (map enc_attr as)) = map bare as"
  using nl_attr.units_concat [of as "[]"] by simp

subsection \<open>Messages on the wire\<close>

text \<open>A message with its flags field as given: what the kernel sends.\<close>

definition nl_frame :: "u16 \<Rightarrow> u16 \<Rightarrow> u32 \<Rightarrow> bytes \<Rightarrow> bytes" where
  "nl_frame ty flags seq payload =
     (let len = 16 + length payload
      in le32 (word_of_nat len) @ le16 ty @ le16 flags @ le32 seq @ le32 0
           @ payload @ replicate (align len - len) 0)"

lemma nl_msg_frame: "nl_msg ty flags seq payload = nl_frame ty (flags OR NLM_F_REQUEST) seq payload"
  by (simp add: nl_msg_def nl_frame_def)

lemma eat_frame:
  assumes "16 + length body < 4294967296"
  shows "eat seq (nl_frame ty flags mseq body @ rest) out =
    (if mseq \<noteq> seq then eat seq rest out
     else if ty = NLMSG_DONE then Return (Inr out)
     else if ty = NLMSG_ERROR
     then (let err = (if 4 \<le> length body then u32_at body 0 else 0)
           in Return (if err = 0 then Inr out else Inl (Os (sint (- err)))))
     else eat seq rest (out @ [(ty, body)]))"
proof -
  obtain w :: u32 where w: "w = word_of_nat (16 + length body)" by simp
  have len: "unat w = 16 + length body"
    using assms unat_word32 [of "16 + length body"] by (simp add: w)
  define pad :: bytes where "pad = replicate (align (16 + length body) - (16 + length body)) 0"
  let ?b = "nl_frame ty flags mseq body @ rest"
  have b: "?b = le32 w @ le16 ty @ le16 flags @ le32 mseq @ le32 0 @ body @ pad @ rest"
    by (simp add: nl_frame_def Let_def w pad_def)
  have padding: "align (16 + length body) = 16 + length body + length pad"
    using align_facts(1) [of "16 + length body"] by (simp add: pad_def)
  have "u32_at ?b 0 = w" and "u16_at ?b 4 = ty"
    using u16_at_skip [of "le32 w" 4 _ 0] by (simp_all add: b)
  moreover have "u32_at ?b 8 = mseq"
    using u32_at_skip [of "le32 w @ le16 ty @ le16 flags" 8 _ 0] by (simp add: b)
  moreover have "take (16 + length body - 16) (drop 16 ?b) = body"
    by (simp add: b)
  moreover have "drop (min (align (16 + length body)) (length ?b)) ?b = rest"
    unfolding padding by (simp add: b)
  moreover have "16 + length body \<le> length ?b"
    by (simp add: b)
  ultimately show ?thesis
    using len by (subst eat.simps) (simp add: Let_def)
qed

definition ack_frame :: "u32 \<Rightarrow> bytes \<Rightarrow> bytes" where
  "ack_frame err echo = nl_frame NLMSG_ERROR 0 1 (le32 err @ echo)"

lemma eat_ack:
  assumes "length echo < 4294967000"
  shows "eat 1 (ack_frame err echo) out =
    Return (if err = 0 then Inr out else Inl (Os (sint (- err))))"
  using eat_frame [of "le32 err @ echo" 1 NLMSG_ERROR 0 1 "[]" out] assms
  by (simp add: ack_frame_def NLMSG_ERROR_def NLMSG_DONE_def)

text \<open>A datagram is any number of messages: type, flags, sequence number and payload.\<close>

type_synonym wire_message = "u16 \<times> u16 \<times> u32 \<times> bytes"

definition datagram :: "wire_message list \<Rightarrow> bytes" where
  "datagram ws = concat (map (\<lambda>(ty, flags, seq, body). nl_frame ty flags seq body) ws)"

definition datagram_ok :: "wire_message list \<Rightarrow> bool" where
  "datagram_ok ws \<longleftrightarrow> length (datagram ws) \<le> 65536 \<and> list_all (\<lambda>(_, _, _, body). 16 + length body < 4294967296) ws"

text \<open>The messages of request 1 among them, and the reply loop on such messages.\<close>

definition ours :: "wire_message list \<Rightarrow> nl_message list" where
  "ours ws = map (\<lambda>(ty, _, _, body). (ty, body)) (filter (\<lambda>(_, _, seq, _). seq = 1) ws)"

fun hear :: "nl_message list \<Rightarrow> nl_message list \<Rightarrow> progress" where
  "hear [] out = ReadOn out"
| "hear ((ty, body) # ms) out =
     (if ty = NLMSG_DONE then Return (Inr out)
      else if ty = NLMSG_ERROR
      then (let err = (if 4 \<le> length body then u32_at body 0 else 0)
            in Return (if err = 0 then Inr out else Inl (Os (sint (- err)))))
      else hear ms (out @ [(ty, body)]))"

definition plain :: "nl_message \<Rightarrow> bool" where
  "plain m \<longleftrightarrow> fst m \<noteq> NLMSG_DONE \<and> fst m \<noteq> NLMSG_ERROR"

lemma hear_plain: "list_all plain ms \<Longrightarrow> hear (ms @ extra) out = hear extra (out @ ms)"
  by (induction ms arbitrary: out) (auto simp: plain_def)

lemma hear_append:
  "hear (ms @ extra) out = (case hear ms out of Return r \<Rightarrow> Return r | ReadOn out' \<Rightarrow> hear extra out')"
  by (induction ms out rule: hear.induct) (auto simp: Let_def)

lemma ours_append [simp]: "ours (ws @ ws') = ours ws @ ours ws'"
  by (simp add: ours_def)

lemma eat_datagram:
  "list_all (\<lambda>(_, _, _, body). 16 + length body < 4294967296) ws \<Longrightarrow> eat 1 (datagram ws) out = hear (ours ws) out"
proof (induction ws arbitrary: out)
  case Nil
  then show ?case by (simp add: datagram_def ours_def eat.simps)
next
  case (Cons w ws)
  obtain ty flags seq body where w: "w = (ty, flags, seq, body)" by (metis prod.exhaust)
  have "eat 1 (datagram (w # ws)) out = eat 1 (nl_frame ty flags seq body @ datagram ws) out"
    by (simp add: datagram_def w)
  then show ?case
    using Cons by (simp add: eat_frame w ours_def)
qed

lemma collect_datagrams:
  "list_all datagram_ok ds \<Longrightarrow> collect 1 (map (\<lambda>d. Inr (datagram d)) ds @ extra) out =
     (case hear (ours (concat ds)) out of Return r \<Rightarrow> r | ReadOn out' \<Rightarrow> collect 1 extra out')"
proof (induction ds arbitrary: out)
  case (Cons d ds)
  then show ?case
    by (auto simp: eat_datagram datagram_ok_def hear_append split: progress.split)
qed (simp add: ours_def)

text \<open>How the answer to a request ends: the dump is done, the request is acknowledged (zero) or refused
  (a negative errno), or a call fails before, the two seconds of silence among them.\<close>

datatype nl_end = Finished | Acked u32 | Broken io_error

definition answers ::
  "(io_error, (io_error, bytes) result list) result \<Rightarrow> nl_message list \<Rightarrow> nl_end \<Rightarrow> bool"
where
  "answers r ms fin \<longleftrightarrow> (case r of
     Inl e \<Rightarrow> fin = Broken e
   | Inr replies \<Rightarrow> list_all plain ms \<and> (\<exists>ds extra. replies = map (\<lambda>d. Inr (datagram d)) ds @ extra \<and> list_all datagram_ok ds
       \<and> (case fin of
            Finished \<Rightarrow> \<exists>body rest. ours (concat ds) = ms @ (NLMSG_DONE, body) # rest
          | Acked e \<Rightarrow> \<exists>echo rest. ours (concat ds) = ms @ (NLMSG_ERROR, le32 e @ echo) # rest
          | Broken e \<Rightarrow> ours (concat ds) = ms \<and> (extra = [] \<and> e = Os EAGAIN \<or> (\<exists>later. extra = Inl e # later)))))"

lemma collect_answers:
  assumes "answers r ms fin"
  shows "rbind r (\<lambda>replies. collect 1 replies []) =
    (case fin of Finished \<Rightarrow> Inr ms | Acked e \<Rightarrow> (if e = 0 then Inr ms else Inl (Os (sint (- e)))) | Broken e \<Rightarrow> Inl e)"
proof (cases r)
  case (Inl e)
  then show ?thesis using assms by (simp add: answers_def rbind_def)
next
  case (Inr replies)
  then obtain ds extra where r: "replies = map (\<lambda>d. Inr (datagram d)) ds @ extra" "list_all datagram_ok ds"
    and plain: "list_all plain ms" and ends: "case fin of
        Finished \<Rightarrow> \<exists>body rest. ours (concat ds) = ms @ (NLMSG_DONE, body) # rest
      | Acked e \<Rightarrow> \<exists>echo rest. ours (concat ds) = ms @ (NLMSG_ERROR, le32 e @ echo) # rest
      | Broken e \<Rightarrow> ours (concat ds) = ms \<and> (extra = [] \<and> e = Os EAGAIN \<or> (\<exists>later. extra = Inl e # later))"
    using assms by (auto simp: answers_def)
  have "hear ms [] = ReadOn ms" using hear_plain [OF plain, of "[]" "[]"] by simp
  then show ?thesis
    using ends unfolding Inr r(1)
    by (cases fin) (auto simp: rbind_def collect_datagrams [OF r(2)] hear_plain [OF plain] NLMSG_DONE_def NLMSG_ERROR_def)
qed

subsection \<open>Links and addresses, as the kernel reports them\<close>

text \<open>A name of at most 15 bytes without NUL, and a six-byte hardware address (zero for \<open>lo\<close>).\<close>

definition link_ok :: "string \<times> link \<Rightarrow> bool" where
  "link_ok nl \<longleftrightarrow>
     length (fst nl) \<le> 15 \<and> CHR 0x00 \<notin> set (fst nl) \<and> length (mac (snd nl)) = 6"

text \<open>The attributes of a link: its name, and a hardware address; others are skipped.\<close>

definition names :: "u16 \<times> bytes \<Rightarrow> bool" where
  "names a \<longleftrightarrow> fst a = IFLA_IFNAME"

definition addresses :: "u16 \<times> bytes \<Rightarrow> bool" where
  "addresses a \<longleftrightarrow> fst a = IFLA_ADDRESS \<and> length (snd a) = 6"

text \<open>RTM_NEWLINK as rtnetlink(7) has it: an \<open>ifinfomsg\<close> with the index, then the attributes in any
  order, one of them the name, and an address unless the interface has none of Ethernet's length.\<close>

definition link_message :: "string \<times> link \<Rightarrow> nl_message \<Rightarrow> bool" where
  "link_message nl m \<longleftrightarrow> fst m = RTM_NEWLINK \<and> (\<exists>h t as. length h = 4 \<and> length t = 8
     \<and> snd m = h @ le32 (index (snd nl)) @ t @ concat (map enc_attr as) \<and> list_all attr_ok as
     \<and> filter names (map bare as) = [(IFLA_IFNAME, map of_char (fst nl) @ [0])]
     \<and> (filter addresses (map bare as) = [(IFLA_ADDRESS, mac (snd nl))]
        \<or> filter addresses (map bare as) = [] \<and> mac (snd nl) = replicate 6 0))"

lemma unat_of_char: "unat (of_char c :: u8) = byte c"
proof -
  have "(of_char c :: u8) = word_of_nat (byte c)"
    by (simp add: byte_def of_nat_of_char)
  then show ?thesis
    using byte_less [of c] by (simp only: unsigned_of_nat) (simp add: take_bit_nat_eq_self_iff)
qed

lemma of_char_u8_inj: "(of_char c :: u8) = of_char d \<longleftrightarrow> c = d"
  by (metis unat_of_char byte_inj)

lemma of_char_u8_zero: "(of_char c :: u8) = 0 \<longleftrightarrow> c = CHR 0x00"
  using of_char_u8_inj [of c "CHR 0x00"] by simp

lemma hd_split_name:
  "CHR 0x00 \<notin> set n \<Longrightarrow> hd (split_on (0 :: u8) (map of_char n @ [0])) = map of_char n"
proof -
  assume "CHR 0x00 \<notin> set n"
  then have "(0 :: u8) \<notin> set (map of_char n)"
    by (auto simp: of_char_u8_zero dest: sym)
  from split_on_sep [OF this, of "[]"] show ?thesis by simp
qed

lemma map_of_char_inj: "map (of_char :: char \<Rightarrow> u8) m = map of_char n \<longleftrightarrow> m = n"
  by (rule inj_map_eq_map) (simp add: inj_on_def of_char_u8_inj)

lemma link_attrs_filters:
  "fst (link_attrs name as found hw) = fst (link_attrs name (filter names as) found hw')"
  "snd (link_attrs name as found hw) = snd (link_attrs name (filter addresses as) found' hw)"
proof (induction "as" arbitrary: found hw found' hw')
  case (Cons a "as")
  { case 1 then show ?case
      using Cons(1) by (cases a) (auto simp: names_def)
  next
    case 2 then show ?case
      using Cons(2) by (cases a) (auto simp: addresses_def IFLA_IFNAME_def IFLA_ADDRESS_def)
  }
qed simp_all

lemma link_attrs_message:
  assumes "link_ok nl" and "filter names as = [(IFLA_IFNAME, map of_char (fst nl) @ [0])]"
    and "filter addresses as = [(IFLA_ADDRESS, mac (snd nl))] \<or> filter addresses as = [] \<and> mac (snd nl) = replicate 6 0"
  shows "link_attrs name as False (replicate 6 0) = (fst nl = name, mac (snd nl))"
proof (rule prod_eqI)
  show "fst (link_attrs name as False (replicate 6 0)) = fst (fst nl = name, mac (snd nl))"
    using link_attrs_filters(1) [of name "as" False _ "[]"] assms(1,2)
    by (simp add: hd_split_name link_ok_def map_of_char_inj)
  show "snd (link_attrs name as False (replicate 6 0)) = snd (fst nl = name, mac (snd nl))"
    using link_attrs_filters(2) [of name "as" False "replicate 6 0" False] assms(1,3)
    by (auto simp: link_ok_def IFLA_IFNAME_def IFLA_ADDRESS_def)
qed

lemma parse_link_message:
  assumes "link_ok nl" and "link_message nl m"
  shows "parse_links (m # msgs) name = (if fst nl = name then Some (snd nl) else parse_links msgs name)"
proof -
  obtain h t "as" where m: "m = (RTM_NEWLINK, h @ le32 (index (snd nl)) @ t @ concat (map enc_attr as))"
    and len: "length h = 4" "length t = 8" and ok: "list_all attr_ok as"
    and f: "filter names (map bare as) = [(IFLA_IFNAME, map of_char (fst nl) @ [0])]"
      "filter addresses (map bare as) = [(IFLA_ADDRESS, mac (snd nl))]
        \<or> filter addresses (map bare as) = [] \<and> mac (snd nl) = replicate 6 0"
    using assms(2) by (cases m) (auto simp: link_message_def)
  have "attrs (drop 16 (snd m)) = map bare as"
    using ok len by (simp add: m attrs_concat list_all_iff)
  moreover have "u32_at (snd m) 4 = index (snd nl)"
    using u32_at_skip [of h 4 _ 0] len by (simp add: m)
  moreover have "16 \<le> length (snd m)" using len by (simp add: m)
  ultimately show ?thesis
    using link_attrs_message [OF assms(1) f, of name] by (cases m) (simp add: m)
qed

lemma parse_links_listed:
  "list_all2 link_message ls ms \<Longrightarrow> list_all link_ok ls \<Longrightarrow> parse_links ms name = map_of ls name"
proof (induction ls ms rule: list_all2_induct)
  case (Cons nl ls m ms)
  then show ?case using parse_link_message [of nl m ms name] by (cases nl) (simp del: parse_links.simps)
qed simp

text \<open>An address as the kernel reports it; with length 32, also what \<open>claim\<close> asks it to add.\<close>

definition addr_body :: "u32 \<Rightarrow> ipv4 \<Rightarrow> u8 \<Rightarrow> bytes" where
  "addr_body i a len =
     [AF_INET, len, 0, 0] @ le32 i
       @ concat (map enc_attr [(IFA_LOCAL, octets a), (IFA_ADDRESS, octets a)])"

lemma addr_payload_body: "addr_payload i a = addr_body i a 32"
  by (simp add: addr_payload_def addr_body_def enc_attr_def Let_def align_def)

lemma parse_addrs_body:
  "parse_addrs ((RTM_NEWADDR, addr_body i a len) # msgs) idx =
     (if i = idx then (a, len) # parse_addrs msgs idx else parse_addrs msgs idx)"
proof -
  let ?as = "[(IFA_LOCAL, octets a), (IFA_ADDRESS, octets a)]"
  have "drop 8 (addr_body i a len) = concat (map enc_attr ?as)"
    by (simp add: addr_body_def)
  moreover have "\<forall>x \<in> set ?as. attr_ok x"
    by (simp add: attr_ok_def IFA_LOCAL_def IFA_ADDRESS_def)
  ultimately have "attrs (drop 8 (addr_body i a len)) = ?as"
    by (simp only: attrs_concat) (simp add: bare_def IFA_LOCAL_def IFA_ADDRESS_def)
  moreover have "u32_at (addr_body i a len) 4 = i"
    using u32_at_skip [of "[AF_INET, len, 0, 0]" 4 _ 0] by (simp add: addr_body_def)
  ultimately show ?thesis
    by (cases a) (simp add: addr_body_def IFA_LOCAL_def IFA_ADDRESS_def)
qed

definition addrs_dump :: "(u32 \<times> ipv4 \<times> u8) list \<Rightarrow> nl_message list" where
  "addrs_dump es = map (\<lambda>(i, a, len). (RTM_NEWADDR, addr_body i a len)) es"

lemma parse_addrs_dump: "parse_addrs (addrs_dump es) idx = map snd (filter (\<lambda>e. fst e = idx) es)"
  by (induction es) (auto simp: addrs_dump_def parse_addrs_body simp del: parse_addrs.simps(2))

subsection \<open>The kernel's side of the contract\<close>

text \<open>
  What netlink(7) and rtnetlink(7) document of the requests this code makes, for a state of which \<open>links\<close>
  and \<open>addrs\<close> read the interfaces and the /32 addresses.  Any call may fail and any request be refused.
  A dump that finishes has one message for each interface, in datagrams of any cut, and changes nothing.  A
  change of an address that is acknowledged has been made, one that is refused has not; of one whose
  answer is lost neither is known.  EEXIST says that the address is there, EADDRNOTAVAIL that it is not; they
  are answers to requests and not failures of a call on the socket.
\<close>

definition lists_links ::
  "'k kernel \<Rightarrow> ('k \<Rightarrow> (string \<times> link) list) \<Rightarrow> ('k \<Rightarrow> (u32 \<times> ipv4) set) \<Rightarrow> bool" where
  "lists_links kern links addrs \<longleftrightarrow> (\<forall>k r k'.
     kern k (nl_msg RTM_GETLINK NLM_F_DUMP 1 (replicate 16 0)) = (r, k') \<longrightarrow>
       links k' = links k \<and> addrs k' = addrs k
     \<and> (\<exists>ms fin. answers r ms fin \<and> (case fin of
          Finished \<Rightarrow> list_all2 link_message (links k) ms
        | Acked e \<Rightarrow> e \<noteq> 0
        | Broken _ \<Rightarrow> True)))"

text \<open>A change of type \<open>ty\<close>: \<open>done\<close> is what it makes of the addresses, \<open>refusal\<close> the errno that says it is so
  already.\<close>

definition changes_address ::
  "'k kernel \<Rightarrow> ('k \<Rightarrow> (string \<times> link) list) \<Rightarrow> ('k \<Rightarrow> (u32 \<times> ipv4) set) \<Rightarrow> u16 \<Rightarrow> u16
     \<Rightarrow> (u32 \<times> ipv4 \<Rightarrow> (u32 \<times> ipv4) set \<Rightarrow> (u32 \<times> ipv4) set) \<Rightarrow> int \<Rightarrow> bool" where
  "changes_address kern links addrs ty flags change refusal \<longleftrightarrow> (\<forall>k i a r k'.
     kern k (nl_msg ty (flags OR NLM_F_ACK) 1 (addr_payload i a)) = (r, k') \<longrightarrow>
       links k' = links k
     \<and> (\<exists>fin. answers r [] fin \<and> (case fin of
          Finished \<Rightarrow> False
        | Acked e \<Rightarrow> (if e = 0 then addrs k' = change (i, a) (addrs k)
                    else addrs k' = addrs k \<and> (sint (- e) = refusal \<longrightarrow> change (i, a) (addrs k) = addrs k))
        | Broken e \<Rightarrow> addrs k' \<in> {addrs k, change (i, a) (addrs k)} \<and> e \<noteq> Os refusal)))"

definition rtnetlink ::
  "'k kernel \<Rightarrow> ('k \<Rightarrow> (string \<times> link) list) \<Rightarrow> ('k \<Rightarrow> (u32 \<times> ipv4) set) \<Rightarrow> bool" where
  "rtnetlink kern links addrs \<longleftrightarrow> (\<forall>k. list_all link_ok (links k))
     \<and> lists_links kern links addrs
     \<and> changes_address kern links addrs RTM_NEWADDR (NLM_F_CREATE OR NLM_F_EXCL) insert EEXIST
     \<and> changes_address kern links addrs RTM_DELADDR 0 (\<lambda>x xs. xs - {x}) EADDRNOTAVAIL"

lemma find_link_kernel:
  assumes "rtnetlink kern links addrs" and "find_link kern k iface = (r, k')"
  shows "links k' = links k" "addrs k' = addrs k" "r = Inr l \<Longrightarrow> map_of (links k) iface = Some l"
proof -
  have ok: "list_all link_ok (links k)" and lists: "lists_links kern links addrs"
    using assms(1) by (simp_all add: rtnetlink_def)
  obtain q k1 where q: "kern k (nl_msg RTM_GETLINK NLM_F_DUMP 1 (replicate 16 0)) = (q, k1)" by fastforce
  obtain ms fin where a: "links k1 = links k" "addrs k1 = addrs k" "answers q ms fin"
    and fin: "case fin of Finished \<Rightarrow> list_all2 link_message (links k) ms | Acked e \<Rightarrow> e \<noteq> 0 | Broken _ \<Rightarrow> True"
    using lists q unfolding lists_links_def by blast
  have k': "k' = k1 \<and> (\<forall>l. r = Inr l \<longrightarrow> fin = Finished \<and> parse_links ms iface = Some l)"
    using assms(2) collect_answers [OF a(3)] fin
    by (auto simp: find_link_def request_def q split: nl_end.splits if_splits option.splits sum.splits)
  with a show "links k' = links k" "addrs k' = addrs k" by simp_all
  show "map_of (links k) iface = Some l" if "r = Inr l"
    using k' that fin parse_links_listed [OF _ ok, of ms iface] by simp
qed

lemma addr_change_kernel:
  assumes "changes_address kern links addrs ty flags change refusal" and "addr_change kern k ty flags i a = (r, k')"
  shows "links k' = links k" "addrs k' \<in> {addrs k, change (i, a) (addrs k)}"
    "r = Inr u \<or> r = Inl (Os refusal) \<Longrightarrow> addrs k' = change (i, a) (addrs k)"
proof -
  obtain q k1 where q: "kern k (nl_msg ty (flags OR NLM_F_ACK) 1 (addr_payload i a)) = (q, k1)" by fastforce
  obtain fin where a: "links k1 = links k" "answers q [] fin"
    and fin: "case fin of
        Finished \<Rightarrow> False
      | Acked e \<Rightarrow> (if e = 0 then addrs k1 = change (i, a) (addrs k)
                  else addrs k1 = addrs k \<and> (sint (- e) = refusal \<longrightarrow> change (i, a) (addrs k) = addrs k))
      | Broken e \<Rightarrow> addrs k1 \<in> {addrs k, change (i, a) (addrs k)} \<and> e \<noteq> Os refusal"
    using assms(1) q unfolding changes_address_def by blast
  have k': "k' = k1" "r = rbind q (\<lambda>replies. rbind (collect 1 replies []) (\<lambda>_. Inr ()))"
    using assms(2) by (auto simp: addr_change_def request_def q rbind_def split: sum.splits)
  then have r: "r = rbind (rbind q (\<lambda>replies. collect 1 replies [])) (\<lambda>_. Inr ())"
    by (simp add: rbind_def split: sum.splits)
  show "links k' = links k" using k' a by simp
  show "addrs k' \<in> {addrs k, change (i, a) (addrs k)}"
    using k'(1) fin by (auto split: nl_end.splits if_splits)
  show "addrs k' = change (i, a) (addrs k)" if "r = Inr u \<or> r = Inl (Os refusal)"
    using that r k'(1) fin unfolding collect_answers [OF a(2)]
    by (auto simp: rbind_def split: nl_end.splits if_splits)
qed

text \<open>What \<open>claim\<close> and \<open>release\<close> may do, and what their success says.\<close>

definition on_link :: "(string \<times> link) list \<Rightarrow> string \<Rightarrow> ipv4 \<Rightarrow> (u32 \<times> ipv4) set" where
  "on_link ls iface a = (case map_of ls iface of None \<Rightarrow> {} | Some l \<Rightarrow> {(index l, a)})"

lemma claim_kernel:
  assumes "rtnetlink kern links addrs" and "claim kern k (show_ipv4 ip) iface = (r, k')"
  shows "links k' = links k" "addrs k' \<in> {addrs k, addrs k \<union> on_link (links k) iface ip}"
    "r = Inr job \<Longrightarrow> \<exists>l. map_of (links k) iface = Some l \<and> addrs k' = insert (index l, ip) (addrs k)
       \<and> job = (if mac l \<noteq> replicate 6 0 then Some (index l, garp_frame (mac l) ip) else None)"
proof -
  obtain q k1 where q: "find_link kern k iface = (q, k1)" by fastforce
  note link = find_link_kernel [OF assms(1) q]
  have adds: "changes_address kern links addrs RTM_NEWADDR (NLM_F_CREATE OR NLM_F_EXCL) insert EEXIST"
    using assms(1) by (simp add: rtnetlink_def)
  have "links k' = links k \<and> addrs k' \<in> {addrs k, addrs k \<union> on_link (links k) iface ip} \<and> (r = Inr job \<longrightarrow>
     (\<exists>l. map_of (links k) iface = Some l \<and> addrs k' = insert (index l, ip) (addrs k)
       \<and> job = (if mac l \<noteq> replicate 6 0 then Some (index l, garp_frame (mac l) ip) else None)))"
  proof (cases q)
    case (Inl e)
    then show ?thesis using assms(2) link(1,2) by (auto simp: claim_def q)
  next
    case (Inr l)
    obtain c k2 where c: "addr_change kern k1 RTM_NEWADDR (NLM_F_CREATE OR NLM_F_EXCL) (index l) ip = (c, k2)"
      by fastforce
    note change = addr_change_kernel [OF adds c]
    have "k' = k2" and "r = Inr job \<Longrightarrow> (c = Inr () \<or> c = Inl (Os EEXIST))
        \<and> job = (if mac l \<noteq> replicate 6 0 then Some (index l, garp_frame (mac l) ip) else None)"
      using assms(2) by (auto simp: claim_def q Inr c Let_def split: sum.splits if_splits)
    then show ?thesis
      using link(1,2) link(3) [OF Inr] change by (auto simp: on_link_def)
  qed
  then show "links k' = links k" "addrs k' \<in> {addrs k, addrs k \<union> on_link (links k) iface ip}"
    "r = Inr job \<Longrightarrow> \<exists>l. map_of (links k) iface = Some l \<and> addrs k' = insert (index l, ip) (addrs k)
       \<and> job = (if mac l \<noteq> replicate 6 0 then Some (index l, garp_frame (mac l) ip) else None)"
    by blast+
qed

lemma release_kernel:
  assumes "rtnetlink kern links addrs" and "release kern k (show_ipv4 ip) iface = (r, k')"
  shows "links k' = links k" "addrs k' \<in> {addrs k, addrs k - on_link (links k) iface ip}"
    "r = Inr u \<Longrightarrow> \<exists>l. map_of (links k) iface = Some l \<and> addrs k' = addrs k - {(index l, ip)}"
proof -
  obtain q k1 where q: "find_link kern k iface = (q, k1)" by fastforce
  note link = find_link_kernel [OF assms(1) q]
  have deletes: "changes_address kern links addrs RTM_DELADDR 0 (\<lambda>x xs. xs - {x}) EADDRNOTAVAIL"
    using assms(1) by (simp add: rtnetlink_def)
  have "links k' = links k \<and> addrs k' \<in> {addrs k, addrs k - on_link (links k) iface ip} \<and> (r = Inr u \<longrightarrow>
     (\<exists>l. map_of (links k) iface = Some l \<and> addrs k' = addrs k - {(index l, ip)}))"
  proof (cases q)
    case (Inl e)
    then show ?thesis using assms(2) link(1,2) by (auto simp: release_def q)
  next
    case (Inr l)
    obtain c k2 where c: "addr_change kern k1 RTM_DELADDR 0 (index l) ip = (c, k2)" by fastforce
    note change = addr_change_kernel [OF deletes c]
    have "k' = k2" and "r = Inr u \<Longrightarrow> c = Inr () \<or> c = Inl (Os EADDRNOTAVAIL)"
      using assms(2) by (auto simp: release_def q Inr c split: sum.splits if_splits)
    then show ?thesis
      using link(1,2) link(3) [OF Inr] change by (auto simp: on_link_def)
  qed
  then show "links k' = links k" "addrs k' \<in> {addrs k, addrs k - on_link (links k) iface ip}"
    "r = Inr u \<Longrightarrow> \<exists>l. map_of (links k) iface = Some l \<and> addrs k' = addrs k - {(index l, ip)}"
    by blast+
qed

subsection \<open>A kernel for the witnesses\<close>

definition demo_links :: "(string \<times> link) list" where
  "demo_links = [(''lo'', \<lparr>index = 1, mac = [0, 0, 0, 0, 0, 0]\<rparr>), (''eth0'', \<lparr>index = 2, mac = [2, 0, 0, 0, 0, 1]\<rparr>)]"

text \<open>A link's message: flags and an MTU (type 4) beside what is asked for.\<close>

definition demo_link_message :: "string \<times> link \<Rightarrow> nl_message" where
  "demo_link_message nl =
     (RTM_NEWLINK, replicate 4 0 @ le32 (index (snd nl)) @ [0x43, 0, 1, 0, 0, 0, 0, 0]
        @ concat (map enc_attr [(IFLA_IFNAME, map of_char (fst nl) @ [0]), (4, [0xdc, 5, 0, 0]), (IFLA_ADDRESS, mac (snd nl))]))"

definition demo_datagrams :: "wire_message list list" where
  "demo_datagrams = map (\<lambda>nl. [(RTM_NEWLINK, 2, 1, snd (demo_link_message nl))]) demo_links @ [[(NLMSG_DONE, 2, 1, [0, 0, 0, 0])]]"

definition demo_index :: "u32 \<Rightarrow> bool" where
  "demo_index i \<longleftrightarrow> i \<in> (index \<circ> snd) ` set demo_links"

text \<open>The dump comes in three datagrams; an interface that is not there is ENODEV.\<close>

definition demo_kernel :: "(u32 \<times> ipv4) list kernel" where
  "demo_kernel k req =
     (let ty = u16_at req 4; i = u32_at req 20;
          a = Ipv4 (req ! 28) (req ! 29) (req ! 30) (req ! 31);
          ack = (\<lambda>e. Inr [Inr (datagram [(NLMSG_ERROR, 0, 1, le32 e @ take 16 req)])])
      in if ty = RTM_GETLINK then (Inr (map (\<lambda>d. Inr (datagram d)) demo_datagrams), k)
         else if \<not> demo_index i then (ack (- 19), k)
         else if ty = RTM_NEWADDR
         then (ack (if (i, a) \<in> set k then - 17 else 0), List.insert (i, a) k)
         else if ty = RTM_DELADDR
         then (ack (if (i, a) \<in> set k then 0 else - 99), removeAll (i, a) k)
         else (ack (- 95), k))"

lemma request_fields:
  "u16_at (nl_msg ty flags seq payload) 4 = ty"
  "u32_at (nl_msg ty flags seq (addr_payload i a)) 20 = i"
  "j < 4 \<Longrightarrow> nl_msg ty flags seq (addr_payload i a) ! (28 + j) = octets a ! j"
proof -
  obtain l :: bytes and rest where m: "nl_msg ty flags seq payload = l @ le16 ty @ rest" "length l = 4"
    unfolding nl_msg_def Let_def by (metis length_codecs(3))
  then show "u16_at (nl_msg ty flags seq payload) 4 = ty"
    using u16_at_skip [of l 4 _ 0] by simp
  have hdr: "\<exists>h t. nl_msg ty flags seq p = h @ p @ t \<and> length h = 16" for p
    unfolding nl_msg_def Let_def
    by (intro exI [of _ "le32 w @ le16 ty @ le16 (flags OR NLM_F_REQUEST) @ le32 seq @ le32 0" for w] exI) auto
  obtain h t where h: "nl_msg ty flags seq (addr_payload i a) = h @ addr_payload i a @ t" "length h = 16"
    using hdr by blast
  show "u32_at (nl_msg ty flags seq (addr_payload i a)) 20 = i"
    using h u32_at_skip [of "h @ [AF_INET, 32, 0, 0]" 20 _ 0] by (simp add: addr_payload_def)
  show "nl_msg ty flags seq (addr_payload i a) ! (28 + j) = octets a ! j" if "j < 4"
    using h that by (simp add: addr_payload_def nth_append)
qed

lemma addr_request_fields:
  assumes "m = nl_msg ty flags seq (addr_payload i a)"
  shows "u16_at m 4 = ty" "u32_at m 20 = i" "Ipv4 (m ! 28) (m ! 29) (m ! 30) (m ! 31) = a"
proof -
  show "u16_at m 4 = ty" "u32_at m 20 = i" using request_fields assms by simp_all
  show "Ipv4 (m ! 28) (m ! 29) (m ! 30) (m ! 31) = a"
    using request_fields(3) [of 0 ty flags seq i a] request_fields(3) [of 1 ty flags seq i a]
      request_fields(3) [of 2 ty flags seq i a] request_fields(3) [of 3 ty flags seq i a] assms
    by (cases a) simp
qed

lemma length_nl_frame: "length (nl_frame ty flags seq body) \<le> 20 + length body"
  using align_facts(2) [of "16 + length body"] by (simp add: nl_frame_def Let_def)

lemma one_message:
  "16 + length body \<le> 65530 \<Longrightarrow> datagram_ok [(ty, flags, seq, body)]"
  using length_nl_frame [of ty flags seq body] by (simp add: datagram_ok_def datagram_def)

lemma answers_ack:
  assumes "length echo \<le> 1024"
  shows "answers (Inr [Inr (datagram [(NLMSG_ERROR, 0, 1, le32 e @ echo)])]) [] (Acked e)"
  unfolding answers_def
  by (simp, rule exI [of _ "[[(NLMSG_ERROR, 0, 1, le32 e @ echo)]]"]) (use assms one_message in \<open>simp add: ours_def\<close>)

lemma demo_link_message:
  assumes "link_ok nl"
  shows "link_message nl (demo_link_message nl)"
proof -
  let ?as = "[(IFLA_IFNAME, map of_char (fst nl) @ [0]), (4, [0xdc, 5, 0, 0]), (IFLA_ADDRESS, mac (snd nl))]"
  have "filter names (map bare ?as) = [(IFLA_IFNAME, map of_char (fst nl) @ [0])]"
    "filter addresses (map bare ?as) = [(IFLA_ADDRESS, mac (snd nl))]" "list_all attr_ok ?as"
    using assms by (simp_all add: names_def addresses_def bare_def attr_ok_def link_ok_def IFLA_IFNAME_def IFLA_ADDRESS_def)
  then show ?thesis
    unfolding link_message_def demo_link_message_def fst_conv snd_conv
    by (intro conjI refl exI [of _ "replicate 4 0"] exI [of _ "[0x43, 0, 1, 0, 0, 0, 0, 0]"] exI [of _ ?as]) simp_all
qed

lemma demo_links_ok: "list_all link_ok demo_links"
  by (simp add: demo_links_def link_ok_def)

lemma length_enc_attr: "length (enc_attr (t, d)) \<le> 8 + length d"
  using align_facts(2) [of "4 + length d"] by (simp add: enc_attr_def Let_def)

lemma demo_dump: "answers (Inr (map (\<lambda>d. Inr (datagram d)) demo_datagrams)) (map demo_link_message demo_links) Finished"
proof -
  have "list_all datagram_ok demo_datagrams"
    using length_enc_attr
    by (auto simp: demo_datagrams_def demo_links_def demo_link_message_def list_all_iff enc_attr_def align_def Let_def
        intro!: one_message)
  moreover have "ours (concat demo_datagrams) = map demo_link_message demo_links @ (NLMSG_DONE, [0, 0, 0, 0]) # []"
    by (simp add: demo_datagrams_def demo_links_def ours_def demo_link_message_def)
  moreover have "list_all plain (map demo_link_message demo_links)"
    by (simp add: demo_links_def demo_link_message_def plain_def RTM_NEWLINK_def NLMSG_DONE_def NLMSG_ERROR_def)
  ultimately show ?thesis
    unfolding answers_def by (simp, intro exI [of _ demo_datagrams]) auto
qed

lemma demo_kernel: "rtnetlink demo_kernel (\<lambda>_. demo_links) set"
proof -
  have "lists_links demo_kernel (\<lambda>_. demo_links) set"
    unfolding lists_links_def
  proof (intro allI impI conjI)
    fix k r k'
    assume "demo_kernel k (nl_msg RTM_GETLINK NLM_F_DUMP 1 (replicate 16 0)) = (r, k')"
    then have "r = Inr (map (\<lambda>d. Inr (datagram d)) demo_datagrams)" "k' = k"
      by (simp_all add: demo_kernel_def request_fields(1) Let_def)
    moreover have "list_all2 link_message demo_links (map demo_link_message demo_links)"
      using demo_links_ok demo_link_message by (simp add: list_all2_conv_all_nth list_all_length)
    ultimately show "demo_links = demo_links" "set k' = set k" "\<exists>ms fin. answers r ms fin \<and> (case fin of
        Finished \<Rightarrow> list_all2 link_message demo_links ms | Acked e \<Rightarrow> e \<noteq> 0 | Broken _ \<Rightarrow> True)"
      using demo_dump by (auto intro!: exI [of _ "map demo_link_message demo_links"] exI [of _ Finished])
  qed
  moreover have "changes_address demo_kernel (\<lambda>_. demo_links) set RTM_NEWADDR (NLM_F_CREATE OR NLM_F_EXCL) insert EEXIST"
    unfolding changes_address_def
  proof (intro allI impI conjI)
    fix k i a r k'
    let ?m = "nl_msg RTM_NEWADDR ((NLM_F_CREATE OR NLM_F_EXCL) OR NLM_F_ACK) 1 (addr_payload i a)"
    let ?e = "if \<not> demo_index i then - 19 else if (i, a) \<in> set k then - 17 else (0 :: u32)"
    assume "demo_kernel k ?m = (r, k')"
    then have "r = Inr [Inr (datagram [(NLMSG_ERROR, 0, 1, le32 ?e @ take 16 ?m)])]"
      and k': "k' = (if \<not> demo_index i then k else List.insert (i, a) k)"
      by (cases "demo_index i"; simp add: demo_kernel_def addr_request_fields(2,3) [OF refl] request_fields(1) Let_def
          RTM_GETLINK_def RTM_NEWADDR_def)+
    then have "answers r [] (Acked ?e)" using answers_ack [of "take 16 ?m" ?e] by simp
    then show "\<exists>fin. answers r [] fin \<and> (case fin of Finished \<Rightarrow> False
        | Acked e \<Rightarrow> (if e = 0 then set k' = insert (i, a) (set k)
                    else set k' = set k \<and> (sint (- e) = EEXIST \<longrightarrow> insert (i, a) (set k) = set k))
        | Broken e \<Rightarrow> set k' \<in> {set k, insert (i, a) (set k)} \<and> e \<noteq> Os EEXIST)"
      using k' by (intro exI [of _ "Acked ?e"]) (auto simp: EEXIST_def)
  qed simp
  moreover have "changes_address demo_kernel (\<lambda>_. demo_links) set RTM_DELADDR 0 (\<lambda>x xs. xs - {x}) EADDRNOTAVAIL"
    unfolding changes_address_def
  proof (intro allI impI conjI)
    fix k i a r k'
    let ?m = "nl_msg RTM_DELADDR (0 OR NLM_F_ACK) 1 (addr_payload i a)"
    let ?e = "if \<not> demo_index i then - 19 else if (i, a) \<in> set k then 0 else (- 99 :: u32)"
    assume "demo_kernel k ?m = (r, k')"
    then have "r = Inr [Inr (datagram [(NLMSG_ERROR, 0, 1, le32 ?e @ take 16 ?m)])]"
      and k': "k' = (if \<not> demo_index i then k else removeAll (i, a) k)"
      by (cases "demo_index i"; simp add: demo_kernel_def addr_request_fields(2,3) [OF refl] request_fields(1) Let_def
          RTM_GETLINK_def RTM_NEWADDR_def RTM_DELADDR_def)+
    then have "answers r [] (Acked ?e)" using answers_ack [of "take 16 ?m" ?e] by simp
    then show "\<exists>fin. answers r [] fin \<and> (case fin of Finished \<Rightarrow> False
        | Acked e \<Rightarrow> (if e = 0 then set k' = set k - {(i, a)}
                    else set k' = set k \<and> (sint (- e) = EADDRNOTAVAIL \<longrightarrow> set k - {(i, a)} = set k))
        | Broken e \<Rightarrow> set k' \<in> {set k, set k - {(i, a)}} \<and> e \<noteq> Os EADDRNOTAVAIL)"
      using k' by (intro exI [of _ "Acked ?e"]) (auto simp: EADDRNOTAVAIL_def)
  qed simp
  ultimately show ?thesis using demo_links_ok by (simp add: rtnetlink_def)
qed

lemma replicate_six: "replicate 6 (0 :: u8) = [0, 0, 0, 0, 0, 0]"
  by (simp add: eval_nat_numeral)

text \<open>What the calls come to on it.\<close>

lemma demo_find_link: "find_link demo_kernel k ''eth0'' = (Inr \<lparr>index = 2, mac = [2, 0, 0, 0, 0, 1]\<rparr>, k)"
proof -
  have "demo_kernel k (nl_msg RTM_GETLINK NLM_F_DUMP 1 (replicate 16 0)) = (Inr (map (\<lambda>d. Inr (datagram d)) demo_datagrams), k)"
    by (simp add: demo_kernel_def request_fields(1) Let_def)
  moreover have "parse_links (map demo_link_message demo_links) ''eth0'' = map_of demo_links ''eth0''"
    using demo_links_ok demo_link_message by (intro parse_links_listed) (simp_all add: list_all2_conv_all_nth list_all_length)
  ultimately show ?thesis
    using collect_answers [OF demo_dump] by (simp add: find_link_def request_def demo_links_def)
qed

lemma demo_ack:
  assumes "length echo \<le> 1024"
  shows "collect 1 [Inr (datagram [(NLMSG_ERROR, 0, 1, le32 e @ echo)])] [] = (if e = 0 then Inr [] else Inl (Os (sint (- e))))"
  using collect_answers [OF answers_ack [OF assms, of e]] by (simp add: rbind_def)

lemma demo_claim:
  "claim demo_kernel k (show_ipv4 ip) ''eth0'' = (Inr (Some (2, garp_frame [2, 0, 0, 0, 0, 1] ip)), List.insert (2, ip) k)"
proof -
  let ?m = "nl_msg RTM_NEWADDR ((NLM_F_CREATE OR NLM_F_EXCL) OR NLM_F_ACK) 1 (addr_payload 2 ip)"
  let ?e = "if (2, ip) \<in> set k then - 17 else (0 :: u32)"
  have "demo_index 2" by (simp add: demo_index_def demo_links_def)
  then have "demo_kernel k ?m = (Inr [Inr (datagram [(NLMSG_ERROR, 0, 1, le32 ?e @ take 16 ?m)])], List.insert (2, ip) k)"
    by (simp add: demo_kernel_def addr_request_fields(2,3) [OF refl] request_fields(1) Let_def RTM_GETLINK_def RTM_NEWADDR_def)
  then show ?thesis
    using demo_ack [of "take 16 ?m" ?e]
    by (simp add: claim_def demo_find_link addr_change_def request_def rbind_def EEXIST_def replicate_six
        del: collect.simps)
qed

lemma demo_release: "release demo_kernel k (show_ipv4 ip) ''eth0'' = (Inr (), removeAll (2, ip) k)"
proof -
  let ?m = "nl_msg RTM_DELADDR (0 OR NLM_F_ACK) 1 (addr_payload 2 ip)"
  let ?e = "if (2, ip) \<in> set k then 0 else (- 99 :: u32)"
  have "demo_index 2" by (simp add: demo_index_def demo_links_def)
  then have "demo_kernel k ?m = (Inr [Inr (datagram [(NLMSG_ERROR, 0, 1, le32 ?e @ take 16 ?m)])], removeAll (2, ip) k)"
    by (simp add: demo_kernel_def addr_request_fields(2,3) [OF refl] request_fields(1) Let_def RTM_GETLINK_def
        RTM_NEWADDR_def RTM_DELADDR_def)
  then show ?thesis
    using demo_ack [of "take 16 ?m" ?e]
    by (simp add: release_def demo_find_link addr_change_def request_def rbind_def EADDRNOTAVAIL_def del: collect.simps)
qed

subsection \<open>Properties\<close>

text \<open>The VRRP source is the interface's own address, not a VIP: whatever /32 addresses the
  interface holds and in whatever order, if it has an address of a shorter prefix, one of those is
  chosen.\<close>

theorem own_address_is_not_a_vip:
  assumes "(idx, a, len) \<in> set es" and "len < 32"
  shows "\<exists>b l. own_address (parse_addrs (addrs_dump es) idx) = Some b \<and> (idx, b, l) \<in> set es \<and> l < 32"
proof -
  let ?as = "map snd (filter (\<lambda>e. fst e = idx) es)"
  have "(a, len) \<in> set ?as"
    using assms(1) by force
  then obtain x where x: "List.find (\<lambda>(_, len). len < 32) ?as = Some x"
    using assms(2) by (cases "List.find (\<lambda>(_, len). len < 32) ?as") (auto simp: find_None_iff)
  then have "x \<in> set ?as" and "snd x < 32"
    by (auto dest!: find_SomeD)
  then have "(idx, x) \<in> set es"
    unfolding set_map set_filter by force
  then obtain b l where b: "x = (b, l)" "(idx, b, l) \<in> set es" "l < 32"
    using \<open>snd x < 32\<close> by (metis prod.collapse)
  moreover have "own_address (parse_addrs (addrs_dump es) idx) = Some b"
    using x b(1) by (simp add: parse_addrs_dump own_address_def)
  ultimately show ?thesis by blast
qed

definition demo_addrs :: "(u32 \<times> ipv4 \<times> u8) list" where
  "demo_addrs = [(2, Ipv4 192 168 8 50, 32), (1, Ipv4 127 0 0 1, 8), (2, Ipv4 192 168 8 11, 24)]"

lemma own_address_is_not_a_vip_witness:
  "\<exists>b l. own_address (parse_addrs (addrs_dump demo_addrs) 2) = Some b \<and> (2, b, l) \<in> set demo_addrs \<and> l < 32"
  by (rule own_address_is_not_a_vip [of _ "Ipv4 192 168 8 11" 24]) (simp_all add: demo_addrs_def)

end
