(* ===== verification/Vip_Ownership.thy ===== *)
theory Vip_Ownership
  imports Vrrp_Loop Vip_Netlink
begin

text \<open>
  The VRRP loop (\<open>src/vrrp.rs\<close>) on its controller (\<open>src/vip.rs\<close>): the calls of a run, made one after
  the other on a kernel that keeps rtnetlink's contract.  An instance alone leaves the address on the
  interface exactly while it is Master, as far as the last of its calls succeeded; what an old instance
  that is being stopped and the one that replaces it do to it is in \<open>Vip_Restart\<close>.
\<close>

subsection \<open>A run's calls on a kernel\<close>

text \<open>What \<open>claim\<close> and \<open>release\<close> answer is logged or dropped by the loop.\<close>

fun perform :: "'k kernel \<Rightarrow> params \<Rightarrow> 'k \<Rightarrow> action list \<Rightarrow> 'k" where
  "perform kern p k [] = k"
| "perform kern p k (Claim # as) =
     perform kern p (snd (claim kern k (show_ipv4 (p_vip p)) (p_iface p))) as"
| "perform kern p k (Release # as) =
     perform kern p (snd (release kern k (show_ipv4 (p_vip p)) (p_iface p))) as"
| "perform kern p k (Send _ # as) = perform kern p k as"
| "perform kern p k (SetTimeout _ # as) = perform kern p k as"

text \<open>Whether the last of the calls was answered without error; \<open>b\<close> when there is none.\<close>

fun answered :: "'k kernel \<Rightarrow> params \<Rightarrow> bool \<Rightarrow> 'k \<Rightarrow> action list \<Rightarrow> bool" where
  "answered kern p b k [] = b"
| "answered kern p b k (Claim # as) =
     (case claim kern k (show_ipv4 (p_vip p)) (p_iface p) of (r, k') \<Rightarrow> answered kern p (\<not> isl r) k' as)"
| "answered kern p b k (Release # as) =
     (case release kern k (show_ipv4 (p_vip p)) (p_iface p) of (r, k') \<Rightarrow> answered kern p (\<not> isl r) k' as)"
| "answered kern p b k (Send _ # as) = answered kern p b k as"
| "answered kern p b k (SetTimeout _ # as) = answered kern p b k as"

lemma perform_append: "perform kern p k (as @ bs) = perform kern p (perform kern p k as) bs"
  by (induction kern p k as rule: perform.induct) simp_all

subsection \<open>The controller's contract\<close>

text \<open>A trace's calls on any controller: whether the last succeeded, and the state.\<close>

fun calls :: "('k \<Rightarrow> bool \<times> 'k) \<Rightarrow> ('k \<Rightarrow> bool \<times> 'k) \<Rightarrow> bool \<Rightarrow> 'k \<Rightarrow> action list \<Rightarrow> bool \<times> 'k" where
  "calls cl re b k [] = (b, k)"
| "calls cl re b k (Claim # as) = (case cl k of (ok, k') \<Rightarrow> calls cl re ok k' as)"
| "calls cl re b k (Release # as) = (case re k of (ok, k') \<Rightarrow> calls cl re ok k' as)"
| "calls cl re b k (Send _ # as) = calls cl re b k as"
| "calls cl re b k (SetTimeout _ # as) = calls cl re b k as"

context vip_controller begin

text \<open>Every controller that keeps the contract follows the ledger, as far as its last call succeeded.\<close>

lemma calls_ledger:
  "ledger h acts = Some h' \<Longrightarrow> usable k \<Longrightarrow> (b \<Longrightarrow> held k = h) \<Longrightarrow> calls claims releases b k acts = (b', k') \<Longrightarrow>
     usable k' \<and> others k' = others k \<and> (b' \<longrightarrow> held k' = h')"
proof (induction h acts arbitrary: b k rule: ledger.induct)
  case (2 h "as")
  have h: "\<not> h" and rest: "ledger True as = Some h'" using "2.prems"(1) by (auto split: if_splits)
  obtain ok k1 where c: "claims k = (ok, k1)" by fastforce
  have k1: "usable k1" "others k1 = others k" "ok \<Longrightarrow> held k1 = True" using claims [OF "2.prems"(2) c] by simp_all
  have "calls claims releases ok k1 as = (b', k')" using "2.prems"(4) c by simp
  from "2.IH" [OF h rest k1(1,3) this] k1(2) show ?case by simp
next
  case (3 h "as")
  have h: h and rest: "ledger False as = Some h'" using "3.prems"(1) by (auto split: if_splits)
  obtain ok k1 where r: "releases k = (ok, k1)" by fastforce
  have k1: "usable k1" "others k1 = others k" "ok \<Longrightarrow> held k1 = False" using releases [OF "3.prems"(2) r] by simp_all
  have "calls claims releases ok k1 as = (b', k')" using "3.prems"(4) r by simp
  from "3.IH" [OF h rest k1(1,3) this] k1(2) show ?case by simp
qed auto

end

text \<open>\<open>Netlink\<close> keeps the contract on every kernel that keeps rtnetlink's, for an interface that is there.\<close>

locale rtnetlink_vip =
  fixes kern :: "'k kernel"
    and links :: "'k \<Rightarrow> (string \<times> link) list"
    and addrs :: "'k \<Rightarrow> (u32 \<times> ipv4) set"
    and p :: params
    and l :: link
  assumes contract: "rtnetlink kern links addrs"

definition claims_of :: "'k kernel \<Rightarrow> params \<Rightarrow> 'k \<Rightarrow> bool \<times> 'k" where
  "claims_of kern p k = (case claim kern k (show_ipv4 (p_vip p)) (p_iface p) of (r, k') \<Rightarrow> (\<not> isl r, k'))"

definition releases_of :: "'k kernel \<Rightarrow> params \<Rightarrow> 'k \<Rightarrow> bool \<times> 'k" where
  "releases_of kern p k = (case release kern k (show_ipv4 (p_vip p)) (p_iface p) of (r, k') \<Rightarrow> (\<not> isl r, k'))"

sublocale rtnetlink_vip \<subseteq> ctl: vip_controller
  "\<lambda>k. map_of (links k) (p_iface p) = Some l" "\<lambda>k. (index l, p_vip p) \<in> addrs k"
  "\<lambda>k. (links k, addrs k - {(index l, p_vip p)})" "claims_of kern p" "releases_of kern p"
proof
  fix k k' ok
  assume l: "map_of (links k) (p_iface p) = Some l"
  { assume "claims_of kern p k = (ok, k')"
    then obtain r where r: "claim kern k (show_ipv4 (p_vip p)) (p_iface p) = (r, k')" "ok = (\<not> isl r)"
      by (auto simp: claims_of_def split: prod.splits)
    from claim_kernel [OF contract r(1)] l r(2)
    show "map_of (links k') (p_iface p) = Some l \<and> (links k', addrs k' - {(index l, p_vip p)})
        = (links k, addrs k - {(index l, p_vip p)}) \<and> (ok \<longrightarrow> (index l, p_vip p) \<in> addrs k')"
      by (cases r) (auto simp: on_link_def) }
  { assume "releases_of kern p k = (ok, k')"
    then obtain r where r: "release kern k (show_ipv4 (p_vip p)) (p_iface p) = (r, k')" "ok = (\<not> isl r)"
      by (auto simp: releases_of_def split: prod.splits)
    from release_kernel [OF contract r(1)] l r(2)
    show "map_of (links k') (p_iface p) = Some l \<and> (links k', addrs k' - {(index l, p_vip p)})
        = (links k, addrs k - {(index l, p_vip p)}) \<and> (ok \<longrightarrow> \<not> (index l, p_vip p) \<in> addrs k')"
      by (cases r) (auto simp: on_link_def) }
qed

lemma perform_calls:
  "calls (claims_of kern p) (releases_of kern p) b k acts = (answered kern p b k acts, perform kern p k acts)"
  by (induction kern p b k acts rule: answered.induct)
    (simp_all add: claims_of_def releases_of_def split: prod.split)

context rtnetlink_vip begin

lemma perform_ledger:
  assumes "ledger h acts = Some h'" and "map_of (links k) (p_iface p) = Some l"
    and "b \<Longrightarrow> (index l, p_vip p) \<in> addrs k \<longleftrightarrow> h"
  shows "links (perform kern p k acts) = links k"
    and "addrs (perform kern p k acts) - {(index l, p_vip p)} = addrs k - {(index l, p_vip p)}"
    and "answered kern p b k acts \<Longrightarrow> (index l, p_vip p) \<in> addrs (perform kern p k acts) \<longleftrightarrow> h'"
  using ctl.calls_ledger [OF assms perform_calls] by simp_all

end

subsection \<open>Properties\<close>

text \<open>C6: The node holds the VIP exactly while it is Master.  On a kernel that keeps rtnetlink's contract, whose
  calls may fail, and an interface without the address: after the calls of any run, whatever the peers
  send, the health is and the clock reads, if the last of them succeeded the VIP is on the interface exactly
  if the run stands as Master, which a stopped one does not, and one that failed does exactly if it was
  Master when it failed.  No interface and no other address changes, whether calls succeed or not.\<close>

theorem node_holds_vip_while_master:
  assumes "rtnetlink kern links addrs" and "map_of (links k) (p_iface p) = Some l"
    and "(index l, p_vip p) \<notin> addrs k" and "vrrp_run p s is = (acts, h, r)"
  shows "links (perform kern p k acts) = links k
    \<and> addrs (perform kern p k acts) - {(index l, p_vip p)} = addrs k
    \<and> (answered kern p True k acts \<longrightarrow>
         ((index l, p_vip p) \<in> addrs (perform kern p k acts) \<longleftrightarrow>
           (case r of Running lp \<Rightarrow> is_up lp | Stopped \<Rightarrow> False | Failed \<Rightarrow> run_stands p s is)))"
proof -
  have "run_loop p s is = (acts, r)"
    using assms(4) by (auto simp: vrrp_run_def split: prod.splits)
  note held = ledger_run_stands [OF this]
  from rtnetlink_vip.perform_ledger [OF rtnetlink_vip.intro [OF assms(1)] held(1) assms(2), of True] assms(3) held(2)
  show ?thesis
    by (auto simp: settled_def split: outcome.splits)
qed

definition eth_params :: "u8 \<Rightarrow> params" where
  "eth_params prio = \<lparr>p_vrid = 51, p_priority = prio, p_preempt = True, p_advert_interval_secs = 1,
     p_iface = ''eth0'', p_vip = Ipv4 192 168 8 50\<rparr>"

definition eth_start :: start_input where
  "eth_start = \<lparr>iface_addr = Some (Ipv4 192 168 8 11), socket_ok = True, start_healthy = True,
     start_clock = 0, deadline_clock = 0\<rparr>"

interpretation demo_nic: rtnetlink_vip demo_kernel "\<lambda>_. demo_links" set "eth_params 255"
    "\<lparr>index = 2, mac = [2, 0, 0, 0, 0, 1]\<rparr>"
  by unfold_locales (rule demo_kernel)

lemma eth_calls:
  "p_iface p = ''eth0'' \<Longrightarrow> perform demo_kernel p k [Claim] = List.insert (2, p_vip p) k"
  "p_iface p = ''eth0'' \<Longrightarrow> answered demo_kernel p b k [Claim]"
  "p_iface p = ''eth0'' \<Longrightarrow> perform demo_kernel p k [Send m, Release] = removeAll (2, p_vip p) k"
  "p_iface p = ''eth0'' \<Longrightarrow> \<not> isl (fst (release demo_kernel k (show_ipv4 a) ''eth0''))"
  by (simp_all add: demo_claim demo_release)

definition stop_turn :: turn_input where
  "stop_turn = \<lparr>stop_seen = True, healthy_now = True, resigned_at = 0, waits_at = 0, timeout_set = True,
     got = WouldBlock, woke_at = 0, healthy_then = True\<rparr>"

text \<open>An address owner (priority 255) is Master from the start, and resigns when it is stopped.\<close>

lemma owner_starts:
  assumes "p_priority p = 255" and "iface_addr s = Some self" and "socket_ok s" and "start_healthy s"
  obtains l m where "run_loop p s [] = ([Claim], Running l)" and "is_up l"
    and "run_loop p s [stop_turn] = ([Claim, Send m, Release], Stopped)"
  using assms
  by (simp add: run_loop_def begin_loop_def vr_start_def vr_new_def is_up_def turn_def stop_turn_def Let_def)

lemma node_holds_vip_while_master_witness:
  "\<exists>acts h l. vrrp_run (eth_params 255) eth_start [] = (acts, h, Running l)
     \<and> set (perform demo_kernel (eth_params 255) [] acts) = {(2, Ipv4 192 168 8 50)}"
proof -
  let ?k = "perform demo_kernel (eth_params 255) [] [Claim]" and ?x = "(2, Ipv4 192 168 8 50) :: u32 \<times> ipv4"
  obtain l where run: "run_loop (eth_params 255) eth_start [] = ([Claim], Running l)" and up: "is_up l"
    by (rule owner_starts [of "eth_params 255" eth_start]) (simp_all add: eth_params_def eth_start_def)
  then have vrrp: "vrrp_run (eth_params 255) eth_start [] = ([Claim], handle l, Running l)"
    by (simp add: vrrp_run_def)
  have nic: "map_of ((\<lambda>_. demo_links) []) (p_iface (eth_params 255)) = Some \<lparr>index = 2, mac = [2, 0, 0, 0, 0, 1]\<rparr>"
    and eth: "p_vip (eth_params 255) = Ipv4 192 168 8 50" "p_iface (eth_params 255) = ''eth0''"
    by (simp_all add: demo_links_def eth_params_def)
  have "set ?k - {?x} = {} \<and> ?x \<in> set ?k"
    using node_holds_vip_while_master [OF demo_kernel nic _ vrrp] up eth by (simp add: demo_claim)
  then have "set ?k = {?x}" by blast
  with vrrp show ?thesis by blast
qed

end
