(* ===== verification/Vip_Announce.thy ===== *)
theory Vip_Announce
  imports Vip_Ownership
begin

text \<open>
  What a claim announces (\<open>src/vip.rs\<close>): the thread \<open>claim\<close> starts, which broadcasts the gratuitous ARP
  three times half a second apart, and \<open>send_garp\<close>, its packet socket.  The receiver is the one RFC 826
  specifies: a neighbour's cache of hardware addresses.
\<close>

subsection \<open>The packet socket\<close>

definition ETH_P_ARP :: u16 where "ETH_P_ARP = 0x0806"
definition AF_PACKET :: u16 where "AF_PACKET = 17"

text \<open>\<open>sockaddr_ll\<close> in memory: family, protocol (in network order), interface, hardware type, packet type,
  address length and the address, eight bytes wide.\<close>

definition broadcast_to :: "u32 \<Rightarrow> bytes" where
  "broadcast_to ifi =
     le16 AF_PACKET @ be16 ETH_P_ARP @ le32 ifi @ le16 0 @ [0] @ [6] @ replicate 6 0xff @ [0, 0]"

text \<open>What the two system calls answered: an errno, or success.\<close>

record packet_answer =
  socket_made :: "(int, unit) result"
  frame_sent :: "(int, unit) result"

text \<open>The frames handed to the interface, with the address they were sent to.\<close>

definition send_garp :: "packet_answer \<Rightarrow> u32 \<Rightarrow> bytes \<Rightarrow> (bytes \<times> bytes) list \<times> (io_error, unit) result" where
  "send_garp a ifi frame =
     (case socket_made a of
        Inl e \<Rightarrow> ([], Inl (Os e))
      | Inr _ \<Rightarrow>
          (case frame_sent a of
             Inl e \<Rightarrow> ([], Inl (Os e))
           | Inr _ \<Rightarrow> ([(broadcast_to ifi, frame)], Inr ())))"

text \<open>The thread: the rounds \<open>i\<close> still to go, what each round's calls answer, by how much each sleep
  overran, the clock (milliseconds).  The result says when what was sent.\<close>

fun announce ::
  "nat list \<Rightarrow> (nat \<Rightarrow> packet_answer) \<Rightarrow> (nat \<Rightarrow> nat) \<Rightarrow> nat \<Rightarrow> u32 \<Rightarrow> bytes \<Rightarrow> (nat \<times> bytes \<times> bytes) list"
where
  "announce [] ans late now ifi frame = []"
| "announce (i # is) ans late now ifi frame =
     (case send_garp (ans i) ifi frame of
        (out, Inl _) \<Rightarrow> map (Pair now) out
      | (out, Inr _) \<Rightarrow>
          map (Pair now) out
            @ announce is ans late (if i < 2 then now + 500 + late i else now) ifi frame)"

definition claim_thread ::
  "(nat \<Rightarrow> packet_answer) \<Rightarrow> (nat \<Rightarrow> nat) \<Rightarrow> nat \<Rightarrow> (u32 \<times> bytes) option \<Rightarrow> (nat \<times> bytes \<times> bytes) list" where
  "claim_thread ans late now job =
     (case job of None \<Rightarrow> [] | Some (ifi, frame) \<Rightarrow> announce [0..<3] ans late now ifi frame)"

subsection \<open>A neighbour\<close>

text \<open>RFC 826: a packet of the right hardware and protocol, about a sender the cache knows, updates the
  cache, whatever its operation; one about an unknown sender does not (unless it asks for us).\<close>

definition arp_merge :: "bytes \<Rightarrow> (ipv4 \<rightharpoonup> bytes) \<Rightarrow> (ipv4 \<rightharpoonup> bytes)" where
  "arp_merge f cache =
     (if length f = 28 \<and> take 6 f = [0, 1, 8, 0, 6, 4]
      then (let sender = Ipv4 (f ! 14) (f ! 15) (f ! 16) (f ! 17)
            in if cache sender = None then cache else cache(sender \<mapsto> take 6 (drop 8 f)))
      else cache)"

definition hear_all :: "(nat \<times> bytes \<times> bytes) list \<Rightarrow> (ipv4 \<rightharpoonup> bytes) \<Rightarrow> (ipv4 \<rightharpoonup> bytes)" where
  "hear_all out cache = foldl (\<lambda>c (_, _, f). arp_merge f c) cache out"

lemma hear_all_simps [simp]:
  "hear_all [] c = c" "hear_all ((t, d, f) # out) c = hear_all out (arp_merge f c)"
  "hear_all (out @ out') c = hear_all out' (hear_all out c)"
  by (simp_all add: hear_all_def)

lemma arp_merge_garp:
  assumes "length hw = 6"
  shows "arp_merge (garp_frame hw ip) cache = (if cache ip = None then cache else cache(ip \<mapsto> hw))"
proof -
  have "be16 1 = [0, 1]" "be16 0x0800 = [8, 0]" "be16 2 = [0, 2]" by (simp_all add: be16_def)
  then show ?thesis
    using assms by (cases ip) (simp add: arp_merge_def garp_frame_def nth_append Let_def)
qed

lemma mac_length:
  assumes "rtnetlink kern links addrs" and "map_of (links k) iface = Some l"
  shows "length (mac l) = 6"
proof -
  have "link_ok (iface, l)"
    using assms(1) map_of_SomeD [OF assms(2)] by (fastforce simp: rtnetlink_def list_all_iff)
  then show ?thesis by (simp add: link_ok_def)
qed

definition all_sent :: "packet_answer \<Rightarrow> bool" where
  "all_sent a \<longleftrightarrow> socket_made a = Inr () \<and> frame_sent a = Inr ()"

lemma all_sent_cases:
  "all_sent a \<Longrightarrow> send_garp a ifi frame = ([(broadcast_to ifi, frame)], Inr ())"
  "\<not> all_sent a \<Longrightarrow> \<exists>e. send_garp a ifi frame = ([], Inl e)"
  by (auto simp: send_garp_def all_sent_def split: sum.splits)

text \<open>The sends that succeed, up to the first that does not.\<close>

lemma claim_thread_sent:
  "claim_thread ans late now (Some (ifi, frame)) =
     take (length (takeWhile all_sent (map ans [0..<3])))
       [(now, broadcast_to ifi, frame), (now + 500 + late 0, broadcast_to ifi, frame),
        (now + 1000 + late 0 + late 1, broadcast_to ifi, frame)]"
proof -
  have three: "[0..<3] = [0, 1, 2 :: nat]" by (simp add: upt_rec numeral_3_eq_3)
  show ?thesis
  proof (cases "all_sent (ans 0)")
    case False
    with all_sent_cases(2) [of "ans 0" ifi frame] show ?thesis by (auto simp: claim_thread_def three)
  next
    case first: True
    show ?thesis
    proof (cases "all_sent (ans 1)")
      case False
      with first all_sent_cases(2) [of "ans 1" ifi frame] show ?thesis
        by (auto simp: claim_thread_def three all_sent_cases(1))
    next
      case True
      show ?thesis
      proof (cases "all_sent (ans 2)")
        case False
        with first True all_sent_cases(2) [of "ans 2" ifi frame] show ?thesis
          by (auto simp: claim_thread_def three all_sent_cases(1))
      qed (use first True in \<open>simp add: claim_thread_def three all_sent_cases(1)\<close>)
    qed
  qed
qed


subsection \<open>Properties\<close>


definition demo_answer :: packet_answer where
  "demo_answer = \<lparr>socket_made = Inr (), frame_sent = Inr ()\<rparr>"

lemma demo_sent: "takeWhile all_sent (map (\<lambda>_. demo_answer) [0..<3]) = replicate 3 demo_answer"
  by (simp add: all_sent_def demo_answer_def upt_rec numeral_3_eq_3)


lemma insort_key_last: "f x \<le> f y \<Longrightarrow> insort_key f x (zs @ [y]) = insort_key f x zs @ [y]"
  by (induction zs) auto

lemma sort_key_last: "\<forall>x \<in> set xs. f x \<le> f y \<Longrightarrow> sort_key f (xs @ [y]) = sort_key f xs @ [y]"
  by (induction xs) (simp_all add: insort_key_last)

text \<open>The thread does not look back: it runs on when the address has been released.  A node that claims the
  VIP after the node that stays Master, and gives it up at once when that one outranks it, announces last:
  the neighbours send what is for the VIP to a node that does not have it.\<close>

theorem released_vip_is_announced_last:
  assumes "rtnetlink kern links addrs" and "map_of (links k) iface = Some l" and "mac l \<noteq> replicate 6 0"
    and "claim kern k (show_ipv4 ip) iface = (Inr job, k')" and "release kern k' (show_ipv4 ip) iface = (Inr v, k'')"
    and "length stays = 6" and "cache ip \<noteq> None" and "t < u"
  shows "(index l, ip) \<notin> addrs k''
    \<and> hear_all (sort_key fst
          (claim_thread (\<lambda>_. demo_answer) (\<lambda>_. 0) t (Some (i, garp_frame stays ip))
             @ claim_thread (\<lambda>_. demo_answer) (\<lambda>_. 0) u job)) cache ip = Some (mac l)"
proof -
  let ?mine = "garp_frame (mac l) ip" and ?other = "garp_frame stays ip"
  have claimed: "job = Some (index l, ?mine)" "links k' = links k"
    using claim_kernel [OF assms(1,4)] assms(2,3) by auto
  have released: "(index l, ip) \<notin> addrs k''"
    using release_kernel(3) [OF assms(1,5) refl] claimed(2) assms(2) by auto
  note six = mac_length [OF assms(1,2)]
  let ?all = "claim_thread (\<lambda>_. demo_answer) (\<lambda>_. 0) t (Some (i, ?other))
      @ claim_thread (\<lambda>_. demo_answer) (\<lambda>_. 0) u (Some (index l, ?mine))"
  let ?last = "(u + 1000, broadcast_to (index l), ?mine)"
  have all: "?all = map (\<lambda>n. (t + n, broadcast_to i, ?other)) [0, 500, 1000]
      @ map (\<lambda>n. (u + n, broadcast_to (index l), ?mine)) [0, 500] @ [?last]"
    by (simp add: claim_thread_sent demo_sent)
  have "sort_key fst ?all = sort_key fst (butlast ?all) @ [?last]"
    using sort_key_last [of "butlast ?all" fst ?last] assms(8) by (simp add: all)
  moreover have known: "hear_all out cache ip \<noteq> None" if "\<forall>x \<in> set out. snd (snd x) \<in> {?mine, ?other}" for out
    using that assms(7)
    by (induction out arbitrary: cache) (auto simp: arp_merge_garp six assms(6))
  ultimately show ?thesis
    using claimed(1) released known [of "sort_key fst (butlast ?all)"]
    by (simp add: all arp_merge_garp [OF six])
qed

end
