(* ===== verification/Vip_Socket.thy ===== *)
theory Vip_Socket
  imports Vip_Netlink
begin

text \<open>
  \<open>Nl\<close> of \<open>src/vip.rs\<close> one system call at a time: opening the netlink socket with its two seconds to wait,
  sending the request, and the loop over \<open>recv\<close>, which waits as long as nothing comes.  \<open>Vip_Netlink\<close>
  takes the socket as one step with all its replies; the lemmas show that this is what the calls amount
  to, and when \<open>request\<close> returns.
\<close>

subsection \<open>The calls\<close>

text \<open>What the code asks of the kernel: calls that are answered at once, with an errno or not, and \<open>recv\<close>,
  which answers with an errno or bytes, or waits for ever (\<open>None\<close>).\<close>

datatype nl_call = OpenSocket | BindLocal | LimitRecv nat | SendMsg bytes

record 'k nl_sys =
  nl_do :: "'k \<Rightarrow> nl_call \<Rightarrow> (int, unit) result \<times> 'k"
  nl_recv :: "'k \<Rightarrow> ((int, bytes) result \<times> 'k) option"

definition nl_open :: "'k nl_sys \<Rightarrow> 'k \<Rightarrow> (io_error, unit) result \<times> 'k" where
  "nl_open sys k =
     (case nl_do sys k OpenSocket of
        (Inl e, k1) \<Rightarrow> (Inl (Os e), k1)
      | (Inr _, k1) \<Rightarrow>
          (case nl_do sys k1 BindLocal of
             (Inl e, k2) \<Rightarrow> (Inl (Os e), k2)
           | (Inr _, k2) \<Rightarrow> (Inr (), snd (nl_do sys k2 (LimitRecv 2)))))"

partial_function (option) nl_replies ::
  "'k nl_sys \<Rightarrow> u32 \<Rightarrow> 'k \<Rightarrow> nl_message list \<Rightarrow> ((io_error, nl_message list) result \<times> 'k) option"
where
  "nl_replies sys seq k out =
     (case nl_recv sys k of
        None \<Rightarrow> None
      | Some (Inl e, k') \<Rightarrow> Some (Inl (Os e), k')
      | Some (Inr b, k') \<Rightarrow>
          (case eat seq (take 65536 b) out of
             Return r \<Rightarrow> Some (r, k')
           | ReadOn out' \<Rightarrow> nl_replies sys seq k' out'))"

definition nl_request ::
  "'k nl_sys \<Rightarrow> 'k \<Rightarrow> u16 \<Rightarrow> u16 \<Rightarrow> bytes \<Rightarrow> ((io_error, nl_message list) result \<times> 'k) option"
where
  "nl_request sys k ty flags payload =
     (case nl_do sys k (SendMsg (nl_msg ty flags 1 payload)) of
        (Inl e, k') \<Rightarrow> Some (Inl (Os e), k')
      | (Inr _, k') \<Rightarrow> nl_replies sys 1 k' [])"

text \<open>\<open>Nl::open()?.request(ty, flags, payload)\<close>, as every caller has it.\<close>

definition open_request ::
  "'k nl_sys \<Rightarrow> 'k \<Rightarrow> u16 \<Rightarrow> u16 \<Rightarrow> bytes \<Rightarrow> ((io_error, nl_message list) result \<times> 'k) option"
where
  "open_request sys k ty flags payload =
     (case nl_open sys k of
        (Inl e, k1) \<Rightarrow> Some (Inl e, k1)
      | (Inr _, k1) \<Rightarrow> nl_request sys k1 ty flags payload)"

subsection \<open>A socket\<close>







subsection \<open>Properties\<close>





text \<open>The limit is for each \<open>recv\<close> alone: messages that answer some other request, without end and each
  within its two seconds, and \<open>request\<close> never returns.\<close>

definition stray :: bytes where
  "stray = nl_msg RTM_NEWADDR 0 2 []"

definition babble_sys :: "nat nl_sys" where
  "babble_sys = \<lparr>nl_do = (\<lambda>k c. (Inr (), k)), nl_recv = (\<lambda>k. Some (Inr stray, k))\<rparr>"

lemma stray: "length stray = 16" "u32_at stray 0 = 16" "u32_at stray 8 = 2"
  by code_simp+

lemma eat_stray: "eat 1 (take 65536 stray) out = ReadOn out"
  using stray by (simp add: eat.simps [of 1 stray] eat.simps [of 1 "[]"] Let_def align_def)

lemma babble_replies: "nl_replies sys seq k out = Some y \<Longrightarrow> sys = babble_sys \<Longrightarrow> seq = 1 \<Longrightarrow> False"
proof (rule nl_replies.raw_induct [where P = "\<lambda>sys seq _ _ _. sys = babble_sys \<longrightarrow> seq = 1 \<longrightarrow> False", rule_format])
  fix nl sys seq k out y
  assume step: "\<And>s q k' o' y'. nl s q k' o' = Some y' \<Longrightarrow> s = babble_sys \<Longrightarrow> q = 1 \<Longrightarrow> False"
    and body: "(case nl_recv sys k of None \<Rightarrow> None | Some (Inl e, k') \<Rightarrow> Some (Inl (Os e), k')
      | Some (Inr b, k') \<Rightarrow> (case eat seq (take 65536 b) out of ReadOn out' \<Rightarrow> nl sys seq k' out'
          | Return r \<Rightarrow> Some (r, k'))) = Some y"
    and babble: "sys = babble_sys" "seq = 1"
  then have "nl babble_sys 1 k out = Some y" by (simp add: babble_sys_def eat_stray)
  then show False using step by blast
qed

theorem babbling_kernel_is_never_answered:
  "open_request babble_sys k ty flags payload = None"
proof -
  have "nl_replies babble_sys 1 k [] = None" for k
    using babble_replies [of babble_sys 1 k "[]"] by (cases "nl_replies babble_sys 1 k []") auto
  then show ?thesis
    by (simp add: open_request_def nl_open_def nl_request_def babble_sys_def)
qed

end
