(* ===== verification/Metrics.thy ===== *)
theory Metrics
  imports Net
begin

text \<open>
  \<open>src/metrics.rs\<close>: the process's counters, gauges and histograms, each series keyed by its name and
  its rendered label block, and the answer of the \<open>/metrics\<close> listener to a request head.

  Durations are whole nanoseconds.  A bucket bound is a decimal fraction of a second, which \<open>f64\<close>
  compares with a duration exactly as the nanoseconds compare; the histogram's \<open>sum\<close> is kept exact
  here, where the code rounds it to \<open>f64\<close>.
\<close>

subsection \<open>Label blocks\<close>

abbreviation "quote \<equiv> CHR 0x22"
abbreviation "backslash \<equiv> CHR 0x5C"
abbreviation "newline \<equiv> CHR 0x0A"

definition escape_char :: "char \<Rightarrow> string" where
  "escape_char c =
     (if c = backslash then [backslash, backslash]
      else if c = quote then [backslash, quote]
      else if c = newline then [backslash, CHR ''n'']
      else [c])"

definition label_pair :: "string \<times> string \<Rightarrow> string" where
  "label_pair p = fst p @ [CHR ''='', quote] @ concat (map escape_char (snd p)) @ [quote]"

definition labels :: "(string \<times> string) list \<Rightarrow> string" where
  "labels pairs =
     (if pairs = [] then [] else ''{'' @ join '','' (map label_pair pairs) @ ''}'')"

subsection \<open>The registry\<close>

definition buckets_ns :: "nat list" where
  "buckets_ns = [5000000, 10000000, 25000000, 50000000, 100000000, 250000000, 500000000,
     1000000000, 2500000000, 5000000000, 10000000000]"

record hist =
  bucket_counts :: "u64 list"
  hist_sum :: nat
  hist_count :: u64

definition hist_empty :: hist where
  "hist_empty = \<lparr>bucket_counts = replicate (length buckets_ns) 0, hist_sum = 0, hist_count = 0\<rparr>"

type_synonym key = "string \<times> string"

record metrics =
  counters :: "key \<rightharpoonup> u64"
  gauges :: "key \<rightharpoonup> 64 word"
  hists :: "key \<rightharpoonup> hist"

definition metrics_empty :: metrics where
  "metrics_empty = \<lparr>counters = Map.empty, gauges = Map.empty, hists = Map.empty\<rparr>"

text \<open>\<open>entry(k).or_default()\<close>.\<close>

definition or_default :: "('k \<rightharpoonup> 'v) \<Rightarrow> 'k \<Rightarrow> 'v \<Rightarrow> 'v" where
  "or_default m k d = (case m k of None \<Rightarrow> d | Some v \<Rightarrow> v)"

definition inc :: "metrics \<Rightarrow> string \<Rightarrow> (string \<times> string) list \<Rightarrow> metrics" where
  "inc m name l =
     (let k = (name, labels l)
      in m\<lparr>counters := (counters m)(k \<mapsto> or_default (counters m) k 0 + 1)\<rparr>)"

definition gauge_add :: "metrics \<Rightarrow> string \<Rightarrow> (string \<times> string) list \<Rightarrow> 64 word \<Rightarrow> metrics" where
  "gauge_add m name l d =
     (let k = (name, labels l)
      in m\<lparr>gauges := (gauges m)(k \<mapsto> or_default (gauges m) k 0 + d)\<rparr>)"

definition gauge_set :: "metrics \<Rightarrow> string \<Rightarrow> (string \<times> string) list \<Rightarrow> 64 word \<Rightarrow> metrics" where
  "gauge_set m name l v = m\<lparr>gauges := (gauges m)((name, labels l) \<mapsto> v)\<rparr>"

definition observe :: "metrics \<Rightarrow> string \<Rightarrow> (string \<times> string) list \<Rightarrow> nat \<Rightarrow> metrics" where
  "observe m name l d =
     (let k = (name, labels l); h = or_default (hists m) k hist_empty
      in m\<lparr>hists := (hists m)(k \<mapsto>
           h\<lparr>bucket_counts := map2 (\<lambda>c b. if d \<le> b then c + 1 else c) (bucket_counts h) buckets_ns,
             hist_sum := hist_sum h + d, hist_count := hist_count h + 1\<rparr>)\<rparr>)"

text \<open>\<open>active\<close> answers the guard's key; \<open>drop_guard\<close> is \<open>ActiveGuard::drop\<close>.\<close>

definition active :: "metrics \<Rightarrow> string \<Rightarrow> (string \<times> string) list \<Rightarrow> key \<times> metrics" where
  "active m name l =
     (let k = (name, labels l)
      in (k, m\<lparr>gauges := (gauges m)(k \<mapsto> or_default (gauges m) k 0 + 1)\<rparr>))"

definition drop_guard :: "metrics \<Rightarrow> key \<Rightarrow> metrics" where
  "drop_guard m k =
     (case gauges m k of
        None \<Rightarrow> m
      | Some v \<Rightarrow> m\<lparr>gauges := (gauges m)(k \<mapsto> v - 1)\<rparr>)"

subsection \<open>The answer to a request\<close>

text \<open>Status, content type and body from the request line; \<open>page\<close> is the rendered exposition.\<close>

definition metrics_answer :: "string \<Rightarrow> string \<Rightarrow> string \<times> string \<times> string" where
  "metrics_answer page head =
     (let line = hd (split_on CHR 0x0D head);
          parts = split_on CHR '' '' line;
          meth = hd parts;
          path = hd (split_on CHR ''?'' (if length parts < 2 then [] else parts ! 1))
      in if meth = ''GET'' \<and> path = ''/metrics''
         then (''200 OK'', ''text/plain; version=0.0.4; charset=utf-8'', page)
         else if meth = ''GET'' \<and> path = ''/healthz'' then (''200 OK'', ''text/plain'', ''ok'' @ [newline])
         else if meth = ''GET''
         then (''404 Not Found'', ''text/plain'', ''metrics are at /metrics'' @ [newline])
         else (''405 Method Not Allowed'', ''text/plain'', ''GET only'' @ [newline]))"

subsection \<open>Label blocks tell label values apart\<close>

text \<open>A value as a reader of the exposition format takes it, up to the closing quote.\<close>

fun read_value :: "string \<Rightarrow> (string \<times> string) option" where
  "read_value [] = None"
| "read_value (c # cs) =
     (if c = quote then Some ([], cs)
      else if c = backslash
      then (case cs of
              [] \<Rightarrow> None
            | d # ds \<Rightarrow>
                map_option (\<lambda>(v, r). ((if d = CHR ''n'' then newline else d) # v, r)) (read_value ds))
      else map_option (\<lambda>(v, r). (c # v, r)) (read_value cs))"

lemma read_value_escape:
  "read_value (concat (map escape_char v) @ quote # rest) = Some (v, rest)"
  by (induction v) (auto simp: escape_char_def)

definition key_ok :: "string \<Rightarrow> bool" where
  "key_ok k \<longleftrightarrow> CHR ''='' \<notin> set k"

lemma join_Cons: "join sep (s # ss) = s @ (if ss = [] then [] else sep @ join sep ss)"
  by (cases ss) auto

lemma label_pair_inj:
  assumes "key_ok (fst p)" and "key_ok (fst q)" and "label_pair p @ r = label_pair q @ r'"
  shows "p = q \<and> r = r'"
proof -
  have "split_once CHR ''='' (label_pair x @ y) =
      Some (fst x, quote # concat (map escape_char (snd x)) @ quote # y)" if "key_ok (fst x)" for x y
    using that by (simp add: label_pair_def key_ok_def split_once_Some)
  then have "Some (fst p, quote # concat (map escape_char (snd p)) @ quote # r)
      = Some (fst q, quote # concat (map escape_char (snd q)) @ quote # r')"
    using assms by metis
  then have "fst p = fst q"
    and "concat (map escape_char (snd p)) @ quote # r = concat (map escape_char (snd q)) @ quote # r'"
    by simp_all
  then show ?thesis
    by (metis read_value_escape option.inject prod.inject prod_eqI)
qed

lemma label_join_inj:
  assumes "list_all (key_ok \<circ> fst) ps" and "list_all (key_ok \<circ> fst) qs" and "ps \<noteq> []" and "qs \<noteq> []"
    and "join '','' (map label_pair ps) @ ''}'' = join '','' (map label_pair qs) @ ''}''"
  shows "ps = qs"
  using assms
proof (induction ps arbitrary: qs)
  case (Cons p ps)
  then obtain q qs' where qs: "qs = q # qs'" by (cases qs) auto
  have "label_pair p @ (if ps = [] then [] else '','' @ join '','' (map label_pair ps)) @ ''}'' =
      label_pair q @ (if qs' = [] then [] else '','' @ join '','' (map label_pair qs')) @ ''}''"
    using Cons.prems(5) by (simp add: qs join_Cons)
  from label_pair_inj [OF _ _ this] Cons.prems(1,2) qs
  have pq: "p = q"
    and "(if ps = [] then [] else '','' @ join '','' (map label_pair ps)) @ ''}'' =
      (if qs' = [] then [] else '','' @ join '','' (map label_pair qs')) @ ''}''"
    by simp_all
  then have "ps = qs'"
    using Cons.IH [of qs'] Cons.prems(1,2) qs by (cases "ps = []"; cases "qs' = []") simp_all
  with pq qs show ?case by simp
qed simp

lemma labels_inj:
  assumes "list_all (key_ok \<circ> fst) ps" and "list_all (key_ok \<circ> fst) qs"
  shows "labels ps = labels qs \<longleftrightarrow> ps = qs"
  using label_join_inj [OF assms] by (auto simp: labels_def)

subsection \<open>Properties\<close>

definition counter :: "metrics \<Rightarrow> string \<Rightarrow> (string \<times> string) list \<Rightarrow> u64" where
  "counter m name l = or_default (counters m) (name, labels l) 0"

definition gauge :: "metrics \<Rightarrow> string \<Rightarrow> (string \<times> string) list \<Rightarrow> 64 word" where
  "gauge m name l = or_default (gauges m) (name, labels l) 0"

lemma counter_inc:
  assumes "list_all (key_ok \<circ> fst) l" and "list_all (key_ok \<circ> fst) l'"
  shows "counter (inc m name l) name' l' =
    counter m name' l' + (if name' = name \<and> l' = l then 1 else 0)"
  using labels_inj [OF assms(2,1)] by (auto simp: counter_def inc_def or_default_def Let_def)

text \<open>Label values, which come from route tables and status lines, cannot run into each other or
  out of their quotes: an increment counts in exactly the series of its name and its label values,
  whatever characters the values hold, and a reader of the exposition gets the value back.\<close>

theorem series_are_kept_apart:
  assumes "list_all (key_ok \<circ> fst) l" and "list_all (key_ok \<circ> fst) l'"
  shows "counter (inc m name l) name' l' = counter m name' l' + (if name' = name \<and> l' = l then 1 else 0)
    \<and> read_value (concat (map escape_char v) @ quote # rest) = Some (v, rest)"
  using counter_inc [OF assms] read_value_escape by simp

lemma series_are_kept_apart_witness:
  "counter (inc metrics_empty ''r'' [(''host'', [quote])]) ''r'' [(''host'', [backslash, quote])] = 0"
proof -
  have "list_all (key_ok \<circ> fst) [(''host'', [quote])]"
    and "list_all (key_ok \<circ> fst) [(''host'', [backslash, quote])]"
    by (simp_all add: key_ok_def)
  from series_are_kept_apart [OF this, of metrics_empty "''r''" "''r''"] show ?thesis
    by (simp add: counter_def or_default_def metrics_empty_def)
qed

subsection \<open>Histograms\<close>

text \<open>What a histogram holds after the durations \<open>ds\<close>: per bucket those at most its bound, their sum
  and their number (the counts are \<open>u64\<close>).\<close>

definition hist_of :: "nat list \<Rightarrow> hist" where
  "hist_of ds = \<lparr>bucket_counts = map (\<lambda>b. word_of_nat (length (filter (\<lambda>d. d \<le> b) ds))) buckets_ns,
     hist_sum = sum_list ds, hist_count = word_of_nat (length ds)\<rparr>"

lemma hist_of_Nil: "hist_of [] = hist_empty"
  by (simp add: hist_of_def hist_empty_def map_replicate_const)

lemma map2_map: "map2 f (map g xs) xs = map (\<lambda>x. f (g x) x) xs"
  by (induction xs) simp_all

lemma observe_hist_of:
  assumes "or_default (hists m) (name, labels l) hist_empty = hist_of ds"
  shows "hists (observe m name l d) (name, labels l) = Some (hist_of (ds @ [d]))"
  using assms by (simp add: observe_def Let_def hist_of_def map2_map add.commute)

text \<open>A histogram is exact and cumulative: after any sequence of observations of a series that was
  empty, every bucket counts the durations up to its bound, and the sum and the count are those of all
  of them.\<close>

theorem histogram_counts_durations:
  assumes "hists m (name, labels l) = None"
  shows "or_default (hists (foldl (\<lambda>m d. observe m name l d) m ds)) (name, labels l) hist_empty =
    \<lparr>bucket_counts = map (\<lambda>b. word_of_nat (length (filter (\<lambda>d. d \<le> b) ds))) buckets_ns,
     hist_sum = sum_list ds, hist_count = word_of_nat (length ds)\<rparr>"
  unfolding hist_of_def [symmetric]
proof (induction ds rule: rev_induct)
  case Nil
  then show ?case by (simp add: or_default_def assms hist_of_Nil)
next
  case (snoc d ds)
  from observe_hist_of [OF snoc] show ?case by (simp add: or_default_def)
qed

lemma histogram_counts_durations_witness:
  "hist_count (or_default (hists (foldl (\<lambda>m d. observe m ''d'' [] d) metrics_empty [7000000, 3000000000]))
      (''d'', labels []) hist_empty) = 2
   \<and> take 2 (bucket_counts (or_default (hists (foldl (\<lambda>m d. observe m ''d'' [] d) metrics_empty
        [7000000, 3000000000])) (''d'', labels []) hist_empty)) = [0, 1]"
proof -
  have "hists metrics_empty (''d'', labels []) = None"
    by (simp add: metrics_empty_def)
  from histogram_counts_durations [OF this, of "[7000000, 3000000000]"] show ?thesis
    by (simp add: buckets_ns_def numeral_2_eq_2)
qed

end
