(* ===== verification/Balancer.thy ===== *)
theory Balancer
  imports Pool Metrics
begin

text \<open>
  \<open>src/balancer.rs\<close>: what happens to a connection accepted on a VIP's L4 listener, from the choice of
  a backend to the end of the proxied connection, with the metrics it counts into.

  Connections run concurrently, each in its own task; the state holds the pool, the metrics and the
  connections that are open, and every event of one of them is a step.
\<close>

subsection \<open>State and events\<close>

datatype conn_state = Connecting bid | Proxying bid

record balancer =
  bpool :: pool
  bmetrics :: metrics
  conns :: "(conn_state \<times> key) list"

text \<open>
  \<open>n\<close> is a position in \<open>conns\<close>; \<open>PoolOp\<close> is the health loop or the API changing the pool meanwhile.
\<close>

datatype conn_event = Accept | AcceptError | ConnectOk nat | ConnectErr nat | Closed nat | PoolOp pool_op

definition vip_labels :: "string \<Rightarrow> (string \<times> string) list" where
  "vip_labels vip = [(''vip'', vip)]"

subsection \<open>Steps\<close>

text \<open>Accept: count, hold the active gauge, pick; without a healthy backend the connection drops.\<close>

definition on_accept :: "string \<Rightarrow> balancer \<Rightarrow> balancer" where
  "on_accept vip b =
     (let l = vip_labels vip; m1 = inc (bmetrics b) ''stormlb_vip_connections_total'' l
      in case active m1 ''stormlb_vip_connections_active'' l of
           (guard, m2) \<Rightarrow>
             (case pick (bpool b) of
                (None, p) \<Rightarrow>
                  b\<lparr>bpool := p,
                    bmetrics := drop_guard (inc m2 ''stormlb_vip_no_healthy_backend_total'' l) guard\<rparr>
              | (Some be, p) \<Rightarrow>
                  b\<lparr>bpool := p, bmetrics := m2, conns := conns b @ [(Connecting be, guard)]\<rparr>))"

definition remove_at :: "nat \<Rightarrow> 'a list \<Rightarrow> 'a list" where
  "remove_at n xs = take n xs @ drop (Suc n) xs"

text \<open>The task ends: the guard is dropped.\<close>

definition end_conn :: "balancer \<Rightarrow> nat \<Rightarrow> balancer" where
  "end_conn b n =
     b\<lparr>bmetrics := drop_guard (bmetrics b) (snd (conns b ! n)), conns := remove_at n (conns b)\<rparr>"

definition serve_step :: "string \<Rightarrow> balancer \<Rightarrow> conn_event \<Rightarrow> balancer" where
  "serve_step vip b e =
     (case e of
        Accept \<Rightarrow> on_accept vip b
      | AcceptError \<Rightarrow> b
      | PoolOp op \<Rightarrow> b\<lparr>bpool := pool_step (bpool b) op\<rparr>
      | ConnectOk n \<Rightarrow>
          (if n < length (conns b)
           then (case conns b ! n of
                   (Connecting be, g) \<Rightarrow> b\<lparr>conns := (conns b)[n := (Proxying be, g)]\<rparr>
                 | (Proxying _, _) \<Rightarrow> b)
           else b)
      | ConnectErr n \<Rightarrow>
          (if n < length (conns b)
           then (case conns b ! n of
                   (Connecting be, g) \<Rightarrow>
                     end_conn (b\<lparr>bmetrics := inc (bmetrics b)
                       ''stormlb_vip_upstream_connect_errors_total'' (vip_labels vip)\<rparr>) n
                 | (Proxying _, _) \<Rightarrow> b)
           else b)
      | Closed n \<Rightarrow>
          (if n < length (conns b)
           then (case conns b ! n of (Proxying be, g) \<Rightarrow> end_conn b n | (Connecting _, _) \<Rightarrow> b)
           else b))"

definition serve_vip :: "string \<Rightarrow> balancer \<Rightarrow> conn_event list \<Rightarrow> balancer" where
  "serve_vip vip b es = foldl (serve_step vip) b es"

subsection \<open>The gauge and the counters\<close>

abbreviation "active_gauge vip m \<equiv> gauge m ''stormlb_vip_connections_active'' (vip_labels vip)"

lemma vip_labels_ok [simp]: "list_all (key_ok \<circ> fst) (vip_labels vip)"
  by (simp add: vip_labels_def key_ok_def)

lemma gauge_inc [simp]: "gauge (inc m name l) = gauge m"
  by (simp add: fun_eq_iff gauge_def inc_def Let_def)

lemma gauges_inc [simp]: "gauges (inc m name l) = gauges m"
  by (simp add: inc_def Let_def)

lemma counters_guard [simp]:
  "counters (snd (active m name l)) = counters m" "counters (drop_guard m k) = counters m"
  by (simp_all add: active_def drop_guard_def Let_def split: option.split)

text \<open>What the invariant says: every guard is the VIP's, and the gauge is the number of guards.\<close>

definition gauge_ok :: "string \<Rightarrow> balancer \<Rightarrow> bool" where
  "gauge_ok vip b \<longleftrightarrow>
     (let k = (''stormlb_vip_connections_active'', labels (vip_labels vip))
      in (\<forall>c \<in> set (conns b). snd c = k)
         \<and> or_default (gauges (bmetrics b)) k 0 = word_of_nat (length (conns b))
         \<and> (conns b \<noteq> [] \<longrightarrow> gauges (bmetrics b) k \<noteq> None))"

lemma length_remove_at: "n < length xs \<Longrightarrow> length (remove_at n xs) = length xs - 1"
  by (simp add: remove_at_def)

lemma set_remove_at: "set (remove_at n xs) \<subseteq> set xs"
  by (auto simp: remove_at_def dest: in_set_takeD in_set_dropD)

lemma gauge_ok_end:
  assumes "gauge_ok vip b" and "n < length (conns b)"
  shows "gauge_ok vip (end_conn b n)"
proof -
  let ?k = "(''stormlb_vip_connections_active'', labels (vip_labels vip))"
  have k: "snd (conns b ! n) = ?k" and some: "gauges (bmetrics b) ?k \<noteq> None"
    and count: "or_default (gauges (bmetrics b)) ?k 0 = word_of_nat (length (conns b))"
    using assms by (auto simp: gauge_ok_def Let_def)
  have "(word_of_nat (length (conns b)) :: 64 word) - 1 = word_of_nat (length (conns b) - 1)"
    using assms(2) by simp
  then show ?thesis
    using some count k set_remove_at [of n "conns b"] assms
    by (auto simp: gauge_ok_def end_conn_def Let_def drop_guard_def or_default_def
        length_remove_at [OF assms(2)])
qed

lemma gauge_ok_accept: "gauge_ok vip b \<Longrightarrow> gauge_ok vip (on_accept vip b)"
  by (auto simp: gauge_ok_def on_accept_def active_def drop_guard_def or_default_def Let_def
      split: option.splits prod.splits)

lemma gauge_ok_step: "gauge_ok vip b \<Longrightarrow> gauge_ok vip (serve_step vip b e)"
proof (cases e)
  case (ConnectOk n)
  assume ok: "gauge_ok vip b"
  show ?thesis
  proof (cases "n < length (conns b)")
    case True
    obtain st g where c: "conns b ! n = (st, g)" by (rule prod.exhaust)
    then have "(st, g) \<in> set (conns b)"
      using True by (metis nth_mem)
    then have g: "g = (''stormlb_vip_connections_active'', labels (vip_labels vip))"
      using ok by (auto simp: gauge_ok_def Let_def)
    have "gauge_ok vip (b\<lparr>conns := (conns b)[n := (st', g)]\<rparr>)" for st'
      using ok True g by (auto simp: gauge_ok_def Let_def dest!: set_update_subset_insert [THEN subsetD])
    then show ?thesis
      using ok ConnectOk True c by (cases st) (simp_all add: serve_step_def)
  qed (use ok ConnectOk in \<open>simp add: serve_step_def\<close>)
next
  case (ConnectErr n)
  assume ok: "gauge_ok vip b"
  then have "gauge_ok vip (b\<lparr>bmetrics := inc (bmetrics b) name l\<rparr>)" for name l
    by (simp add: gauge_ok_def Let_def)
  then show ?thesis
    using ok ConnectErr by (auto simp: serve_step_def gauge_ok_end split: prod.splits conn_state.splits)
next
  case (Closed n)
  assume "gauge_ok vip b"
  then show ?thesis
    using Closed by (auto simp: serve_step_def gauge_ok_end split: prod.splits conn_state.splits)
qed (simp_all add: serve_step_def gauge_ok_accept, simp add: gauge_ok_def)

lemma gauge_ok_serve: "gauge_ok vip b \<Longrightarrow> gauge_ok vip (serve_vip vip b es)"
  unfolding serve_vip_def by (induction es arbitrary: b) (simp_all add: gauge_ok_step)

subsection \<open>Properties\<close>

text \<open>The gauge of active connections counts them: on a listener that starts without connections,
  after any interleaving of accepts, connects, failures, closings and changes of the pool it equals
  the number of connections open, so it returns to zero when they have all ended.\<close>

theorem active_gauge_counts_connections:
  assumes "conns b = []" and "active_gauge vip (bmetrics b) = 0"
  shows "active_gauge vip (bmetrics (serve_vip vip b es)) = word_of_nat (length (conns (serve_vip vip b es)))"
proof -
  have "gauge_ok vip b"
    using assms by (simp add: gauge_ok_def gauge_def Let_def)
  from gauge_ok_serve [OF this, of es] show ?thesis
    by (simp add: gauge_ok_def gauge_def Let_def)
qed

definition demo_balancer :: balancer where
  "demo_balancer = \<lparr>bpool = demo_pool, bmetrics = metrics_empty, conns = []\<rparr>"

lemma active_gauge_counts_connections_witness:
  "active_gauge ''kube'' (bmetrics (serve_vip ''kube'' demo_balancer [Accept, Accept, ConnectOk 0, ConnectErr 1])) = 1"
proof -
  have "conns demo_balancer = []" and "active_gauge ''kube'' (bmetrics demo_balancer) = 0"
    by (simp_all add: demo_balancer_def gauge_def or_default_def metrics_empty_def)
  from active_gauge_counts_connections [OF this, of "[Accept, Accept, ConnectOk 0, ConnectErr 1]"]
  show ?thesis
    by (simp add: serve_vip_def serve_step_def on_accept_def demo_balancer_def pick_def demo_pool_def
        healthy_at_def active_def end_conn_def remove_at_def upt_rec Let_def)
qed

text \<open>A connection goes to a healthy member or nowhere: while the pool's rotation is regular, an
  accepted connection is either opened to a member that is healthy at that moment, or, exactly when no
  member is, dropped at once and counted as such; it is counted as accepted in both cases.\<close>

theorem accept_uses_a_healthy_backend:
  assumes "regular (bpool b)"
  shows "let b' = serve_step vip b Accept; l = vip_labels vip in
    counter (bmetrics b') ''stormlb_vip_connections_total'' l
        = counter (bmetrics b) ''stormlb_vip_connections_total'' l + 1
    \<and> (if healthy_count (bpool b) = 0
       then conns b' = conns b
         \<and> counter (bmetrics b') ''stormlb_vip_no_healthy_backend_total'' l
            = counter (bmetrics b) ''stormlb_vip_no_healthy_backend_total'' l + 1
       else (\<exists>be g. conns b' = conns b @ [(Connecting be, g)]
         \<and> be \<in> set (backends (bpool b)) \<and> healthy_at (bpool b) be))"
proof -
  obtain r p where pick: "pick (bpool b) = (r, p)" by fastforce
  have iff: "(\<exists>be p'. pick (bpool b) = (Some be, p')) \<longleftrightarrow> healthy_count (bpool b) \<noteq> 0"
    using rr.pick_some_iff [OF assms] by simp
  have counter_cong: "counter m = counter m'" if "counters m = counters m'" for m m'
    by (intro ext) (simp only: counter_def that)
  have active: "counter (snd (active m name l)) = counter m" "counter (drop_guard m k) = counter m"
    for m name l k
    by (rule counter_cong, simp)+
  obtain g m2 where act: "active (inc (bmetrics b) ''stormlb_vip_connections_total'' (vip_labels vip))
      ''stormlb_vip_connections_active'' (vip_labels vip) = (g, m2)" by fastforce
  have m2: "counter m2 = counter (inc (bmetrics b) ''stormlb_vip_connections_total'' (vip_labels vip))"
    using active(1) [of "inc (bmetrics b) ''stormlb_vip_connections_total'' (vip_labels vip)"
        "''stormlb_vip_connections_active''" "vip_labels vip"] by (simp add: act)
  show ?thesis
  proof (cases r)
    case None
    then show ?thesis
      using iff pick by (simp add: serve_step_def on_accept_def act Let_def active(2) counter_inc m2)
  next
    case (Some be)
    then show ?thesis
      using iff pick rr.pick_sound [of "bpool b" be p]
      by (auto simp: serve_step_def on_accept_def act Let_def counter_inc m2)
  qed
qed

lemma accept_uses_a_healthy_backend_witness:
  "\<exists>be g. conns (serve_step ''kube'' demo_balancer Accept) = [(Connecting be, g)] \<and> healthy_at demo_pool be"
proof -
  have "regular (bpool demo_balancer)"
    by (simp add: regular_def demo_balancer_def demo_pool_def)
  from accept_uses_a_healthy_backend [OF this, of "''kube''"] show ?thesis
    by (auto simp: Let_def demo_balancer_def healthy_count_def demo_pool_def healthy_at_def)
qed

end
