(* ===== verification/Health.thy ===== *)
theory Health
  imports Pool Config
begin

text \<open>
  \<open>src/health.rs\<close>: a VIP's health spec with the HTTP client built from it, the probe of one backend,
  and the rounds that write the pool's health flags.

  The file system, the PEM reader, TCP connects and HTTP requests are outside this repository; they
  are the fields of an environment the definitions take.
\<close>

subsection \<open>The client\<close>

text \<open>What the client was built to accept as a backend's certificate.\<close>

datatype trust = AnyCertificate | Only "bytes list"

record http_client =
  client_timeout :: u64
  client_trust :: trust

record health_env =
  read_file :: "string \<Rightarrow> (string, bytes) result"
  pem_bundle :: "bytes \<Rightarrow> (string, bytes list) result"
  build_client :: "http_client \<Rightarrow> (string, unit) result"
  connects :: "sock_addr \<Rightarrow> nat \<Rightarrow> bool"
  http_get :: "http_client \<Rightarrow> string \<Rightarrow> u16 option"

text \<open>Error texts are those of the outermost context.\<close>

definition map_err :: "('e \<Rightarrow> 'f) \<Rightarrow> ('e, 'a) result \<Rightarrow> ('f, 'a) result" where
  "map_err f r = (case r of Inl e \<Rightarrow> Inl (f e) | Inr a \<Rightarrow> Inr a)"

definition client :: "health_env \<Rightarrow> health_spec \<Rightarrow> (string, http_client option) result" where
  "client env spec =
     (if mode spec = Tcp then Inr None
      else (let secs = max (timeout_secs spec) 1;
                built = (\<lambda>trust. let c = \<lparr>client_timeout = secs, client_trust = trust\<rparr>
                   in rbind (map_err (\<lambda>_. ''building the health-check client'') (build_client env c))
                        (\<lambda>_. Inr (Some c)))
            in case ca_file spec of
                 None \<Rightarrow> built AnyCertificate
               | Some file \<Rightarrow>
                   rbind (map_err (\<lambda>_. ''health.ca_file '' @ file) (read_file env file)) (\<lambda>pem.
                   rbind (map_err (\<lambda>_. ''health.ca_file '' @ file @ '': not PEM'') (pem_bundle env pem)) (\<lambda>certs.
                   rbind (ensure (certs \<noteq> []) (''health.ca_file '' @ file @ '': no certificate in it'')) (\<lambda>_.
                   built (Only certs))))))"

subsection \<open>The checker\<close>

record checker =
  spec :: health_spec
  http :: "http_client option"
  woken :: bool

text \<open>\<open>Notify\<close> keeps at most one permit.\<close>

definition checker_new :: "health_env \<Rightarrow> health_spec \<Rightarrow> (string, checker) result" where
  "checker_new env s = rbind (client env s) (\<lambda>c. Inr \<lparr>spec = s, http = c, woken = False\<rparr>)"

definition set_spec :: "health_env \<Rightarrow> checker \<Rightarrow> health_spec \<Rightarrow> (string, checker) result" where
  "set_spec env ck s = rbind (client env s) (\<lambda>c. Inr (ck\<lparr>spec := s, http := c, woken := True\<rparr>))"

definition wake :: "checker \<Rightarrow> checker" where
  "wake ck = ck\<lparr>woken := True\<rparr>"

subsection \<open>Probes and rounds\<close>

definition probe_url :: "health_spec \<Rightarrow> sock_addr \<Rightarrow> string" where
  "probe_url s a =
     (let scheme = (if mode s = Https then ''https'' else ''http'');
          p = (if take 1 (path s) = ''/'' then path s else ''/'' @ path s)
      in scheme @ ''://'' @ show_sock_addr a @ p)"

definition check :: "health_env \<Rightarrow> sock_addr \<Rightarrow> health_spec \<Rightarrow> http_client option \<Rightarrow> bool" where
  "check env a s c =
     (let dur = unat (max (timeout_secs s) 1)
      in case mode s of
           Tcp \<Rightarrow> connects env a dur
         | _ \<Rightarrow>
             (case c of
                None \<Rightarrow> False
              | Some cl \<Rightarrow>
                  (case http_get env cl (probe_url s a) of
                     Some status \<Rightarrow> status \<in> set (expect_status s)
                   | None \<Rightarrow> False)))"

text \<open>
  A round of \<open>run\<close>: the members are read once (\<open>todo\<close>), then probed one after the other, and between
  two probes the API may replace the members.
\<close>

datatype round_event = Probe | Replace "sock_addr list"

fun round_step :: "(sock_addr \<Rightarrow> bool) \<Rightarrow> pool \<times> bid list \<Rightarrow> round_event \<Rightarrow> pool \<times> bid list" where
  "round_step chk (p, []) Probe = (p, [])"
| "round_step chk (p, i # todo) Probe = (set_healthy p i (chk (addr (arena p ! i))), todo)"
| "round_step chk (p, todo) (Replace as) = (set_addrs p as, todo)"

definition round_of :: "health_env \<Rightarrow> checker \<Rightarrow> pool \<Rightarrow> round_event list \<Rightarrow> pool \<times> bid list" where
  "round_of env ck p es =
     foldl (round_step (\<lambda>a. check env a (spec ck) (http ck))) (p, backends p) es"

text \<open>The sleep after a round: a permit ends it at once, and is used up.\<close>

definition pause :: "checker \<Rightarrow> nat \<times> checker" where
  "pause ck =
     (if woken ck then (0, ck\<lparr>woken := False\<rparr>) else (unat (max (interval_secs (spec ck)) 1), ck))"

subsection \<open>What a round establishes\<close>

text \<open>Members not yet probed may carry any flag; every other member is healthy only if its probe of
  this round says so.\<close>

definition probed :: "(sock_addr \<Rightarrow> bool) \<Rightarrow> pool \<times> bid list \<Rightarrow> bool" where
  "probed chk s \<longleftrightarrow>
     (case s of (p, todo) \<Rightarrow> pool_ok p \<and> (\<forall>i \<in> set todo. i < length (arena p))
        \<and> (\<forall>i \<in> set (backends p) - set todo. is_healthy (arena p ! i) \<longrightarrow> chk (addr (arena p ! i))))"

lemma new_member_unhealthy:
  assumes "pool_ok p" and "j \<in> set (backends (set_addrs p as))" and "j \<notin> set (backends p)"
  shows "\<not> is_healthy (arena (set_addrs p as) ! j)"
proof
  let ?q = "set_addrs p as"
  assume "is_healthy (arena ?q ! j)"
  then have "(addr (arena ?q ! j), True) \<in> set (contents ?q)"
    using assms(2) by (force simp: contents_def view_at_def)
  then have "map_of (contents p) (addr (arena ?q ! j)) = Some True"
    by (auto simp: contents_set_addrs [OF assms(1)] replace_spec_def)
  then obtain i where "i \<in> set (backends p)" and "addr (arena ?q ! j) = addr (arena p ! i)"
    by (auto dest!: map_of_SomeD simp: contents_def view_at_def)
  with set_addrs_origin [OF assms(1,2)] assms(3) show False by blast
qed

lemma probed_step: "probed chk s \<Longrightarrow> probed chk (round_step chk s e)"
proof (cases s; cases e)
  fix p todo as
  assume s: "probed chk s" "s = (p, todo)" "e = Replace as"
  let ?q = "set_addrs p as"
  have ok: "pool_ok p" and todo: "\<forall>i \<in> set todo. i < length (arena p)"
    and old: "\<forall>i \<in> set (backends p) - set todo. is_healthy (arena p ! i) \<longrightarrow> chk (addr (arena p ! i))"
    using s by (auto simp: probed_def)
  have "is_healthy (arena ?q ! j) \<longrightarrow> chk (addr (arena ?q ! j))"
    if "j \<in> set (backends ?q) - set todo" for j
  proof (cases "j \<in> set (backends p)")
    case True
    then have "arena ?q ! j = arena p ! j"
      using ok arena_set_addrs(1) by (simp add: pool_ok_def)
    then show ?thesis using old True that by simp
  next
    case False
    then show ?thesis using new_member_unhealthy [OF ok] that by blast
  qed
  then show ?thesis
    using s todo by (simp add: probed_def pool_ok_set_addrs [OF ok] arena_set_addrs(2) [OF ok])
next
  fix p todo
  assume s: "probed chk s" "s = (p, todo)" "e = Probe"
  show ?thesis
  proof (cases todo)
    case (Cons i rest)
    have "arena (set_healthy p i v) ! j = (if j = i then (arena p ! i)\<lparr>is_healthy := v\<rparr> else arena p ! j)"
      if "i < length (arena p)" for j v
      using that by (simp add: set_healthy_def)
    then show ?thesis
      using s Cons by (auto simp: probed_def pool_ok_set_healthy)
  qed (use s in simp)
qed

lemma probed_round: "probed chk s \<Longrightarrow> probed chk (foldl (round_step chk) s es)"
  by (induction es arbitrary: s) (simp_all add: probed_step)

subsection \<open>Properties\<close>

text \<open>After a round nothing is healthy that this round did not find so: when all members the round
  had read are probed, whatever replacements of the member list came in between, a member is healthy
  only if its probe of this round succeeded, and a member added meanwhile is not healthy yet.\<close>

theorem round_sets_health:
  assumes "pool_ok p" and "round_of env ck p es = (p', [])" and "(a, True) \<in> set (contents p')"
  shows "check env a (spec ck) (http ck)"
proof -
  let ?chk = "\<lambda>a. check env a (spec ck) (http ck)"
  have "probed ?chk (p, backends p)"
    using assms(1) by (simp add: probed_def pool_ok_def)
  from probed_round [OF this, of es] have "probed ?chk (p', [])"
    using assms(2) by (simp add: round_of_def)
  then show ?thesis
    using assms(3) by (auto simp: probed_def contents_def view_at_def)
qed

definition demo_env :: health_env where
  "demo_env = \<lparr>read_file = (\<lambda>_. Inl []), pem_bundle = (\<lambda>_. Inl []), build_client = (\<lambda>_. Inr ()),
     connects = (\<lambda>a _. sa_port a = 6443), http_get = (\<lambda>_ _. None)\<rparr>"

definition demo_checker :: checker where
  "demo_checker = \<lparr>spec = health_default, http = None, woken = False\<rparr>"

lemma round_sets_health_witness:
  "round_of demo_env demo_checker (pool_new [SockAddr (V4 (Ipv4 10 0 0 1)) 6443]) [Probe]
     = (set_healthy (pool_new [SockAddr (V4 (Ipv4 10 0 0 1)) 6443]) 0 True, [])
   \<and> check demo_env (SockAddr (V4 (Ipv4 10 0 0 1)) 6443) (spec demo_checker) (http demo_checker)"
proof -
  let ?a = "SockAddr (V4 (Ipv4 10 0 0 1)) 6443" and ?p = "pool_new [SockAddr (V4 (Ipv4 10 0 0 1)) 6443]"
  have p: "?p = \<lparr>arena = [backend_new ?a], backends = [0], cursor = 0\<rparr>"
    by (simp add: pool_new_def set_addrs_def pool_empty_def)
  have run: "round_of demo_env demo_checker ?p [Probe] = (set_healthy ?p 0 True, [])"
    by (simp add: round_of_def p check_def demo_env_def demo_checker_def health_default_def)
  have "(?a, True) \<in> set (contents (set_healthy ?p 0 True))"
    by (simp add: p contents_def view_at_def set_healthy_def backend_new_def)
  from round_sets_health [OF pool_ok_new run this] run show ?thesis by blast
qed

text \<open>An https spec with a CA file never yields a client that accepts any certificate: when a
  checker is built, or its spec replaced, its client trusts exactly the certificates of the file,
  at least one; and a spec that is refused leaves the checker it would have replaced as it was.\<close>

theorem ca_file_is_the_only_trust:
  assumes "set_spec env ck s = Inr ck'" and "mode s \<noteq> Tcp" and "ca_file s = Some file"
  shows "\<exists>c pem certs. http ck' = Some c \<and> spec ck' = s \<and> woken ck' \<and> client_trust c = Only certs
    \<and> certs \<noteq> [] \<and> read_file env file = Inr pem \<and> pem_bundle env pem = Inr certs"
  using assms
  by (auto simp: set_spec_def client_def map_err_def rbind_eq_Inr Let_def split: sum.splits)

definition demo_tls_env :: health_env where
  "demo_tls_env = demo_env\<lparr>read_file := (\<lambda>_. Inr [1]), pem_bundle := (\<lambda>pem. Inr [pem])\<rparr>"

lemma ca_file_is_the_only_trust_witness:
  "\<exists>ck' c. set_spec demo_tls_env demo_checker (health_default\<lparr>mode := Https, ca_file := Some ''ca.crt''\<rparr>)
      = Inr ck' \<and> http ck' = Some c \<and> client_trust c = Only [[1]]"
proof -
  let ?s = "health_default\<lparr>mode := Https, ca_file := Some ''ca.crt''\<rparr>"
  obtain ck' where ck: "set_spec demo_tls_env demo_checker ?s = Inr ck'"
    by (simp add: set_spec_def client_def demo_tls_env_def demo_env_def map_err_def ensure_def Let_def)
  from ca_file_is_the_only_trust [OF this, of "''ca.crt''"] ck show ?thesis
    by (auto simp: demo_tls_env_def)
qed

end
