(* ===== verification/Vips.thy ===== *)
theory Vips
  imports Health Vrrp_Machine "HOL-Library.List_Lexorder" "HOL-Library.Char_ord"
begin

text \<open>
  \<open>src/vips.rs\<close>: the registry of named VIPs, created, changed and removed at runtime, each with its
  listener, pool, health checker and VRRP instance; and the state file the VIPs made through the API
  are kept in.

  The registry's operations take what the node answers them: whether an address can be bound, what
  the health client's files hold (read twice in an update, so given twice), whether the state file can
  be written.  The state file is here the value its text stands for; the text and the
  writing of the file are in \<open>Vips_Json\<close>, \<open>Vips_File\<close> and \<open>State_File\<close>.  Error
  texts are the constructors of \<open>reason\<close>.
\<close>

subsection \<open>Specs\<close>

definition CONFIG_VIP :: string where "CONFIG_VIP = ''default''"

record backend_spec =
  bs_address :: string
  bs_port :: u16

record vrrp_spec =
  vs_interface :: string
  vs_vrid :: u8
  vs_priority :: u8
  vs_preempt :: bool
  vs_advert_interval_secs :: u64

record vip_spec =
  v_address :: string
  v_port :: u16
  v_bind :: "string option"
  v_backends :: "backend_spec list"
  v_health :: health_spec
  v_vrrp :: "vrrp_spec option"

datatype reason =
    BadName string | BadAddress string | PortZero | BadBind string | BadBackend string
  | BackendPortZero string | PathNotAbsolute string | ZeroInterval | NoExpectStatus
  | VrrpNeedsIpv4 | NoInterface | VrrpRange | AdvertRange | BadHealth string
  | ListenerTaken sock_addr string | BindFailed string | IsConfigVip string | NoVip string
  | WriteFailed string

datatype apply_error = Invalid reason | Conflict reason | NotFound reason | NotSaved reason

subsection \<open>The registry\<close>

record vrrp_instance =
  vi_params :: params
  vi_stop :: bool
  vi_state :: u8

text \<open>An entry; \<open>e_vrrp\<close> is the instance's handle, an index into the registry's instances.\<close>

record entry =
  e_spec :: vip_spec
  e_from_config :: bool
  e_listen :: sock_addr
  e_pool :: pool
  e_checker :: checker
  e_vrrp :: "nat option"

record registry =
  vips :: "(string \<times> entry) list"
  pending :: "(string \<times> vip_spec) list"
  state_file :: "string option"
  instances :: "vrrp_instance list"
  disk :: "(string \<times> vip_spec) list option"

record node =
  can_bind :: "sock_addr \<Rightarrow> (string, unit) result"
  files :: health_env
  files_again :: health_env
  can_read :: "string \<Rightarrow> (string, unit) result"
  can_write :: "string \<Rightarrow> (string, unit) result"

definition registry_new :: "string option \<Rightarrow> (string \<times> vip_spec) list option \<Rightarrow> registry" where
  "registry_new file content =
     \<lparr>vips = [], pending = [], state_file = file, instances = [], disk = content\<rparr>"

subsection \<open>Validation\<close>

definition name_char :: "char \<Rightarrow> bool" where
  "name_char c \<longleftrightarrow> is_lower c \<or> is_digit c \<or> c = CHR ''-''"

definition valid_name :: "string \<Rightarrow> (apply_error, unit) result" where
  "valid_name name =
     ensure (name \<noteq> [] \<and> length name \<le> 63 \<and> list_all name_char name
       \<and> hd name \<noteq> CHR ''-'' \<and> last name \<noteq> CHR ''-'') (Invalid (BadName name))"

record checked =
  c_listen :: sock_addr
  c_backends :: "sock_addr list"
  c_vrrp_vip :: "ipv4 option"

definition ok_or :: "'e \<Rightarrow> 'a option \<Rightarrow> ('e, 'a) result" where
  "ok_or e x = (case x of None \<Rightarrow> Inl e | Some a \<Rightarrow> Inr a)"

fun check_backends :: "backend_spec list \<Rightarrow> (apply_error, sock_addr list) result" where
  "check_backends [] = Inr []"
| "check_backends (b # bs) =
     rbind (ok_or (Invalid (BadBackend (bs_address b))) (parse_ip (bs_address b))) (\<lambda>ip.
     rbind (ensure (bs_port b \<noteq> 0) (Invalid (BackendPortZero (bs_address b)))) (\<lambda>_.
     rbind (check_backends bs) (\<lambda>rest.
     Inr (SockAddr ip (bs_port b) # rest))))"

definition check_health :: "health_spec \<Rightarrow> (apply_error, unit) result" where
  "check_health h =
     rbind (ensure (take 1 (path h) = ''/'') (Invalid (PathNotAbsolute (path h)))) (\<lambda>_.
     rbind (ensure (interval_secs h \<noteq> 0 \<and> timeout_secs h \<noteq> 0) (Invalid ZeroInterval)) (\<lambda>_.
     ensure (expect_status h \<noteq> []) (Invalid NoExpectStatus)))"

definition check_vrrp :: "ip_addr \<Rightarrow> vrrp_spec option \<Rightarrow> (apply_error, ipv4 option) result" where
  "check_vrrp vip v =
     (case v of
        None \<Rightarrow> Inr None
      | Some v \<Rightarrow>
          (case vip of
             V6 _ \<Rightarrow> Inl (Invalid VrrpNeedsIpv4)
           | V4 v4 \<Rightarrow>
               rbind (ensure (vs_interface v \<noteq> []) (Invalid NoInterface)) (\<lambda>_.
               rbind (ensure (vs_vrid v \<noteq> 0 \<and> vs_priority v \<noteq> 0) (Invalid VrrpRange)) (\<lambda>_.
               rbind (ensure (vs_advert_interval_secs v \<noteq> 0 \<and> vs_advert_interval_secs v \<le> 40)
                 (Invalid AdvertRange)) (\<lambda>_.
               Inr (Some v4))))))"

definition check_spec :: "vip_spec \<Rightarrow> (apply_error, checked) result" where
  "check_spec s =
     rbind (ok_or (Invalid (BadAddress (v_address s))) (parse_ip (v_address s))) (\<lambda>vip.
     rbind (ensure (v_port s \<noteq> 0) (Invalid PortZero)) (\<lambda>_.
     rbind (case v_bind s of
              None \<Rightarrow> Inr vip
            | Some b \<Rightarrow> ok_or (Invalid (BadBind b)) (parse_ip b)) (\<lambda>bind_ip.
     rbind (check_backends (v_backends s)) (\<lambda>bs.
     rbind (check_health (v_health s)) (\<lambda>_.
     rbind (check_vrrp vip (v_vrrp s)) (\<lambda>vrrp_vip.
     Inr \<lparr>c_listen = SockAddr bind_ip (v_port s), c_backends = bs, c_vrrp_vip = vrrp_vip\<rparr>))))))"

definition health_ok :: "health_env \<Rightarrow> health_spec \<Rightarrow> (apply_error, unit) result" where
  "health_ok env h = map_err (\<lambda>e. Invalid (BadHealth e)) (rbind (client env h) (\<lambda>_. Inr ()))"

definition bind_listener :: "node \<Rightarrow> sock_addr \<Rightarrow> (apply_error, unit) result" where
  "bind_listener nd a = map_err (\<lambda>e. Conflict (BindFailed e)) (can_bind nd a)"

subsection \<open>VRRP instances\<close>

definition vrrp_params :: "vrrp_spec \<Rightarrow> ipv4 \<Rightarrow> params" where
  "vrrp_params v vip = \<lparr>p_vrid = vs_vrid v, p_priority = vs_priority v, p_preempt = vs_preempt v,
     p_advert_interval_secs = vs_advert_interval_secs v, p_iface = vs_interface v, p_vip = vip\<rparr>"

definition start_vrrp :: "registry \<Rightarrow> vip_spec \<Rightarrow> ipv4 option \<Rightarrow> nat option \<times> registry" where
  "start_vrrp reg s vip =
     (case (v_vrrp s, vip) of
        (Some v, Some a) \<Rightarrow>
          (Some (length (instances reg)),
           reg\<lparr>instances := instances reg
              @ [\<lparr>vi_params = vrrp_params v a, vi_stop = False, vi_state = 0\<rparr>]\<rparr>)
      | _ \<Rightarrow> (None, reg))"

definition stop_instance :: "registry \<Rightarrow> nat option \<Rightarrow> registry" where
  "stop_instance reg h =
     (case h of
        None \<Rightarrow> reg
      | Some i \<Rightarrow> reg\<lparr>instances := (instances reg)[i := (instances reg ! i)\<lparr>vi_stop := True\<rparr>]\<rparr>)"

subsection \<open>Putting a VIP\<close>

definition taken_by :: "registry \<Rightarrow> string \<Rightarrow> sock_addr \<Rightarrow> string option" where
  "taken_by reg name a =
     map_option fst (List.find (\<lambda>(n, e). n \<noteq> name \<and> e_listen e = a) (vips reg))"

definition set_entry :: "registry \<Rightarrow> string \<Rightarrow> entry \<Rightarrow> registry" where
  "set_entry reg name e = reg\<lparr>vips := bt_insert name e (vips reg)\<rparr>"

text \<open>The VIP exists: the listener is bound and the health spec read before anything changes; then
  listener, members, health spec, VRRP instance and spec are replaced, in this order.\<close>

definition update_vip ::
  "node \<Rightarrow> registry \<Rightarrow> string \<Rightarrow> vip_spec \<Rightarrow> checked \<Rightarrow> entry \<Rightarrow> (apply_error, bool) result \<times> registry"
where
  "update_vip nd reg name s c e =
     (case rbind (health_ok (files nd) (v_health s)) (\<lambda>_.
             if c_listen c \<noteq> e_listen e then bind_listener nd (c_listen c) else Inr ()) of
        Inl err \<Rightarrow> (Inl err, reg)
      | Inr _ \<Rightarrow>
          (let e1 = e\<lparr>e_listen := c_listen c, e_pool := set_addrs (e_pool e) (c_backends c)\<rparr>
           in case set_spec (files_again nd) (e_checker e1) (v_health s) of
                Inl err \<Rightarrow> (Inl (Invalid (BadHealth err)), set_entry reg name e1)
              | Inr ck \<Rightarrow>
                  (let e2 = e1\<lparr>e_checker := ck\<rparr>
                   in if v_vrrp s \<noteq> v_vrrp (e_spec e) \<or> v_address s \<noteq> v_address (e_spec e)
                      then (case start_vrrp (stop_instance reg (e_vrrp e)) s (c_vrrp_vip c) of
                              (h, reg') \<Rightarrow>
                                (Inr False, set_entry reg' name (e2\<lparr>e_vrrp := h, e_spec := s\<rparr>)))
                      else (Inr False, set_entry reg name (e2\<lparr>e_spec := s\<rparr>)))))"

definition create_vip ::
  "node \<Rightarrow> registry \<Rightarrow> string \<Rightarrow> vip_spec \<Rightarrow> bool \<Rightarrow> checked \<Rightarrow> (apply_error, bool) result \<times> registry"
where
  "create_vip nd reg name s from_config c =
     (case map_err (\<lambda>e. Invalid (BadHealth e)) (checker_new (files nd) (v_health s)) of
        Inl err \<Rightarrow> (Inl err, reg)
      | Inr ck \<Rightarrow>
          (case bind_listener nd (c_listen c) of
             Inl err \<Rightarrow> (Inl err, reg)
           | Inr _ \<Rightarrow>
               (case start_vrrp reg s (c_vrrp_vip c) of
                  (h, reg') \<Rightarrow>
                    (Inr True, set_entry reg' name
                       \<lparr>e_spec = s, e_from_config = from_config, e_listen = c_listen c,
                        e_pool = pool_new (c_backends c), e_checker = ck, e_vrrp = h\<rparr>))))"

definition put ::
  "node \<Rightarrow> registry \<Rightarrow> string \<Rightarrow> vip_spec \<Rightarrow> bool \<Rightarrow> (apply_error, bool) result \<times> registry" where
  "put nd reg name s from_config =
     (case check_spec s of
        Inl err \<Rightarrow> (Inl err, reg)
      | Inr c \<Rightarrow>
          (case taken_by reg name (c_listen c) of
             Some other \<Rightarrow> (Inl (Conflict (ListenerTaken (c_listen c) other)), reg)
           | None \<Rightarrow>
               (case map_of (vips reg) name of
                  Some e \<Rightarrow> update_vip nd reg name s c e
                | None \<Rightarrow> create_vip nd reg name s from_config c)))"

subsection \<open>Saving, applying, removing, loading\<close>

text \<open>What \<open>save\<close> writes: the VIPs that did not start, and over them those of the API.\<close>

definition saved_vips :: "registry \<Rightarrow> (string \<times> vip_spec) list" where
  "saved_vips reg =
     fold (\<lambda>(n, e) m. if e_from_config e then m else bt_insert n (e_spec e) m) (vips reg) (pending reg)"

text \<open>\<open>write_atomic\<close> replaces the file or leaves it.\<close>

definition save :: "node \<Rightarrow> registry \<Rightarrow> (apply_error, unit) result \<times> registry" where
  "save nd reg =
     (case state_file reg of
        None \<Rightarrow> (Inr (), reg)
      | Some file \<Rightarrow>
          (case can_write nd file of
             Inl err \<Rightarrow> (Inl (NotSaved (WriteFailed err)), reg)
           | Inr _ \<Rightarrow> (Inr (), reg\<lparr>disk := Some (saved_vips reg)\<rparr>)))"

definition is_config_vip :: "registry \<Rightarrow> string \<Rightarrow> bool" where
  "is_config_vip reg name = (case map_of (vips reg) name of None \<Rightarrow> False | Some e \<Rightarrow> e_from_config e)"

definition apply_vip :: "node \<Rightarrow> registry \<Rightarrow> string \<Rightarrow> vip_spec \<Rightarrow> (apply_error, bool) result \<times> registry"
where
  "apply_vip nd reg name s =
     (case valid_name name of
        Inl err \<Rightarrow> (Inl err, reg)
      | Inr _ \<Rightarrow>
          (if is_config_vip reg name then (Inl (Conflict (IsConfigVip name)), reg)
           else (case put nd reg name s False of
                   (Inl err, reg1) \<Rightarrow> (Inl err, reg1)
                 | (Inr created, reg1) \<Rightarrow>
                     (case save nd (reg1\<lparr>pending := bt_remove name (pending reg1)\<rparr>) of
                        (Inl err, reg2) \<Rightarrow> (Inl err, reg2)
                      | (Inr _, reg2) \<Rightarrow> (Inr created, reg2)))))"

text \<open>Dropping an entry stops its VRRP instance.\<close>

definition drop_entry :: "registry \<Rightarrow> entry \<Rightarrow> registry" where
  "drop_entry reg e = stop_instance reg (e_vrrp e)"

definition remove_vip :: "node \<Rightarrow> registry \<Rightarrow> string \<Rightarrow> (apply_error, unit) result \<times> registry" where
  "remove_vip nd reg name =
     (case map_of (vips reg) name of
        None \<Rightarrow>
          (if map_of (pending reg) name = None then (Inl (NotFound (NoVip name)), reg)
           else save nd (reg\<lparr>pending := bt_remove name (pending reg)\<rparr>))
      | Some e \<Rightarrow>
          (if e_from_config e then (Inl (Conflict (IsConfigVip name)), reg)
           else save nd (drop_entry (reg\<lparr>vips := bt_remove name (vips reg)\<rparr>) e)))"

text \<open>The loop of \<open>load_state\<close> over the saved VIPs, counting those that started.\<close>

fun load_vips :: "node \<Rightarrow> registry \<Rightarrow> (string \<times> vip_spec) list \<Rightarrow> nat \<times> registry" where
  "load_vips nd reg [] = (0, reg)"
| "load_vips nd reg ((name, s) # saved) =
     (case put nd reg name s False of
        (Inr _, reg1) \<Rightarrow> (case load_vips nd reg1 saved of (n, reg2) \<Rightarrow> (Suc n, reg2))
      | (Inl _, reg1) \<Rightarrow> load_vips nd (reg1\<lparr>pending := bt_insert name s (pending reg1)\<rparr>) saved)"

text \<open>An absent file is no VIPs; one that cannot be read or parsed is an error.\<close>

definition load_state :: "node \<Rightarrow> registry \<Rightarrow> (string, nat) result \<times> registry" where
  "load_state nd reg =
     (case state_file reg of
        None \<Rightarrow> (Inr 0, reg)
      | Some file \<Rightarrow>
          (case disk reg of
             None \<Rightarrow> (Inr 0, reg)
           | Some saved \<Rightarrow>
               (case can_read nd file of
                  Inl err \<Rightarrow> (Inl err, reg)
                | Inr _ \<Rightarrow> (case load_vips nd reg saved of (n, reg') \<Rightarrow> (Inr n, reg')))))"

definition config_spec :: "config \<Rightarrow> vip_spec option" where
  "config_spec cfg =
     (case cfg_vip cfg of
        None \<Rightarrow> None
      | Some v \<Rightarrow>
          Some \<lparr>v_address = vip_address v, v_port = vip_port v, v_bind = Some (vip_bind v),
            v_backends = map (\<lambda>b. \<lparr>bs_address = backend_address b, bs_port = backend_port b\<rparr>) (cfg_backends cfg),
            v_health = cfg_health cfg,
            v_vrrp =
              (if vrrp_enabled (cfg_vrrp cfg)
               then Some \<lparr>vs_interface = vrrp_interface (cfg_vrrp cfg), vs_vrid = vrrp_vrid (cfg_vrrp cfg),
                 vs_priority = vrrp_priority (cfg_vrrp cfg), vs_preempt = vrrp_preempt (cfg_vrrp cfg),
                 vs_advert_interval_secs = vrrp_advert_interval_secs (cfg_vrrp cfg)\<rparr>
               else None)\<rparr>)"

definition start_config :: "node \<Rightarrow> registry \<Rightarrow> vip_spec \<Rightarrow> (apply_error, unit) result \<times> registry" where
  "start_config nd reg s =
     (case put nd reg CONFIG_VIP s True of (r, reg') \<Rightarrow> (rbind r (\<lambda>_. Inr ()), reg'))"

definition stop_all :: "registry \<Rightarrow> registry" where
  "stop_all reg = foldl (\<lambda>r (_, e). drop_entry r e) (reg\<lparr>vips := []\<rparr>) (vips reg)"

subsection \<open>Views\<close>

record vip_view =
  w_name :: string
  w_spec :: vip_spec
  w_listening :: string
  w_source :: string
  w_healthy :: nat
  w_backends :: "(string \<times> u16 \<times> bool) list"
  w_vrrp :: "string option"

definition view :: "registry \<Rightarrow> string \<Rightarrow> entry \<Rightarrow> vip_view" where
  "view reg name e =
     (let bs = map (\<lambda>(a, h). (show_ip (sa_ip a), sa_port a, h)) (contents (e_pool e))
      in \<lparr>w_name = name, w_spec = e_spec e, w_listening = show_sock_addr (e_listen e),
          w_source = (if e_from_config e then ''config'' else ''api''),
          w_healthy = length (filter (\<lambda>(_, _, h). h) bs), w_backends = bs,
          w_vrrp = map_option (\<lambda>i. handle_name (vi_state (instances reg ! i))) (e_vrrp e)\<rparr>)"

definition get_vip :: "registry \<Rightarrow> string \<Rightarrow> vip_view option" where
  "get_vip reg name = map_option (view reg name) (map_of (vips reg) name)"

definition list_vips :: "registry \<Rightarrow> vip_view list" where
  "list_vips reg = map (\<lambda>(n, e). view reg n e) (vips reg)"

definition pool_of :: "registry \<Rightarrow> string \<Rightarrow> pool option" where
  "pool_of reg name = map_option e_pool (map_of (vips reg) name)"

end
