(* ===== verification/Vips_Proofs.thy ===== *)
theory Vips_Proofs
  imports Vips
begin

text \<open>
  What the registry of \<open>Vips\<close> keeps and promises: its invariant under every operation, the effect of
  an accepted and of a refused change, the read-only VIP of the config file, and what a restart
  restores from the state file.
\<close>

subsection \<open>The invariant\<close>

text \<open>Who listens where, and who owns which VRRP instance.\<close>

definition listens :: "registry \<Rightarrow> string \<rightharpoonup> sock_addr" where
  "listens reg n = map_option e_listen (map_of (vips reg) n)"

definition owns :: "registry \<Rightarrow> string \<rightharpoonup> nat" where
  "owns reg n = Option.bind (map_of (vips reg) n) e_vrrp"

definition owned :: "vrrp_instance list \<Rightarrow> (string \<rightharpoonup> nat) \<Rightarrow> bool" where
  "owned is f \<longleftrightarrow> ran f = {i. i < length is \<and> \<not> vi_stop (is ! i)} \<and> inj_on f (dom f)"

text \<open>
  Names are kept in order; no two VIPs listen on the same address; every pool is well formed; the
  VRRP instances that run are exactly those owned by a VIP, each by one.
\<close>

definition registry_ok :: "registry \<Rightarrow> bool" where
  "registry_ok reg \<longleftrightarrow>
     bt_ok (vips reg) \<and> bt_ok (pending reg)
     \<and> inj_on (listens reg) (dom (listens reg))
     \<and> (\<forall>n e. map_of (vips reg) n = Some e \<longrightarrow> pool_ok (e_pool e))
     \<and> owned (instances reg) (owns reg)"

lemma inj_on_fun_upd_fresh:
  "inj_on f (dom f) \<Longrightarrow> (\<forall>m. m \<noteq> n \<longrightarrow> f m \<noteq> Some a) \<Longrightarrow> inj_on (f(n \<mapsto> a)) (dom (f(n \<mapsto> a)))"
  by (auto simp: inj_on_def dom_def split: if_splits)

lemma inj_on_fun_upd_None: "inj_on f (dom f) \<Longrightarrow> inj_on (f(n := None)) (dom (f(n := None)))"
  by (auto simp: inj_on_def dom_def split: if_splits)

lemma owned_stop:
  assumes "owned is f"
  shows "owned (case f n of None \<Rightarrow> is | Some i \<Rightarrow> is[i := (is ! i)\<lparr>vi_stop := True\<rparr>]) (f(n := None))"
proof (cases "f n")
  case None
  then have "f(n := None) = f" by auto
  then show ?thesis using assms None by (simp del: fun_upd_apply)
next
  case (Some i)
  have inj: "inj_on f (dom f)" and ran: "ran f = {i. i < length is \<and> \<not> vi_stop (is ! i)}"
    using assms by (simp_all add: owned_def)
  have i: "i < length is"
    using ranI [of f n i] Some by (simp add: ran)
  have "ran (f(n := None)) = ran f - {i}"
    using inj Some by (auto simp: ran_def inj_on_def dom_def) (metis option.inject)+
  also have "\<dots> = {j. j < length (is[i := (is ! i)\<lparr>vi_stop := True\<rparr>])
      \<and> \<not> vi_stop (is[i := (is ! i)\<lparr>vi_stop := True\<rparr>] ! j)}"
    by (auto simp: ran nth_list_update i split: if_splits)
  finally show ?thesis
    using inj_on_fun_upd_None [OF inj] Some by (simp add: owned_def)
qed

lemma owned_start:
  assumes "owned is f" and "f n = None" and "\<not> vi_stop x"
  shows "owned (is @ [x]) (f(n \<mapsto> length is))"
proof -
  have inj: "inj_on f (dom f)" and ran: "ran f = {i. i < length is \<and> \<not> vi_stop (is ! i)}"
    using assms by (simp_all add: owned_def)
  have "f m \<noteq> Some (length is)" for m
    using ran by (auto simp: ran_def)
  moreover have "ran (f(n \<mapsto> length is)) = insert (length is) (ran f)"
    using assms(2) by (rule ran_map_upd)
  ultimately show ?thesis
    using inj_on_fun_upd_fresh [OF inj] assms(3) by (auto simp: owned_def ran nth_append)
qed

text \<open>What the building blocks do to the two maps.\<close>

lemma stop_instance_frame [simp]:
  "vips (stop_instance reg h) = vips reg" "pending (stop_instance reg h) = pending reg"
  "state_file (stop_instance reg h) = state_file reg" "disk (stop_instance reg h) = disk reg"
  by (simp_all add: stop_instance_def split: option.split)

lemma start_vrrp_frame:
  assumes "start_vrrp reg s vip = (h, reg')"
  shows "vips reg' = vips reg" "pending reg' = pending reg" "state_file reg' = state_file reg"
    "disk reg' = disk reg"
  using assms by (auto simp: start_vrrp_def split: option.splits)

lemma set_entry_frame [simp]:
  "vips (set_entry reg n e) = bt_insert n e (vips reg)" "pending (set_entry reg n e) = pending reg"
  "instances (set_entry reg n e) = instances reg" "state_file (set_entry reg n e) = state_file reg"
  "disk (set_entry reg n e) = disk reg"
  by (simp_all add: set_entry_def)

lemma listens_set_entry:
  "bt_ok (vips reg) \<Longrightarrow> listens (set_entry reg n e) = (listens reg)(n \<mapsto> e_listen e)"
  by (simp add: listens_def fun_eq_iff)

lemma owns_set_entry: "bt_ok (vips reg) \<Longrightarrow> owns (set_entry reg n e) = (owns reg)(n := e_vrrp e)"
  by (simp add: owns_def fun_eq_iff)

lemma owns_cong: "vips reg' = vips reg \<Longrightarrow> owns reg' = owns reg"
  by (simp add: owns_def fun_eq_iff)

lemma listens_cong: "vips reg' = vips reg \<Longrightarrow> listens reg' = listens reg"
  by (simp add: listens_def fun_eq_iff)

lemma taken_by_None:
  assumes "taken_by reg name a = None" and "bt_ok (vips reg)"
  shows "\<forall>m. m \<noteq> name \<longrightarrow> listens reg m \<noteq> Some a"
proof (intro allI impI notI)
  fix m assume "m \<noteq> name" and "listens reg m = Some a"
  then obtain e where "(m, e) \<in> set (vips reg)" and "e_listen e = a"
    by (auto simp: listens_def dest: map_of_SomeD)
  with assms(1) \<open>m \<noteq> name\<close> show False
    by (auto simp: taken_by_def find_None_iff)
qed

text \<open>Setting an entry keeps the invariant when its address is free, its pool well formed and its
  instance accounted for.\<close>

lemma registry_ok_set_entry:
  assumes "bt_ok (vips reg)" and "bt_ok (pending reg)" and "inj_on (listens reg) (dom (listens reg))"
    and "\<forall>n e. map_of (vips reg) n = Some e \<longrightarrow> pool_ok (e_pool e)"
    and "\<forall>m. m \<noteq> name \<longrightarrow> listens reg m \<noteq> Some (e_listen e)" and "pool_ok (e_pool e)"
    and "owned (instances reg) ((owns reg)(name := e_vrrp e))"
  shows "registry_ok (set_entry reg name e)"
  using assms inj_on_fun_upd_fresh [OF assms(3,5)]
  by (auto simp: registry_ok_def listens_set_entry owns_set_entry)

lemma start_vrrp_owned:
  assumes "start_vrrp reg s vip = (h, reg')" and "owned (instances reg) f" and "f n = None"
  shows "owned (instances reg') (f(n := h))"
proof (cases "v_vrrp s = None \<or> vip = None")
  case True
  then have "h = None" and "reg' = reg"
    using assms(1) by (auto simp: start_vrrp_def split: option.splits)
  moreover have "f(n := None) = f" using assms(3) by auto
  ultimately show ?thesis using assms(2) by (simp del: fun_upd_apply)
next
  case False
  then obtain x where "h = Some (length (instances reg))" and "instances reg' = instances reg @ [x]"
    and "\<not> vi_stop x"
    using assms(1) by (auto simp: start_vrrp_def)
  with owned_start [OF assms(2,3)] show ?thesis by simp
qed

lemma stop_instance_owned:
  assumes "owned (instances reg) f"
  shows "owned (instances (stop_instance reg (f n))) (f(n := None))"
  using owned_stop [OF assms, of n] by (cases "f n") (simp_all add: stop_instance_def)

subsection \<open>Every operation keeps the invariant\<close>

lemma registry_okD:
  assumes "registry_ok reg"
  shows "bt_ok (vips reg)" "bt_ok (pending reg)" "inj_on (listens reg) (dom (listens reg))"
    "\<forall>n e. map_of (vips reg) n = Some e \<longrightarrow> pool_ok (e_pool e)" "owned (instances reg) (owns reg)"
  using assms by (simp_all add: registry_ok_def)

text \<open>The ways through an update and a creation.\<close>

definition moved :: "entry \<Rightarrow> checked \<Rightarrow> entry" where
  "moved e c = e\<lparr>e_listen := c_listen c, e_pool := set_addrs (e_pool e) (c_backends c)\<rparr>"

definition admitted :: "node \<Rightarrow> vip_spec \<Rightarrow> checked \<Rightarrow> entry \<Rightarrow> (apply_error, unit) result" where
  "admitted nd s c e =
     rbind (health_ok (files nd) (v_health s)) (\<lambda>_.
       if c_listen c \<noteq> e_listen e then bind_listener nd (c_listen c) else Inr ())"

lemma update_vip_cases:
  assumes "update_vip nd reg name s c e = (r, reg')"
  obtains (refused) err where "admitted nd s c e = Inl err" "r = Inl err" "reg' = reg"
  | (partial) err where "admitted nd s c e = Inr ()"
      "set_spec (files_again nd) (e_checker e) (v_health s) = Inl err"
      "r = Inl (Invalid (BadHealth err))" "reg' = set_entry reg name (moved e c)"
  | (same) ck where "set_spec (files_again nd) (e_checker e) (v_health s) = Inr ck" "r = Inr False"
      "v_vrrp s = v_vrrp (e_spec e)" "v_address s = v_address (e_spec e)"
      "reg' = set_entry reg name (moved e c\<lparr>e_checker := ck, e_spec := s\<rparr>)"
  | (restarted) ck h reg1 where "set_spec (files_again nd) (e_checker e) (v_health s) = Inr ck" "r = Inr False"
      "start_vrrp (stop_instance reg (e_vrrp e)) s (c_vrrp_vip c) = (h, reg1)"
      "reg' = set_entry reg1 name (moved e c\<lparr>e_checker := ck, e_vrrp := h, e_spec := s\<rparr>)"
proof (cases "admitted nd s c e")
  case (Inl err)
  with assms refused show ?thesis by (simp add: update_vip_def admitted_def)
next
  case (Inr u)
  have ck: "e_checker (e\<lparr>e_listen := x, e_pool := y\<rparr>) = e_checker e" for x y by simp
  show ?thesis
  proof (cases "set_spec (files_again nd) (e_checker e) (v_health s)")
    case (Inl err)
    with assms Inr partial show ?thesis
      by (simp add: update_vip_def admitted_def moved_def Let_def)
  next
    case ok: (Inr ck)
    show ?thesis
    proof (cases "v_vrrp s \<noteq> v_vrrp (e_spec e) \<or> v_address s \<noteq> v_address (e_spec e)")
      case True
      obtain h reg1 where start: "start_vrrp (stop_instance reg (e_vrrp e)) s (c_vrrp_vip c) = (h, reg1)"
        by (rule prod.exhaust)
      from assms Inr ok True start have "r = Inr False"
        and "reg' = set_entry reg1 name (moved e c\<lparr>e_checker := ck, e_vrrp := h, e_spec := s\<rparr>)"
        by (auto simp: update_vip_def admitted_def moved_def Let_def)
      with restarted ok start show ?thesis by blast
    next
      case False
      with assms Inr ok same show ?thesis
        by (simp add: update_vip_def admitted_def moved_def Let_def)
    qed
  qed
qed

lemma create_vip_cases:
  assumes "create_vip nd reg name s fc c = (r, reg')"
  obtains (refused) err where "r = Inl err" "reg' = reg"
      "map_err (\<lambda>e. Invalid (BadHealth e)) (checker_new (files nd) (v_health s)) = Inl err
        \<or> bind_listener nd (c_listen c) = Inl err"
  | (created) ck h reg1 where "checker_new (files nd) (v_health s) = Inr ck"
      "bind_listener nd (c_listen c) = Inr ()" "start_vrrp reg s (c_vrrp_vip c) = (h, reg1)" "r = Inr True"
      "reg' = set_entry reg1 name \<lparr>e_spec = s, e_from_config = fc, e_listen = c_listen c,
         e_pool = pool_new (c_backends c), e_checker = ck, e_vrrp = h\<rparr>"
proof (cases "checker_new (files nd) (v_health s)")
  case (Inl err)
  with assms show ?thesis
    by (intro refused [of "Invalid (BadHealth err)"]) (auto simp: create_vip_def map_err_def)
next
  case (Inr ck)
  show ?thesis
  proof (cases "bind_listener nd (c_listen c)")
    case (Inl err)
    with assms Inr show ?thesis by (intro refused [of err]) (auto simp: create_vip_def map_err_def)
  next
    case bound: (Inr u)
    obtain h reg1 where start: "start_vrrp reg s (c_vrrp_vip c) = (h, reg1)"
      by (rule prod.exhaust)
    with assms Inr bound created show ?thesis by (simp add: create_vip_def map_err_def)
  qed
qed

lemma put_cases:
  assumes "put nd reg name s fc = (r, reg')"
  obtains (refused) err where "r = Inl err" "reg' = reg"
  | (update) c e where "check_spec s = Inr c" "taken_by reg name (c_listen c) = None"
      "map_of (vips reg) name = Some e" "update_vip nd reg name s c e = (r, reg')"
  | (create) c where "check_spec s = Inr c" "taken_by reg name (c_listen c) = None"
      "map_of (vips reg) name = None" "create_vip nd reg name s fc c = (r, reg')"
proof (cases "check_spec s")
  case (Inl err)
  with assms show ?thesis by (intro refused [of err]) (auto simp: put_def)
next
  case (Inr c)
  show ?thesis
  proof (cases "taken_by reg name (c_listen c)")
    case (Some other)
    with assms Inr show ?thesis
      by (intro refused [of "Conflict (ListenerTaken (c_listen c) other)"]) (auto simp: put_def)
  next
    case None
    with assms Inr update create show ?thesis
      by (cases "map_of (vips reg) name") (simp_all add: put_def)
  qed
qed

lemma registry_ok_update:
  assumes ok: "registry_ok reg" and e: "map_of (vips reg) name = Some e"
    and free: "taken_by reg name (c_listen c) = None" and e': "e_listen e' = c_listen c"
    and pool: "pool_ok (e_pool e')" and vrrp: "e_vrrp e' = e_vrrp e"
  shows "registry_ok (set_entry reg name e')"
proof -
  note parts = registry_okD [OF ok]
  have "(owns reg)(name := e_vrrp e') = owns reg"
    using e vrrp by (auto simp: owns_def)
  then show ?thesis
    using taken_by_None [OF free parts(1)] parts e' pool by (intro registry_ok_set_entry) simp_all
qed

lemma registry_ok_start:
  assumes ok: "registry_ok reg" and reg0: "vips reg0 = vips reg" "pending reg0 = pending reg"
    and owned: "owned (instances reg0) ((owns reg)(name := None))"
    and start: "start_vrrp reg0 s vip = (h, reg1)"
    and free: "taken_by reg name (c_listen c) = None" and e': "e_listen e' = c_listen c"
    and pool: "pool_ok (e_pool e')" and vrrp: "e_vrrp e' = h"
  shows "registry_ok (set_entry reg1 name e')"
proof -
  note parts = registry_okD [OF ok] and frame = start_vrrp_frame [OF start]
  have "owned (instances reg1) ((owns reg)(name := h))"
    using start_vrrp_owned [OF start owned, of name] by simp
  then show ?thesis
    using taken_by_None [OF free parts(1)] parts e' pool vrrp frame reg0
    by (intro registry_ok_set_entry) (simp_all add: owns_cong [of reg1 reg] listens_cong [of reg1 reg])
qed

lemma update_vip_ok:
  assumes ok: "registry_ok reg" and e: "map_of (vips reg) name = Some e"
    and free: "taken_by reg name (c_listen c) = None"
    and upd: "update_vip nd reg name s c e = (r, reg')"
  shows "registry_ok reg'"
proof -
  have pool: "pool_ok (set_addrs (e_pool e) (c_backends c))"
    using registry_okD(4) [OF ok] e by (blast intro: pool_ok_set_addrs)
  note upd_entry = registry_ok_update [OF ok e free]
  show ?thesis
    using upd
  proof (cases rule: update_vip_cases)
    case (restarted ck h reg1)
    have "owns reg name = e_vrrp e" using e by (simp add: owns_def)
    then have "owned (instances (stop_instance reg (e_vrrp e))) ((owns reg)(name := None))"
      using stop_instance_owned [OF registry_okD(5) [OF ok], of name] by simp
    from registry_ok_start [OF ok _ _ this restarted(3) free] pool restarted(4) show ?thesis
      by (simp add: moved_def)
  qed (use ok pool upd_entry in \<open>simp_all add: moved_def\<close>)
qed

lemma create_vip_ok:
  assumes ok: "registry_ok reg" and e: "map_of (vips reg) name = None"
    and free: "taken_by reg name (c_listen c) = None"
    and new: "create_vip nd reg name s fc c = (r, reg')"
  shows "registry_ok reg'"
  using new
proof (cases rule: create_vip_cases)
  case (created ck h reg1)
  have "(owns reg)(name := None) = owns reg" using e by (auto simp: owns_def)
  then have "owned (instances reg) ((owns reg)(name := None))"
    using registry_okD(5) [OF ok] by simp
  from registry_ok_start [OF ok refl refl this created(3) free] created(5) show ?thesis
    by (simp add: pool_ok_new)
qed (use ok in simp)

lemma put_ok: "registry_ok reg \<Longrightarrow> put nd reg name s fc = (r, reg') \<Longrightarrow> registry_ok reg'"
  by (erule put_cases) (blast intro: update_vip_ok create_vip_ok)+

lemma registry_ok_frame:
  assumes "registry_ok reg" and "vips reg' = vips reg" and "instances reg' = instances reg"
    and "bt_ok (pending reg')"
  shows "registry_ok reg'"
  using assms by (simp add: registry_ok_def owns_cong [of reg' reg] listens_cong [of reg' reg])

lemma save_frame:
  assumes "save nd reg = (r, reg')"
  shows "vips reg' = vips reg" "instances reg' = instances reg" "pending reg' = pending reg"
    "state_file reg' = state_file reg"
  using assms by (auto simp: save_def split: option.splits sum.splits)

lemma save_ok: "registry_ok reg \<Longrightarrow> save nd reg = (r, reg') \<Longrightarrow> registry_ok reg'"
  using save_frame [of nd reg r reg'] registry_okD(2) [of reg]
  by (auto intro!: registry_ok_frame [of reg reg'])

lemma pending_ok: "registry_ok reg \<Longrightarrow> bt_ok p \<Longrightarrow> registry_ok (reg\<lparr>pending := p\<rparr>)"
  by (rule registry_ok_frame) simp_all

lemma forget_pending_ok: "registry_ok reg \<Longrightarrow> registry_ok (reg\<lparr>pending := bt_remove n (pending reg)\<rparr>)"
  by (rule pending_ok) (simp_all add: registry_okD(2))

lemma apply_vip_cases:
  assumes "apply_vip nd reg name s = (r, reg')"
  obtains (refused) err where "r = Inl err" "reg' = reg"
      "valid_name name = Inl err \<or> is_config_vip reg name"
  | (failed) err where "put nd reg name s False = (Inl err, reg')" "r = Inl err"
      "valid_name name = Inr ()" "\<not> is_config_vip reg name"
  | (put) b reg1 r1 where "put nd reg name s False = (Inr b, reg1)"
      "save nd (reg1\<lparr>pending := bt_remove name (pending reg1)\<rparr>) = (r1, reg')"
      "r = rbind r1 (\<lambda>_. Inr b)" "valid_name name = Inr ()" "\<not> is_config_vip reg name"
proof (cases "valid_name name")
  case (Inl err)
  with assms show ?thesis by (intro refused [of err]) (auto simp: apply_vip_def)
next
  case (Inr u)
  show ?thesis
  proof (cases "is_config_vip reg name")
    case True
    with assms Inr show ?thesis
      by (intro refused [of "Conflict (IsConfigVip name)"]) (auto simp: apply_vip_def)
  next
    case False
    obtain r0 reg1 where p: "put nd reg name s False = (r0, reg1)" by (rule prod.exhaust)
    show ?thesis
    proof (cases r0)
      case (Inl err)
      with assms Inr False p show ?thesis by (intro failed [of err]) (auto simp: apply_vip_def)
    next
      case created: (Inr b)
      obtain r1 reg2 where sv: "save nd (reg1\<lparr>pending := bt_remove name (pending reg1)\<rparr>) = (r1, reg2)"
        by (rule prod.exhaust)
      have "reg' = reg2 \<and> r = rbind r1 (\<lambda>_. Inr b)"
        using assms Inr False p created sv by (cases r1) (auto simp: apply_vip_def)
      then show ?thesis
        using put [of b reg1 r1] p created sv Inr False by simp
    qed
  qed
qed

lemma apply_vip_ok: "registry_ok reg \<Longrightarrow> apply_vip nd reg name s = (r, reg') \<Longrightarrow> registry_ok reg'"
  by (erule apply_vip_cases) (blast intro: put_ok save_ok forget_pending_ok)+

lemma drop_ok:
  assumes "registry_ok reg" and "map_of (vips reg) name = Some e"
  shows "registry_ok (drop_entry (reg\<lparr>vips := bt_remove name (vips reg)\<rparr>) e)"
proof -
  let ?reg = "drop_entry (reg\<lparr>vips := bt_remove name (vips reg)\<rparr>) e"
  note parts = registry_okD [OF assms(1)]
  have "owns reg name = e_vrrp e" using assms(2) by (simp add: owns_def)
  moreover have "instances (stop_instance (reg\<lparr>vips := v\<rparr>) h) = instances (stop_instance reg h)" for v h
    by (simp add: stop_instance_def split: option.split)
  ultimately have "owned (instances ?reg) ((owns reg)(name := None))"
    using stop_instance_owned [OF parts(5), of name] by (simp add: drop_entry_def)
  moreover have "owns ?reg = (owns reg)(name := None)" and "listens ?reg = (listens reg)(name := None)"
    by (simp_all add: owns_def listens_def drop_entry_def fun_eq_iff)
  ultimately show ?thesis
    using parts inj_on_fun_upd_None [OF parts(3)] by (simp add: registry_ok_def drop_entry_def)
qed

lemma remove_vip_ok: "registry_ok reg \<Longrightarrow> remove_vip nd reg name = (r, reg') \<Longrightarrow> registry_ok reg'"
  by (auto simp: remove_vip_def split: option.splits if_splits
      intro: save_ok [rotated] forget_pending_ok drop_ok)

lemma load_vips_ok: "registry_ok reg \<Longrightarrow> load_vips nd reg saved = (n, reg') \<Longrightarrow> registry_ok reg'"
proof (induction saved arbitrary: reg n)
  case (Cons x saved)
  obtain name s where x: "x = (name, s)" by (rule prod.exhaust)
  obtain r reg1 where p: "put nd reg name s False = (r, reg1)" by (rule prod.exhaust)
  have ok1: "registry_ok reg1"
    using put_ok [OF Cons.prems(1) p] .
  show ?case
  proof (cases r)
    case (Inl err)
    have "registry_ok (reg1\<lparr>pending := bt_insert name s (pending reg1)\<rparr>)"
      using ok1 by (intro pending_ok) (simp_all add: registry_okD(2))
    with Cons.IH Cons.prems(2) Inl x p show ?thesis by auto
  next
    case (Inr b)
    with Cons.IH [OF ok1] Cons.prems(2) x p show ?thesis by (auto split: prod.splits)
  qed
qed simp

lemma load_state_ok: "registry_ok reg \<Longrightarrow> load_state nd reg = (r, reg') \<Longrightarrow> registry_ok reg'"
  by (auto simp: load_state_def split: option.splits sum.splits prod.splits intro: load_vips_ok)

lemma start_config_ok: "registry_ok reg \<Longrightarrow> start_config nd reg s = (r, reg') \<Longrightarrow> registry_ok reg'"
  by (auto simp: start_config_def split: prod.splits intro: put_ok)

text \<open>Stopping everything: the instances that run are those no dropped entry owned.\<close>

definition running :: "registry \<Rightarrow> nat set" where
  "running reg = {i. i < length (instances reg) \<and> \<not> vi_stop (instances reg ! i)}"

lemma running_drop_entry: "running (drop_entry reg e) = running reg - set_option (e_vrrp e)"
proof (cases "e_vrrp e")
  case (Some i)
  then show ?thesis
    by (cases "i < length (instances reg)")
      (auto simp: running_def drop_entry_def stop_instance_def nth_list_update split: if_splits)
qed (simp add: running_def drop_entry_def stop_instance_def)

lemma drop_entry_frame [simp]:
  "vips (drop_entry reg e) = vips reg" "pending (drop_entry reg e) = pending reg"
  by (simp_all add: drop_entry_def)

lemma drop_entries:
  "vips (foldl (\<lambda>r (_, e). drop_entry r e) reg es) = vips reg
   \<and> pending (foldl (\<lambda>r (_, e). drop_entry r e) reg es) = pending reg
   \<and> running (foldl (\<lambda>r (_, e). drop_entry r e) reg es)
       = running reg - (\<Union>(_, e) \<in> set es. set_option (e_vrrp e))"
  by (induction es arbitrary: reg) (auto simp: running_drop_entry)

lemma stop_all_stops:
  assumes "registry_ok reg"
  shows "registry_ok (stop_all reg) \<and> vips (stop_all reg) = [] \<and> running (stop_all reg) = {}"
proof -
  note parts = registry_okD [OF assms]
  have frame: "vips (stop_all reg) = []" "pending (stop_all reg) = pending reg"
    and run: "running (stop_all reg) = running reg - (\<Union>(_, e) \<in> set (vips reg). set_option (e_vrrp e))"
    using drop_entries [of "reg\<lparr>vips := []\<rparr>" "vips reg"]
    by (simp_all add: stop_all_def) (simp add: running_def)
  have "running reg = ran (owns reg)"
    using parts(5) by (simp add: owned_def running_def)
  also have "ran (owns reg) \<subseteq> (\<Union>(_, e) \<in> set (vips reg). set_option (e_vrrp e))"
    by (auto simp: ran_def owns_def bind_eq_Some_conv dest!: map_of_SomeD)
  finally have none: "running (stop_all reg) = {}"
    unfolding run by blast
  have empty: "listens (stop_all reg) = Map.empty"
    by (simp add: listens_def frame fun_eq_iff)
  have "owns (stop_all reg) = Map.empty"
    by (simp add: owns_def frame fun_eq_iff)
  then have "owned (instances (stop_all reg)) (owns (stop_all reg))"
    using none by (simp add: owned_def running_def)
  then show ?thesis
    using frame parts(2) none empty by (simp add: registry_ok_def)
qed

subsection \<open>Runs of the registry\<close>

text \<open>
  What happens to a registry: calls of the API and of \<open>main\<close>, a VRRP loop storing its state in its
  handle, and the health loop or the balancer working on a VIP's pool.
\<close>

datatype reg_op =
    Apply node string vip_spec | Remove node string | Load node | StartConfig node vip_spec | StopAll
  | SetState nat u8 | OnPool string pool_op

definition set_state :: "registry \<Rightarrow> nat \<Rightarrow> u8 \<Rightarrow> registry" where
  "set_state reg i v = reg\<lparr>instances := (instances reg)[i := (instances reg ! i)\<lparr>vi_state := v\<rparr>]\<rparr>"

definition on_pool :: "registry \<Rightarrow> string \<Rightarrow> pool_op \<Rightarrow> registry" where
  "on_pool reg n op =
     (case map_of (vips reg) n of
        None \<Rightarrow> reg
      | Some e \<Rightarrow> set_entry reg n (e\<lparr>e_pool := pool_step (e_pool e) op\<rparr>))"

fun reg_step :: "registry \<Rightarrow> reg_op \<Rightarrow> registry" where
  "reg_step reg (Apply nd n s) = snd (apply_vip nd reg n s)"
| "reg_step reg (Remove nd n) = snd (remove_vip nd reg n)"
| "reg_step reg (Load nd) = snd (load_state nd reg)"
| "reg_step reg (StartConfig nd s) = snd (start_config nd reg s)"
| "reg_step reg StopAll = stop_all reg"
| "reg_step reg (SetState i v) = set_state reg i v"
| "reg_step reg (OnPool n op) = on_pool reg n op"

definition reg_after ::
  "string option \<Rightarrow> (string \<times> vip_spec) list option \<Rightarrow> reg_op list \<Rightarrow> registry" where
  "reg_after file content ops = foldl reg_step (registry_new file content) ops"

lemma owned_running: "owned (instances reg) f \<longleftrightarrow> ran f = running reg \<and> inj_on f (dom f)"
  by (simp add: owned_def running_def)

lemma set_state_ok: "registry_ok reg \<Longrightarrow> registry_ok (set_state reg i v)"
proof -
  assume ok: "registry_ok reg"
  have stop: "vi_stop (instances (set_state reg i v) ! j) = vi_stop (instances reg ! j)"
    if "j < length (instances reg)" for j
    using that by (cases "j = i") (simp_all add: set_state_def)
  have len: "length (instances (set_state reg i v)) = length (instances reg)"
    by (simp add: set_state_def)
  have "running (set_state reg i v) = running reg"
  proof (rule set_eqI)
    show "j \<in> running (set_state reg i v) \<longleftrightarrow> j \<in> running reg" for j
      using stop [of j] by (simp only: running_def mem_Collect_eq len) blast
  qed
  have vi: "vips (set_state reg i v) = vips reg" "pending (set_state reg i v) = pending reg"
    by (simp_all add: set_state_def)
  show ?thesis
    using ok \<open>running (set_state reg i v) = running reg\<close>
    unfolding registry_ok_def owned_running vi owns_cong [OF vi(1)] listens_cong [OF vi(1)] by simp
qed

lemma on_pool_ok: "registry_ok reg \<Longrightarrow> registry_ok (on_pool reg n op)"
proof (cases "map_of (vips reg) n")
  case (Some e)
  assume ok: "registry_ok reg"
  note parts = registry_okD [OF ok]
  have "\<forall>m. m \<noteq> n \<longrightarrow> listens reg m \<noteq> Some (e_listen e)"
    using parts(3) Some by (auto simp: listens_def inj_on_def dom_def)
  moreover have "(owns reg)(n := e_vrrp e) = owns reg"
    using Some by (auto simp: owns_def)
  moreover have "pool_ok (pool_step (e_pool e) op)"
    using parts(4) Some by (blast intro: pool_ok_step)
  ultimately show ?thesis
    using parts Some by (simp add: on_pool_def registry_ok_set_entry)
qed (simp add: on_pool_def)

lemma reg_step_ok:
  assumes "registry_ok reg"
  shows "registry_ok (reg_step reg op)"
proof (cases op)
  case (Apply nd n s)
  show ?thesis unfolding Apply reg_step.simps by (rule apply_vip_ok [OF assms prod.collapse [symmetric]])
next
  case (Remove nd n)
  show ?thesis unfolding Remove reg_step.simps by (rule remove_vip_ok [OF assms prod.collapse [symmetric]])
next
  case (Load nd)
  show ?thesis unfolding Load reg_step.simps by (rule load_state_ok [OF assms prod.collapse [symmetric]])
next
  case (StartConfig nd s)
  show ?thesis
    unfolding StartConfig reg_step.simps by (rule start_config_ok [OF assms prod.collapse [symmetric]])
qed (simp_all add: assms stop_all_stops set_state_ok on_pool_ok)

lemma registry_new_ok: "registry_ok (registry_new file content)"
proof -
  have "listens (registry_new file content) = Map.empty" and "owns (registry_new file content) = Map.empty"
    by (simp_all add: listens_def owns_def registry_new_def fun_eq_iff)
  then show ?thesis by (simp add: registry_ok_def) (simp add: registry_new_def owned_def)
qed

lemma reg_after_ok: "registry_ok (reg_after file content ops)"
proof -
  have "registry_ok reg \<Longrightarrow> registry_ok (foldl reg_step reg ops)" for reg
    by (induction ops arbitrary: reg) (simp_all add: reg_step_ok)
  then show ?thesis by (simp add: reg_after_def registry_new_ok)
qed

subsection \<open>The effect of a change\<close>

lemma set_spec_health_ok:
  "health_ok env h = Inr () \<Longrightarrow> \<exists>ck'. set_spec env ck h = Inr ck'"
  by (auto simp: health_ok_def map_err_def set_spec_def rbind_def split: sum.splits)

lemma put_refused:
  assumes "files_again nd = files nd" and "put nd reg name s fc = (Inl err, reg')"
  shows "reg' = reg"
  using assms(2)
proof (cases rule: put_cases)
  case (update c e)
  from update(4) show ?thesis
  proof (cases rule: update_vip_cases)
    case (partial err')
    then have "health_ok (files nd) (v_health s) = Inr ()"
      by (auto simp: admitted_def rbind_def split: sum.splits)
    then obtain ck where "set_spec (files nd) (e_checker e) (v_health s) = Inr ck"
      using set_spec_health_ok by blast
    with partial(2) assms(1) show ?thesis by simp
  qed simp_all
next
  case (create c)
  from create(4) show ?thesis by (cases rule: create_vip_cases) simp_all
qed

lemma put_accepted:
  assumes "bt_ok (vips reg)" and "put nd reg name s fc = (Inr b, reg')"
  obtains c e' where "check_spec s = Inr c" and "vips reg' = bt_insert name e' (vips reg)"
    and "e_spec e' = s" and "e_listen e' = c_listen c" and "pending reg' = pending reg"
    and "b \<longleftrightarrow> map_of (vips reg) name = None"
    and "case map_of (vips reg) name of
           None \<Rightarrow> e_from_config e' = fc \<and> e_pool e' = pool_new (c_backends c)
         | Some e \<Rightarrow> e_from_config e' = e_from_config e \<and> e_pool e' = set_addrs (e_pool e) (c_backends c)"
  using assms(2)
proof (cases rule: put_cases)
  case (update c e)
  from update(4) show ?thesis
  proof (cases rule: update_vip_cases)
    case (same ck)
    then show ?thesis using that [OF update(1)] update(3) by (simp add: moved_def)
  next
    case (restarted ck h reg1)
    then show ?thesis
      using that [OF update(1)] update(3) start_vrrp_frame [OF restarted(3)] by (simp add: moved_def)
  qed simp_all
next
  case (create c)
  from create(4) show ?thesis
  proof (cases rule: create_vip_cases)
    case (created ck h reg1)
    then show ?thesis
      using that [OF create(1)] create(3) start_vrrp_frame [OF created(3)] by simp
  qed simp
qed simp

text \<open>A put of a new name: refused, or one entry more.\<close>

lemma put_fresh:
  assumes "map_of (vips reg) name = None" and "put nd reg name s fc = (r, reg')"
  obtains (refused) err where "r = Inl err" "reg' = reg"
  | (created) e where "r = Inr True" "vips reg' = bt_insert name e (vips reg)" "e_spec e = s"
      "e_from_config e = fc" "pending reg' = pending reg" "state_file reg' = state_file reg"
      "disk reg' = disk reg"
  using assms(2)
proof (cases rule: put_cases)
  case (create c)
  from create(4) show ?thesis
  proof (cases rule: create_vip_cases)
    case (created ck h reg1)
    with that(2) start_vrrp_frame [OF created(3)] show ?thesis by simp
  qed (use that(1) in simp)
qed (use assms(1) that(1) in simp_all)

lemma put_other: "bt_ok (vips reg) \<Longrightarrow> put nd reg name s fc = (r, reg') \<Longrightarrow> m \<noteq> name \<Longrightarrow>
    map_of (vips reg') m = map_of (vips reg) m"
proof (erule put_cases)
  fix c e assume "bt_ok (vips reg)" "m \<noteq> name" and upd: "update_vip nd reg name s c e = (r, reg')"
  from upd show ?thesis
  proof (cases rule: update_vip_cases)
    case (restarted ck h reg1)
    then show ?thesis
      using \<open>bt_ok (vips reg)\<close> \<open>m \<noteq> name\<close> start_vrrp_frame [OF restarted(3)] by simp
  qed (use \<open>bt_ok (vips reg)\<close> \<open>m \<noteq> name\<close> in simp_all)
next
  fix c assume "bt_ok (vips reg)" "m \<noteq> name" and new: "create_vip nd reg name s fc c = (r, reg')"
  from new show ?thesis
  proof (cases rule: create_vip_cases)
    case (created ck h reg1)
    then show ?thesis
      using \<open>bt_ok (vips reg)\<close> \<open>m \<noteq> name\<close> start_vrrp_frame [OF created(3)] by simp
  qed simp
qed simp

lemma apply_other:
  assumes "bt_ok (vips reg)" and "apply_vip nd reg name s = (r, reg')" and "m \<noteq> name"
  shows "map_of (vips reg') m = map_of (vips reg) m"
  using assms(2)
proof (cases rule: apply_vip_cases)
  case (failed err)
  then show ?thesis using put_other [OF assms(1) _ assms(3)] by blast
next
  case (put b reg1 r1)
  then show ?thesis
    using put_other [OF assms(1) put(1) assms(3)] save_frame(1) [OF put(2)] by simp
qed simp

lemma remove_other:
  assumes "remove_vip nd reg name = (r, reg')" and "m \<noteq> name"
  shows "map_of (vips reg') m = map_of (vips reg) m"
  using assms
  by (auto simp: remove_vip_def split: option.splits if_splits dest!: save_frame(1))

subsection \<open>What is saved\<close>

lemma fold_saved:
  assumes "bt_ok m" and "distinct (map fst es)"
  shows "map_of (fold (\<lambda>(n, e) m. if e_from_config e then m else bt_insert n (e_spec e) m) es m) n =
      (case map_of es n of
         Some e \<Rightarrow> if e_from_config e then map_of m n else Some (e_spec e)
       | None \<Rightarrow> map_of m n)"
  using assms
proof (induction es arbitrary: m)
  case (Cons x es)
  obtain k e where x: "x = (k, e)" by (rule prod.exhaust)
  have none: "map_of es k = None" using Cons.prems(2) x by (simp add: map_of_eq_None_iff)
  have "bt_ok (if e_from_config e then m else bt_insert k (e_spec e) m)"
    using Cons.prems(1) by simp
  from Cons.IH [OF this] Cons.prems x none show ?case
    by (auto split: option.splits)
qed simp

lemma saved_vips:
  assumes "bt_ok (vips reg)" and "bt_ok (pending reg)"
  shows "map_of (saved_vips reg) n =
      (case map_of (vips reg) n of
         Some e \<Rightarrow> if e_from_config e then map_of (pending reg) n else Some (e_spec e)
       | None \<Rightarrow> map_of (pending reg) n)"
  unfolding saved_vips_def by (rule fold_saved [OF assms(2) bt_ok_distinct [OF assms(1)]])

lemma bt_ok_saved_vips: "bt_ok (pending reg) \<Longrightarrow> bt_ok (saved_vips reg)"
proof -
  have "bt_ok m \<Longrightarrow> bt_ok (fold (\<lambda>(n, e) m. if e_from_config e then m else bt_insert n (e_spec e) m) es m)"
    for es :: "(string \<times> entry) list" and m
    by (induction es arbitrary: m) auto
  then show "bt_ok (pending reg) \<Longrightarrow> bt_ok (saved_vips reg)" by (simp add: saved_vips_def)
qed

lemma save_writes:
  "save nd reg = (Inr (), reg') \<Longrightarrow> state_file reg = Some file \<Longrightarrow> disk reg' = Some (saved_vips reg)"
  by (auto simp: save_def split: sum.splits)

end
