(* ===== verification/Vips_Props.thy ===== *)
theory Vips_Props
  imports Vips_Proofs
begin

text \<open>
  The properties of the VIP registry: its invariant over whole runs, refusals, updates, the read-only
  config VIP, the state file, and the three places where the code falls short of its comments.
\<close>

subsection \<open>A node and specs for the witnesses\<close>

definition demo_node :: node where
  "demo_node = \<lparr>can_bind = (\<lambda>_. Inr ()), files = demo_env, files_again = demo_env,
     can_read = (\<lambda>_. Inr ()), can_write = (\<lambda>_. Inr ())\<rparr>"

definition demo_spec :: "u8 \<Rightarrow> vip_spec" where
  "demo_spec n = \<lparr>v_address = show_ipv4 (Ipv4 192 168 8 n), v_port = 6443, v_bind = None,
     v_backends = [\<lparr>bs_address = show_ipv4 (Ipv4 192 168 8 98), bs_port = 6443\<rparr>],
     v_health = health_default, v_vrrp = None\<rparr>"

definition demo_checked :: "u8 \<Rightarrow> checked" where
  "demo_checked n = \<lparr>c_listen = SockAddr (V4 (Ipv4 192 168 8 n)) 6443,
     c_backends = [SockAddr (V4 (Ipv4 192 168 8 98)) 6443], c_vrrp_vip = None\<rparr>"

definition demo_entry :: "u8 \<Rightarrow> bool \<Rightarrow> entry" where
  "demo_entry n fc = \<lparr>e_spec = demo_spec n, e_from_config = fc,
     e_listen = SockAddr (V4 (Ipv4 192 168 8 n)) 6443,
     e_pool = pool_new [SockAddr (V4 (Ipv4 192 168 8 98)) 6443],
     e_checker = demo_checker, e_vrrp = None\<rparr>"

lemma check_demo_spec [simp]: "check_spec (demo_spec n) = Inr (demo_checked n)"
  by (simp add: check_spec_def demo_spec_def demo_checked_def ok_or_def ensure_def check_health_def
      health_default_def default_path_def default_interval_def default_timeout_def default_expect_def
      check_vrrp_def)

lemma checker_new_demo [simp]:
  "checker_new demo_env health_default = Inr demo_checker"
  "set_spec demo_env ck health_default = Inr (ck\<lparr>spec := health_default, http := None, woken := True\<rparr>)"
  "health_ok demo_env health_default = Inr ()"
  by (simp_all add: checker_new_def set_spec_def health_ok_def client_def health_default_def
      demo_checker_def map_err_def)

lemma v_health_demo [simp]: "v_health (demo_spec n) = health_default" "v_vrrp (demo_spec n) = None"
  by (simp_all add: demo_spec_def)

lemma demo_listen [simp]:
  "c_listen (demo_checked n) = SockAddr (V4 (Ipv4 192 168 8 n)) 6443"
  "c_backends (demo_checked n) = [SockAddr (V4 (Ipv4 192 168 8 98)) 6443]"
  by (simp_all add: demo_checked_def)

lemma put_demo:
  assumes "map_of (vips reg) name = None" and "taken_by reg name (SockAddr (V4 (Ipv4 192 168 8 n)) 6443) = None"
  shows "put demo_node reg name (demo_spec n) fc = (Inr True, set_entry reg name (demo_entry n fc))"
  using assms
  by (simp add: put_def create_vip_def demo_node_def bind_listener_def map_err_def start_vrrp_def
      demo_entry_def)

definition demo_registry :: registry where
  "demo_registry = snd (apply_vip demo_node (registry_new (Some ''vips.json'') None) ''kube'' (demo_spec 50))"

lemma valid_kube [simp]: "valid_name ''kube'' = Inr ()" "valid_name ''ingress'' = Inr ()"
  by (simp_all add: valid_name_def ensure_def name_char_def is_lower_def byte_def)

lemma demo_registry:
  "demo_registry = \<lparr>vips = [(''kube'', demo_entry 50 False)], pending = [], state_file = Some ''vips.json'',
     instances = [], disk = Some [(''kube'', demo_spec 50)]\<rparr>"
proof -
  let ?r = "registry_new (Some ''vips.json'') None"
  have "put demo_node ?r ''kube'' (demo_spec 50) False = (Inr True, set_entry ?r ''kube'' (demo_entry 50 False))"
    by (rule put_demo) (simp_all add: registry_new_def taken_by_def)
  then show ?thesis
    by (simp add: demo_registry_def apply_vip_def is_config_vip_def save_def saved_vips_def set_entry_def
        bt_remove_def registry_new_def demo_node_def demo_entry_def)
qed

lemma demo_registry_ok: "registry_ok demo_registry"
  unfolding demo_registry_def by (rule apply_vip_ok [OF registry_new_ok prod.collapse [symmetric]])

subsection \<open>The invariant\<close>

text \<open>C7: Whatever is applied, removed, loaded, probed, picked or stopped, in whatever order and with
  whatever the node answers, the registry keeps its invariant: names in order, no two VIPs on one
  listening address, well-formed pools, and the running VRRP instances are exactly those owned by a
  VIP, each by one; and stopping everything leaves no VIP and no running instance.\<close>

theorem registry_invariant:
  "registry_ok (reg_after file content ops)
   \<and> running (reg_after file content ops) = ran (owns (reg_after file content ops))
   \<and> vips (stop_all (reg_after file content ops)) = []
   \<and> running (stop_all (reg_after file content ops)) = {}"
  using reg_after_ok stop_all_stops [OF reg_after_ok] registry_okD(5) [OF reg_after_ok]
  by (simp add: owned_running)

subsection \<open>Refused and accepted changes\<close>

text \<open>C18: A refused change changes nothing: when the files a health client is built from read the same
  both times, a put that fails leaves the whole registry as it was.\<close>

theorem refused_put_changes_nothing:
  assumes "files_again nd = files nd" and "put nd reg name s fc = (Inl err, reg')"
  shows "reg' = reg"
  using assms by (rule put_refused)

lemma refused_put_changes_nothing_witness:
  "put demo_node demo_registry ''kube'' ((demo_spec 50)\<lparr>v_port := 0\<rparr>) False = (Inl (Invalid PortZero), demo_registry)"
proof -
  obtain err reg' where p: "put demo_node demo_registry ''kube'' ((demo_spec 50)\<lparr>v_port := 0\<rparr>) False = (Inl err, reg')"
    and err: "err = Invalid PortZero"
    by (simp add: put_def check_spec_def demo_spec_def ok_or_def ensure_def)
  have "files_again demo_node = files demo_node" by (simp add: demo_node_def)
  from refused_put_changes_nothing [OF this p] p err show ?thesis by simp
qed

text \<open>C32: An accepted put of a VIP that runs keeps what is known of its backends: the entry
  has the new spec and listens where it says, its pool holds the new backends, each with the health it
  had and a new one unhealthy, it stays a config or an API VIP, and every other VIP is untouched.\<close>

theorem update_keeps_health:
  assumes "bt_ok (vips reg)" and "map_of (vips reg) name = Some e" and "pool_ok (e_pool e)"
    and "put nd reg name s fc = (Inr b, reg')" and "m \<noteq> name"
  shows "\<exists>e' c. map_of (vips reg') name = Some e' \<and> \<not> b \<and> check_spec s = Inr c
    \<and> e_spec e' = s \<and> e_listen e' = c_listen c \<and> e_from_config e' = e_from_config e
    \<and> contents (e_pool e') = replace_spec (contents (e_pool e)) (c_backends c)
    \<and> map_of (vips reg') m = map_of (vips reg) m"
proof -
  obtain c e' where put: "check_spec s = Inr c" "vips reg' = bt_insert name e' (vips reg)"
    "e_spec e' = s" "e_listen e' = c_listen c" "pending reg' = pending reg"
    "b \<longleftrightarrow> map_of (vips reg) name = None"
    "case map_of (vips reg) name of
       None \<Rightarrow> e_from_config e' = fc \<and> e_pool e' = pool_new (c_backends c)
     | Some e \<Rightarrow> e_from_config e' = e_from_config e \<and> e_pool e' = set_addrs (e_pool e) (c_backends c)"
    by (rule put_accepted [OF assms(1,4)])
  then show ?thesis
    using assms contents_set_addrs [OF assms(3)] put_other [OF assms(1,4,5)] by auto
qed

lemma put_demo_again:
  "put demo_node demo_registry ''kube'' (demo_spec 50) False = (Inr False, set_entry demo_registry ''kube''
     (moved (demo_entry 50 False) (demo_checked 50)
        \<lparr>e_checker := demo_checker\<lparr>woken := True\<rparr>, e_spec := demo_spec 50\<rparr>))"
  by (simp add: put_def demo_registry taken_by_def update_vip_def demo_node_def demo_entry_def moved_def
      demo_checker_def Let_def)

lemma update_keeps_health_witness:
  "\<exists>e'. map_of (vips (snd (put demo_node demo_registry ''kube'' (demo_spec 50) False))) ''kube'' = Some e'
     \<and> e_spec e' = demo_spec 50"
proof -
  have e: "map_of (vips demo_registry) ''kube'' = Some (demo_entry 50 False)"
    by (simp add: demo_registry)
  have "pool_ok (e_pool (demo_entry 50 False))"
    by (simp add: demo_entry_def pool_ok_new)
  from update_keeps_health [OF registry_okD(1) [OF demo_registry_ok] e this put_demo_again, of "''ingress''"]
  show ?thesis by (auto simp: put_demo_again)
qed


text \<open>The VIP of the config file is read-only to the API: applying to its name is refused, as a
  conflict when the name is a valid one, and so is removing it, with nothing changed; and applying or
  removing any other name leaves it as it is.\<close>

theorem config_vip_is_read_only:
  assumes "bt_ok (vips reg)" and "is_config_vip reg n" and "valid_name n = Inr ()" and "m \<noteq> n"
  shows "apply_vip nd reg n s = (Inl (Conflict (IsConfigVip n)), reg)
    \<and> remove_vip nd reg n = (Inl (Conflict (IsConfigVip n)), reg)
    \<and> map_of (vips (snd (apply_vip nd reg m s))) n = map_of (vips reg) n
    \<and> map_of (vips (snd (remove_vip nd reg m))) n = map_of (vips reg) n"
  using assms apply_other [OF assms(1) prod.collapse [symmetric], of n m]
    remove_other [OF prod.collapse [symmetric], of n m]
  by (auto simp: apply_vip_def remove_vip_def is_config_vip_def split: option.splits)

definition demo_config_registry :: registry where
  "demo_config_registry = snd (put demo_node (registry_new (Some ''vips.json'') (Some [(''default'', demo_spec 99)]))
     ''default'' (demo_spec 50) True)"

lemma demo_config_registry:
  "demo_config_registry = \<lparr>vips = [(''default'', demo_entry 50 True)], pending = [],
     state_file = Some ''vips.json'', instances = [], disk = Some [(''default'', demo_spec 99)]\<rparr>"
proof -
  let ?r = "registry_new (Some ''vips.json'') (Some [(''default'', demo_spec 99)])"
  have "put demo_node ?r ''default'' (demo_spec 50) True = (Inr True, set_entry ?r ''default'' (demo_entry 50 True))"
    by (rule put_demo) (simp_all add: registry_new_def taken_by_def)
  then show ?thesis
    by (simp add: demo_config_registry_def set_entry_def registry_new_def)
qed

lemma config_vip_is_read_only_witness:
  "remove_vip demo_node demo_config_registry ''default'' = (Inl (Conflict (IsConfigVip ''default'')), demo_config_registry)"
proof -
  have "bt_ok (vips demo_config_registry)" and "is_config_vip demo_config_registry ''default''"
    by (simp_all add: demo_config_registry is_config_vip_def bt_ok_def demo_entry_def)
  moreover have "valid_name ''default'' = Inr ()"
    by (simp add: valid_name_def ensure_def name_char_def is_lower_def byte_def)
  ultimately show ?thesis
    using config_vip_is_read_only [of demo_config_registry "''default''" "''kube''" demo_node] by simp
qed

text \<open>Loading the state file is not bound by that: a VIP saved under the config VIP's name (made
  through the API before the config file had a \<open>[vip]\<close>) replaces, at the next start, the address and
  the spec of the read-only VIP, which still counts as the config file's.\<close>

theorem load_overwrites_config_vip:
  "\<exists>nd reg n reg' e'. is_config_vip reg CONFIG_VIP \<and> load_state nd reg = (Inr n, reg')
     \<and> map_of (vips reg') CONFIG_VIP = Some e' \<and> e_from_config e'
     \<and> (\<exists>e. map_of (vips reg) CONFIG_VIP = Some e \<and> e_listen e' \<noteq> e_listen e \<and> e_spec e' \<noteq> e_spec e)"
proof -
  let ?e' = "moved (demo_entry 50 True) (demo_checked 99)
      \<lparr>e_checker := demo_checker\<lparr>woken := True\<rparr>, e_vrrp := None, e_spec := demo_spec 99\<rparr>"
  have neq: "demo_spec 50 \<noteq> demo_spec 99"
    by (simp add: demo_spec_def)
  have addr: "v_address (demo_spec 99) \<noteq> v_address (demo_spec 50)"
    by (simp add: demo_spec_def)
  have "put demo_node demo_config_registry ''default'' (demo_spec 99) False =
      (Inr False, set_entry demo_config_registry ''default'' ?e')"
    using addr
    by (simp add: put_def demo_config_registry taken_by_def update_vip_def demo_node_def demo_entry_def
        bind_listener_def map_err_def start_vrrp_def stop_instance_def moved_def demo_checker_def Let_def)
  then have "load_state demo_node demo_config_registry =
      (Inr 1, set_entry demo_config_registry ''default'' ?e')"
    by (simp add: load_state_def) (simp add: demo_config_registry demo_node_def)
  moreover have "map_of (vips (set_entry demo_config_registry ''default'' ?e')) ''default'' = Some ?e'"
    by (simp add: demo_config_registry)
  moreover have "is_config_vip demo_config_registry ''default''"
    and "map_of (vips demo_config_registry) ''default'' = Some (demo_entry 50 True)"
    by (simp_all add: demo_config_registry is_config_vip_def demo_entry_def)
  moreover have "e_from_config ?e'" and "e_listen ?e' \<noteq> e_listen (demo_entry 50 True)"
    and "e_spec ?e' \<noteq> e_spec (demo_entry 50 True)"
    using neq by (simp_all add: moved_def demo_entry_def)
  ultimately show ?thesis
    unfolding CONFIG_VIP_def by blast
qed

text \<open>The promise that a refusal changes nothing has a gap: the CA file is read again after it was
  checked, and when that second reading fails (the file was replaced in between) the update is answered
  with an error although listener and members have been changed, under the old spec.\<close>

theorem refusal_after_partial_update:
  "\<exists>nd reg s err reg' e e'. registry_ok reg \<and> put nd reg ''kube'' s False = (Inl err, reg')
     \<and> map_of (vips reg) ''kube'' = Some e \<and> map_of (vips reg') ''kube'' = Some e'
     \<and> e_listen e' \<noteq> e_listen e \<and> contents (e_pool e') \<noteq> contents (e_pool e) \<and> e_spec e' = e_spec e"
proof -
  let ?nd = "demo_node\<lparr>files := demo_tls_env\<rparr>"
  let ?h = "health_default\<lparr>mode := Https, ca_file := Some ''ca.crt''\<rparr>"
  let ?s = "(demo_spec 99)\<lparr>v_health := ?h, v_backends := []\<rparr>"
  let ?c = "demo_checked 99\<lparr>c_backends := []\<rparr>"
  have check: "check_spec ?s = Inr ?c"
    by (simp add: check_spec_def demo_spec_def demo_checked_def ok_or_def ensure_def check_health_def
        health_default_def default_path_def default_interval_def default_timeout_def default_expect_def
        check_vrrp_def)
  have first: "health_ok demo_tls_env ?h = Inr ()"
    by (simp add: health_ok_def client_def demo_tls_env_def demo_env_def map_err_def ensure_def Let_def)
  obtain err where second: "set_spec demo_env (e_checker (demo_entry 50 False)) ?h = Inl err"
    by (simp add: set_spec_def client_def demo_env_def map_err_def Let_def)
  have "put ?nd demo_registry ''kube'' ?s False =
      (Inl (Invalid (BadHealth err)), set_entry demo_registry ''kube'' (moved (demo_entry 50 False) ?c))"
    using first second
    by (simp add: put_def check demo_registry taken_by_def update_vip_def demo_node_def bind_listener_def
        map_err_def moved_def demo_entry_def Let_def)
  moreover have "map_of (vips demo_registry) ''kube'' = Some (demo_entry 50 False)"
    and "map_of (vips (set_entry demo_registry ''kube'' (moved (demo_entry 50 False) ?c))) ''kube''
      = Some (moved (demo_entry 50 False) ?c)"
    by (simp_all add: demo_registry)
  moreover have "contents (e_pool (moved (demo_entry 50 False) ?c)) \<noteq> contents (e_pool (demo_entry 50 False))"
    by (simp add: moved_def demo_entry_def contents_set_addrs pool_ok_new contents_new replace_spec_def)
  ultimately show ?thesis
    using demo_registry_ok by (intro exI conjI) (assumption | simp add: moved_def demo_entry_def)+
qed

end
