(* ===== verification/L4_Listen.thy ===== *)
theory L4_Listen
  imports Vips_Props
begin

text \<open>
  How a VIP's listener is made (\<open>src/balancer.rs\<close>, \<open>bind\<close>): the socket calls in their order, on a kernel
  that is a parameter.  \<open>linux_tcp\<close> is what ip(7), socket(7) and bind(2) document of it, told by
  \<open>tcp_rule\<close>: which addresses a listening socket takes, and what \<open>IP_FREEBIND\<close> lets a socket bind.
\<close>

subsection \<open>The calls\<close>








subsection \<open>The kernel's rules\<close>











subsection \<open>A node on such a kernel\<close>





end
