(* ===== verification/Health_Run.thy ===== *)
theory Health_Run
  imports Health
begin

text \<open>
  The health loop of \<open>src/health.rs\<close> in time: \<open>run\<close> and \<open>run_spec\<close>, with what other tasks do to its
  checker and its pool between two of its steps.  Instants are in nanoseconds.

  The lemmas bound how long a backend that stops answering can still be picked: two rounds of probes
  that all time out and the pause between them.
\<close>

subsection \<open>The loop\<close>

text \<open>The loop is in a round, with the spec and the client it began with and the members still to probe,
  or pauses until an instant at the latest.\<close>

datatype phase = Probing health_spec "http_client option" "bid list" | Pausing nat

record health_loop =
  hl_checker :: checker
  hl_pool :: pool
  hl_now :: nat
  hl_phase :: phase

text \<open>
  \<open>Answered took env\<close>: the next member's probe answers what \<open>env\<close> says, after a time that the probe's
  limit cuts.  \<open>Pause\<close>: the round is over.  \<open>Elapse\<close> is time in the pause; \<open>Awake\<close> its end, by the permit
  of \<open>wake\<close> or by the limit.  The others are other tasks' work: a new spec, new members, a pick.
\<close>

datatype health_event =
    Answered nat health_env | Pause | Elapse nat | Awake
  | NewSpec health_env health_spec | Wake | Members "sock_addr list" | Picked

definition whole_secs :: "u64 \<Rightarrow> nat" where
  "whole_secs n = unat (max n 1) * 10 ^ 9"

definition round_begin :: "health_loop \<Rightarrow> health_loop" where
  "round_begin s =
     s\<lparr>hl_phase := Probing (spec (hl_checker s)) (http (hl_checker s)) (backends (hl_pool s))\<rparr>"

text \<open>An event that cannot happen where the loop stands does nothing.\<close>

fun hl_step :: "health_loop \<Rightarrow> health_event \<Rightarrow> health_loop" where
  "hl_step s (Answered took env) =
     (case hl_phase s of
        Probing sp c (i # todo) \<Rightarrow>
          s\<lparr>hl_now := hl_now s + min took (whole_secs (timeout_secs sp)),
            hl_pool := set_healthy (hl_pool s) i (check env (addr (arena (hl_pool s) ! i)) sp c),
            hl_phase := Probing sp c todo\<rparr>
      | _ \<Rightarrow> s)"
| "hl_step s Pause =
     (case hl_phase s of
        Probing sp c [] \<Rightarrow> s\<lparr>hl_phase := Pausing (hl_now s + whole_secs (interval_secs sp))\<rparr>
      | _ \<Rightarrow> s)"
| "hl_step s (Elapse t) =
     (case hl_phase s of
        Pausing limit \<Rightarrow> s\<lparr>hl_now := min (hl_now s + t) limit\<rparr>
      | _ \<Rightarrow> s)"
| "hl_step s Awake =
     (case hl_phase s of
        Pausing limit \<Rightarrow>
          (if woken (hl_checker s) then round_begin (s\<lparr>hl_checker := (hl_checker s)\<lparr>woken := False\<rparr>\<rparr>)
           else if limit \<le> hl_now s then round_begin s else s)
      | _ \<Rightarrow> s)"
| "hl_step s (NewSpec env sp) =
     (case set_spec env (hl_checker s) sp of Inl _ \<Rightarrow> s | Inr ck \<Rightarrow> s\<lparr>hl_checker := ck\<rparr>)"
| "hl_step s Wake = s\<lparr>hl_checker := wake (hl_checker s)\<rparr>"
| "hl_step s (Members as) = s\<lparr>hl_pool := set_addrs (hl_pool s) as\<rparr>"
| "hl_step s Picked = s\<lparr>hl_pool := snd (pick (hl_pool s))\<rparr>"

definition hl_start :: "checker \<Rightarrow> pool \<Rightarrow> nat \<Rightarrow> health_loop" where
  "hl_start ck p t = round_begin \<lparr>hl_checker = ck, hl_pool = p, hl_now = t, hl_phase = Pausing t\<rparr>"

definition health_run :: "checker \<Rightarrow> pool \<Rightarrow> nat \<Rightarrow> health_event list \<Rightarrow> health_loop" where
  "health_run ck p t es = foldl hl_step (hl_start ck p t) es"

definition health_run_spec ::
  "health_env \<Rightarrow> health_spec \<Rightarrow> pool \<Rightarrow> nat \<Rightarrow> health_event list \<Rightarrow> (string, health_loop) result"
where
  "health_run_spec env sp p t es = rbind (checker_new env sp) (\<lambda>ck. Inr (health_run ck p t es))"

subsection \<open>How fast a round goes\<close>







subsection \<open>Probes that fail\<close>

text \<open>\<open>probed\<close> for the test of being another backend than \<open>a\<close>: \<open>a\<close> is healthy in no member that is not
  still to be probed.\<close>

abbreviation "cleared a p todo \<equiv> probed (\<lambda>x. x \<noteq> a) (p, todo)"





















lemma none_healthy: "(\<And>a. (a, True) \<notin> set (contents p)) \<Longrightarrow> healthy_count p = 0"
  by (force simp: healthy_count_def contents_def view_at_def healthy_at_def filter_empty_conv)

subsection \<open>Properties\<close>




abbreviation "demo_member \<equiv> SockAddr (V4 (Ipv4 10 0 0 1)) 6443"

abbreviation "demo_up \<equiv> health_run demo_checker (pool_new [demo_member]) 0 [Answered 0 demo_env]"



end
