(* ===== verification/Failover.thy ===== *)
theory Failover
  imports Vrrp_Network Health_Run
begin

text \<open>
  From a dead backend to another node: \<open>start_vrrp\<close> of \<open>src/vips.rs\<close> gives the VRRP loop of
  \<open>src/vrrp.rs\<close> the question whether the VIP's pool has a healthy member, which the health loop of
  \<open>src/health.rs\<close> answers.  The theory composes the three: health loop, pool and control loops of two
  nodes.
\<close>










end
