(* ===== verification/Vip_System.thy ===== *)
theory Vip_System
  imports Failover Vip_Ownership Balancer
begin

text \<open>
  One VIP while it runs, as \<open>put\<close> of \<open>src/vips.rs\<close> starts it: the health loop (\<open>src/health.rs\<close>), the
  listener with its connections' tasks (\<open>src/balancer.rs\<close>) and the VRRP thread (\<open>src/vrrp.rs\<close>) share one
  pool (\<open>src/pool.rs\<close>), which the API replaces the members of, and the VRRP thread works on the node's
  interface (\<open>src/vip.rs\<close>).  Any of them may move next: the steps are a relation, and what holds of a
  VIP is what every run of it keeps.
\<close>

subsection \<open>State and steps\<close>

text \<open>The pool is the health loop's; an instance's thread has an outcome, \<open>Running\<close> while it lives.  \<open>y_master\<close>
  says whether its router is Master, or was when the thread failed; \<open>y_called\<close>, whether its last claim or
  release succeeded.\<close>

record 'k vip_system =
  y_loop :: health_loop
  y_metrics :: metrics
  y_conns :: "(conn_state \<times> key) list"
  y_vrrp :: outcome
  y_master :: bool
  y_called :: bool
  y_kernel :: 'k

abbreviation "y_pool s \<equiv> hl_pool (y_loop s)"

text \<open>The balancer's state within it.\<close>

definition bal :: "'k vip_system \<Rightarrow> balancer" where
  "bal s = \<lparr>bpool = y_pool s, bmetrics = y_metrics s, conns = y_conns s\<rparr>"

definition put_bal :: "'k vip_system \<Rightarrow> balancer \<Rightarrow> 'k vip_system" where
  "put_bal s b =
     s\<lparr>y_loop := (y_loop s)\<lparr>hl_pool := bpool b\<rparr>, y_metrics := bmetrics b, y_conns := conns b\<rparr>"

text \<open>What a step shows: a probe and its answer, new members, an address that is dialled.\<close>

datatype label = ProbeOf sock_addr bool | Relisted "sock_addr list" | Dialled sock_addr | Quietly

definition accept_label :: "pool \<Rightarrow> label" where
  "accept_label p = (case fst (pick p) of None \<Rightarrow> Quietly | Some i \<Rightarrow> Dialled (addr (arena p ! i)))"

inductive vip_step ::
  "'k kernel \<Rightarrow> params \<Rightarrow> ipv4 \<Rightarrow> string \<Rightarrow> 'k vip_system \<Rightarrow> label \<Rightarrow> 'k vip_system \<Rightarrow> bool"
  for kern p self vip
where
  probe: "hl_phase (y_loop s) = Probing sp c (i # todo) \<Longrightarrow>
     vip_step kern p self vip s
       (ProbeOf (addr (arena (y_pool s) ! i)) (check env (addr (arena (y_pool s) ! i)) sp c))
       (s\<lparr>y_loop := hl_step (y_loop s) (Answered took env)\<rparr>)"
| clockwork: "e \<in> {Pause, Awake, Wake, Elapse t} \<Longrightarrow>
     vip_step kern p self vip s Quietly (s\<lparr>y_loop := hl_step (y_loop s) e\<rparr>)"
| relist: "vip_step kern p self vip s (Relisted as) (s\<lparr>y_loop := hl_step (y_loop s) (Members as)\<rparr>)"
| respec: "vip_step kern p self vip s Quietly (s\<lparr>y_loop := hl_step (y_loop s) (NewSpec env sp)\<rparr>)"
| accept: "vip_step kern p self vip s (accept_label (y_pool s)) (put_bal s (serve_step vip (bal s) Accept))"
| conn: "e \<in> {AcceptError, ConnectOk n, ConnectErr n, Closed n} \<Longrightarrow>
     vip_step kern p self vip s Quietly (put_bal s (serve_step vip (bal s) e))"
| vrrp: "y_vrrp s = Running l \<Longrightarrow> healthy_now i = vip_healthy (y_loop s) \<Longrightarrow> turn p self l i = (acts, r) \<Longrightarrow>
     vip_step kern p self vip s Quietly (s\<lparr>y_vrrp := r, y_master := stands p self l i,
       y_called := answered kern p (y_called s) (y_kernel s) acts, y_kernel := perform kern p (y_kernel s) acts\<rparr>)"

text \<open>Runs, the newest label first.\<close>

inductive vip_run ::
  "'k kernel \<Rightarrow> params \<Rightarrow> ipv4 \<Rightarrow> string \<Rightarrow> 'k vip_system \<Rightarrow> label list \<Rightarrow> 'k vip_system \<Rightarrow> bool"
  for kern p self vip s\<^sub>0
where
  begun: "vip_run kern p self vip s\<^sub>0 [] s\<^sub>0"
| next_step: "vip_run kern p self vip s\<^sub>0 ls s \<Longrightarrow> vip_step kern p self vip s l t \<Longrightarrow>
     vip_run kern p self vip s\<^sub>0 (l # ls) t"

inductive_cases vip_run_snoc: "vip_run kern p self vip s\<^sub>0 (l # ls) t"

text \<open>\<open>create_vip\<close>: a pool of unhealthy members, no connections, the VRRP thread at the start of its loop.\<close>

definition vip_start ::
  "'k kernel \<Rightarrow> params \<Rightarrow> checker \<Rightarrow> sock_addr list \<Rightarrow> metrics \<Rightarrow> bool \<Rightarrow> nat \<Rightarrow> 'k \<Rightarrow> 'k vip_system"
where
  "vip_start kern p ck as m healthy t k =
     (case begin_loop p healthy t t of
        (acts, l) \<Rightarrow>
          \<lparr>y_loop = hl_start ck (pool_new as) t, y_metrics = m, y_conns = [],
           y_vrrp = Running l, y_master = is_up l, y_called = answered kern p True k acts,
           y_kernel = perform kern p k acts\<rparr>)"

subsection \<open>What the probes have said\<close>

text \<open>An address is vouched for while its last probe succeeded and no list since has left it out.\<close>

fun vouched :: "sock_addr \<Rightarrow> label list \<Rightarrow> bool" where
  "vouched a [] = False"
| "vouched a (ProbeOf b ok # ls) = (if b = a then ok else vouched a ls)"
| "vouched a (Relisted as # ls) = (a \<in> set as \<and> vouched a ls)"
| "vouched a (Dialled b # ls) = vouched a ls"
| "vouched a (Quietly # ls) = vouched a ls"

text \<open>The members that are healthy are vouched for.\<close>

definition members_ok :: "label list \<Rightarrow> pool \<Rightarrow> bool" where
  "members_ok ls p \<longleftrightarrow> pool_ok p
     \<and> (\<forall>i \<in> set (backends p). is_healthy (arena p ! i) \<longrightarrow> vouched (addr (arena p ! i)) ls)"

text \<open>A member still to be probed that has left the pool may have come back as a new backend; that one
  is not healthy before its own probe.\<close>

definition todo_ok :: "pool \<Rightarrow> bid list \<Rightarrow> bool" where
  "todo_ok p todo \<longleftrightarrow> (\<forall>i \<in> set todo. i < length (arena p)) \<and> inj_on (\<lambda>i. addr (arena p ! i)) (set todo)
     \<and> (\<forall>i \<in> set todo. \<forall>j \<in> set (backends p). addr (arena p ! j) = addr (arena p ! i) \<longrightarrow>
          i \<in> set (backends p) \<or> \<not> is_healthy (arena p ! j))"

definition vouched_ok :: "label list \<Rightarrow> health_loop \<Rightarrow> bool" where
  "vouched_ok ls s \<longleftrightarrow> members_ok ls (hl_pool s)
     \<and> (case hl_phase s of Probing sp c todo \<Rightarrow> todo_ok (hl_pool s) todo | Pausing _ \<Rightarrow> True)"

lemma same_addr_same_member:
  "pool_ok p \<Longrightarrow> i \<in> set (backends p) \<Longrightarrow> j \<in> set (backends p) \<Longrightarrow>
     addr (arena p ! i) = addr (arena p ! j) \<Longrightarrow> i = j"
  by (auto simp: pool_ok_alt dest: inj_onD)

lemma members_ok_quiet [simp]:
  "members_ok (Quietly # ls) p = members_ok ls p" "members_ok (Dialled a # ls) p = members_ok ls p"
  by (simp_all add: members_ok_def)

lemma todo_okD:
  "todo_ok p todo \<Longrightarrow> i \<in> set todo \<Longrightarrow> j \<in> set (backends p) \<Longrightarrow> addr (arena p ! j) = addr (arena p ! i) \<Longrightarrow>
     is_healthy (arena p ! j) \<Longrightarrow> i \<in> set (backends p)"
  unfolding todo_ok_def by blast

lemma arena_set_healthy:
  "i < length (arena p) \<Longrightarrow>
     arena (set_healthy p i v) ! j = (if j = i then (arena p ! i)\<lparr>is_healthy := v\<rparr> else arena p ! j)"
  by (simp add: set_healthy_def)

lemma members_probed:
  assumes ok: "members_ok ls p" and todo: "todo_ok p (i # todo)"
  shows "members_ok (ProbeOf (addr (arena p ! i)) v # ls) (set_healthy p i v)"
proof -
  have i: "i < length (arena p)" and pool: "pool_ok p" using ok todo by (simp_all add: members_ok_def todo_ok_def)
  have "vouched (addr (arena (set_healthy p i v) ! j)) (ProbeOf (addr (arena p ! i)) v # ls)"
    if j: "j \<in> set (backends p)" and h: "is_healthy (arena (set_healthy p i v) ! j)" for j
  proof (cases "j = i")
    case False
    then have up: "is_healthy (arena p ! j)" using h by (simp add: arena_set_healthy [OF i])
    then have "addr (arena p ! j) \<noteq> addr (arena p ! i)"
      using todo_okD [OF todo _ j] same_addr_same_member [OF pool j, of i] False by auto
    then show ?thesis using ok j False up by (simp add: arena_set_healthy [OF i] members_ok_def)
  qed (use h in \<open>simp add: arena_set_healthy [OF i]\<close>)
  then show ?thesis using pool by (simp add: members_ok_def pool_ok_set_healthy del: vouched.simps)
qed

lemma todo_probed:
  assumes todo: "todo_ok p (i # todo)"
  shows "todo_ok (set_healthy p i v) todo"
proof -
  have i: "i < length (arena p)" and inj: "inj_on (\<lambda>i. addr (arena p ! i)) (set (i # todo))"
    using todo by (simp_all add: todo_ok_def)
  have same: "addr (arena (set_healthy p i v) ! j) = addr (arena p ! j)" for j
    by (simp add: arena_set_healthy [OF i])
  have "k \<in> set (backends p)"
    if k: "k \<in> set todo" and j: "j \<in> set (backends p)" and a: "addr (arena p ! j) = addr (arena p ! k)"
      and h: "is_healthy (arena (set_healthy p i v) ! j)" for j k
  proof (cases "j = i")
    case True
    then have "k = i" using inj_onD [OF inj, of k i] a k by simp
    then show ?thesis using True j by simp
  next
    case False
    then show ?thesis using todo_okD [OF todo _ j a] k h by (simp add: arena_set_healthy [OF i])
  qed
  then show ?thesis
    using todo by (auto simp: todo_ok_def same inj_on_def)
qed

lemma todo_all: "pool_ok p \<Longrightarrow> todo_ok p (backends p)"
  by (auto simp: todo_ok_def pool_ok_alt)

lemma members_relisted:
  assumes ok: "members_ok ls p"
  shows "members_ok (Relisted as # ls) (set_addrs p as)"
    and "todo_ok p todo \<Longrightarrow> todo_ok (set_addrs p as) todo"
proof -
  let ?q = "set_addrs p as"
  have pool: "pool_ok p" using ok by (simp add: members_ok_def)
  note kept = arena_set_addrs [OF pool]
  have old: "j \<in> set (backends p) \<and> j < length (arena p)"
    if "j \<in> set (backends ?q)" "is_healthy (arena ?q ! j)" for j
    using new_member_unhealthy [OF pool that(1)] that(2) pool by (auto simp: pool_ok_def)
  have listed: "addr (arena ?q ! j) \<in> set as" if "j \<in> set (backends ?q)" for j
  proof -
    have "addr (arena ?q ! j) \<in> fst ` set (contents ?q)" using that by (force simp: contents_def view_at_def)
    then show ?thesis by (auto simp: contents_set_addrs [OF pool] replace_spec_def set_firsts)
  qed
  have "vouched (addr (arena ?q ! j)) (Relisted as # ls)"
    if j: "j \<in> set (backends ?q)" "is_healthy (arena ?q ! j)" for j
    using ok old [OF j] j listed [OF j(1)] kept by (simp add: members_ok_def)
  then show "members_ok (Relisted as # ls) ?q"
    by (simp add: members_ok_def pool_ok_set_addrs [OF pool])
  assume todo: "todo_ok p todo"
  have "i \<in> set (backends ?q)"
    if i: "i \<in> set todo" and j: "j \<in> set (backends ?q)" and a: "addr (arena ?q ! j) = addr (arena ?q ! i)"
      and h: "is_healthy (arena ?q ! j)" for i j
  proof -
    have il: "i < length (arena p)" using todo i by (simp add: todo_ok_def)
    have o: "j \<in> set (backends p)" "j < length (arena p)" using old [OF j h] by auto
    have a': "addr (arena p ! j) = addr (arena p ! i)" using a kept(1) il o(2) by simp
    then have "i \<in> set (backends p)"
      using todo_okD [OF todo i o(1)] h kept(1) o(2) by simp
    then have "i = j" using same_addr_same_member [OF pool _ o(1)] a' by simp
    then show ?thesis using j by simp
  qed
  then show "todo_ok ?q todo"
    using todo kept unfolding todo_ok_def inj_on_def by (metis (no_types, lifting))
qed

lemma vouched_probe:
  assumes "vouched_ok ls s" and "hl_phase s = Probing sp c (i # todo)"
  shows "vouched_ok (ProbeOf (addr (arena (hl_pool s) ! i)) (check env (addr (arena (hl_pool s) ! i)) sp c) # ls)
    (hl_step s (Answered took env))"
  using assms members_probed [of ls "hl_pool s" i todo] todo_probed [of "hl_pool s" i todo]
  by (simp add: vouched_ok_def)

lemma vouched_begin: "members_ok ls (hl_pool s) \<Longrightarrow> vouched_ok ls (round_begin s)"
  by (simp add: vouched_ok_def round_begin_def todo_all members_ok_def)

lemma vouched_clockwork:
  assumes "vouched_ok ls s" and "e \<in> {Pause, Awake, Wake, Elapse t} \<or> e = NewSpec env sp"
  shows "vouched_ok ls (hl_step s e)"
proof (cases "e = Awake")
  case True
  have "members_ok ls (hl_pool s)" using assms(1) by (simp add: vouched_ok_def)
  then show ?thesis
    using True assms(1) by (simp add: vouched_begin split: phase.split)
next
  case False
  then show ?thesis
    using assms by (auto simp: vouched_ok_def split: phase.splits list.splits sum.splits)
qed

lemma vouched_relist:
  assumes "vouched_ok ls s"
  shows "vouched_ok (Relisted as # ls) (hl_step s (Members as))"
  using assms by (auto simp: vouched_ok_def members_relisted split: phase.splits)

subsection \<open>Every step keeps it\<close>

lemma serve_step_pool:
  "e \<in> {Accept, AcceptError, ConnectOk n, ConnectErr n, Closed n} \<Longrightarrow>
     backends (bpool (serve_step vip b e)) = backends (bpool b) \<and> arena (bpool (serve_step vip b e)) = arena (bpool b)"
  using pick_keeps [of "bpool b" "fst (pick (bpool b))" "snd (pick (bpool b))"]
  by (auto simp: serve_step_def on_accept_def end_conn_def Let_def split: prod.splits option.splits conn_state.splits)

lemma members_cong:
  "backends q = backends p \<Longrightarrow> arena q = arena p \<Longrightarrow> members_ok ls q = members_ok ls p \<and> todo_ok q = todo_ok p"
  by (simp add: members_ok_def todo_ok_def pool_ok_def contents_def fun_eq_iff)

lemma vouched_put_bal:
  assumes "backends (bpool b) = backends (y_pool s)" and "arena (bpool b) = arena (y_pool s)"
  shows "vouched_ok ls (y_loop (put_bal s b)) = vouched_ok ls (y_loop s)"
  using members_cong [OF assms, of ls] by (simp add: vouched_ok_def put_bal_def split: phase.split)

lemma vouched_ok_quiet [simp]:
  "vouched_ok (Quietly # ls) = vouched_ok ls" "vouched_ok (Dialled a # ls) = vouched_ok ls"
  by (simp_all add: vouched_ok_def fun_eq_iff)

text \<open>Every dialled address was vouched for when it was dialled.\<close>

fun dials_ok :: "label list \<Rightarrow> bool" where
  "dials_ok [] = True"
| "dials_ok (l # ls) = ((case l of Dialled a \<Rightarrow> vouched a ls | _ \<Rightarrow> True) \<and> dials_ok ls)"

lemma dials_okD: "dials_ok (later @ Dialled a # earlier) \<Longrightarrow> vouched a earlier"
  by (induction later) simp_all

lemma vouched_step:
  assumes "vip_step kern p self vip s l t" and "vouched_ok ls (y_loop s)" and "dials_ok ls"
  shows "vouched_ok (l # ls) (y_loop t) \<and> dials_ok (l # ls)"
  using assms(1)
proof cases
  case (probe sp c i todo env took)
  then show ?thesis using vouched_probe [OF assms(2)] assms(3) by (simp del: hl_step.simps)
next
  case (clockwork e u)
  then show ?thesis using vouched_clockwork [OF assms(2), of e u] assms(3) by (simp del: hl_step.simps)
next
  case (relist as)
  then show ?thesis using vouched_relist [OF assms(2)] assms(3) by (simp del: hl_step.simps)
next
  case (respec env sp)
  then show ?thesis using vouched_clockwork [OF assms(2), of "NewSpec env sp"] assms(3) by (simp del: hl_step.simps)
next
  case accept
  have "dials_ok (l # ls) \<and> vouched_ok (l # ls) (y_loop s)"
  proof (cases "pick (y_pool s)")
    case (Pair r q)
    have "vouched (addr (arena (y_pool s) ! i)) ls" if "r = Some i" for i
      using pick_chosen [of "y_pool s" i q] Pair that assms(2)
      by (simp add: vouched_ok_def members_ok_def healthy_at_def)
    then show ?thesis
      using accept(1) assms(2,3) Pair by (auto simp: accept_label_def vouched_ok_def split: option.split)
  qed
  then show ?thesis
    using accept(2) vouched_put_bal [of "serve_step vip (bal s) Accept" s "l # ls"] serve_step_pool [of Accept]
    by (simp add: bal_def)
next
  case (conn e n)
  then show ?thesis
    using vouched_put_bal [of "serve_step vip (bal s) e" s ls] serve_step_pool [of e n vip "bal s"] assms(2,3)
    by (simp add: bal_def vouched_ok_def)
next
  case vrrp
  then show ?thesis using assms(2,3) by (simp add: vouched_ok_def)
qed

lemma vouched_start: "vouched_ok [] (y_loop (vip_start kern p ck as m h t k))"
proof -
  have "\<not> is_healthy (arena (pool_new as) ! i)" if "i \<in> set (backends (pool_new as))" for i
    using new_member_unhealthy [OF pool_ok_empty, of i as] that by (simp add: pool_new_def pool_empty_def)
  then have "members_ok [] (pool_new as)" by (simp add: members_ok_def pool_ok_new)
  then show ?thesis
    using vouched_begin [of "[]" "\<lparr>hl_checker = ck, hl_pool = pool_new as, hl_now = t, hl_phase = Pausing t\<rparr>"]
    by (simp add: vip_start_def hl_start_def split: prod.split)
qed

lemma vouched_run:
  "vip_run kern p self vip (vip_start kern p ck as m h t k) ls s \<Longrightarrow> vouched_ok ls (y_loop s) \<and> dials_ok ls"
proof (induction rule: vip_run.induct)
  case begun
  show ?case by (simp add: vouched_start)
next
  case (next_step ls s l u)
  then show ?case using vouched_step by blast
qed






subsection \<open>Properties\<close>

text \<open>C2: Clients only reach backends the probes vouch for.  In every run of a VIP, however the health loop, the
  accepts, the API's replacements of members and spec and the VRRP thread interleave, a connection is dialled
  to an address whose last completed probe succeeded, and which no list of members has left out since:
  not even for an instant after a member was removed, came back, or was being probed meanwhile.\<close>

theorem dialled_backends_are_vouched:
  assumes "vip_run kern p self vip (vip_start kern p ck as m h t k) ls s" and "ls = later @ Dialled a # earlier"
  shows "vouched a earlier"
  using vouched_run [OF assms(1)] dials_okD assms(2) by blast


text \<open>The address owner of the demo network: its only member is probed, then a client comes.\<close>

definition demo_vip :: "(u32 \<times> ipv4) list vip_system" where
  "demo_vip = vip_start demo_kernel (eth_params 255) demo_checker [demo_member] metrics_empty True 0 []"

abbreviation "demo_vip_run \<equiv> vip_run demo_kernel (eth_params 255) (Ipv4 192 168 8 11) ''kube'' demo_vip"

lemma demo_vip:
  "\<exists>s l. demo_vip_run [Dialled demo_member, ProbeOf demo_member True] s \<and> length (y_conns s) = 1
     \<and> y_vrrp s = Running l \<and> is_up l \<and> y_called s"
proof -
  let ?p = "pool_new [demo_member]"
  have p: "?p = \<lparr>arena = [backend_new demo_member], backends = [0], cursor = 0\<rparr>"
    by (simp add: pool_new_def set_addrs_def pool_empty_def)
  have loop: "y_loop demo_vip = hl_start demo_checker ?p 0" "y_conns demo_vip = []"
    by (simp_all add: demo_vip_def vip_start_def split: prod.split)
  obtain l where vrrp: "y_vrrp demo_vip = Running l" "is_up l" "y_called demo_vip"
    by (simp add: demo_claim demo_vip_def vip_start_def begin_loop_def vr_start_def vr_new_def eth_params_def is_up_def Let_def)
  have ph: "hl_phase (y_loop demo_vip) = Probing health_default None [0]"
    by (simp add: loop hl_start_def round_begin_def p demo_checker_def)
  have chk: "check demo_env demo_member health_default None"
    by (simp add: check_def demo_env_def health_default_def)
  have mem: "addr (arena (y_pool demo_vip) ! 0) = demo_member"
    by (simp add: loop hl_start_def round_begin_def p)
  let ?s = "demo_vip\<lparr>y_loop := hl_step (y_loop demo_vip) (Answered 0 demo_env)\<rparr>"
  have "demo_vip_run [ProbeOf demo_member True] ?s"
    using vip_run.next_step [OF vip_run.begun vip_step.probe [OF ph, of _ _ _ _ demo_env 0]] mem chk by simp
  note run = vip_run.next_step [OF this vip_step.accept]
  have pool: "y_pool ?s = set_healthy ?p 0 True"
    using ph mem chk by (simp add: loop hl_start_def round_begin_def)
  have pick: "fst (pick (y_pool ?s)) = Some 0" "addr (arena (y_pool ?s) ! 0) = demo_member"
    unfolding pool by (simp_all add: p pick_def set_healthy_def healthy_at_def backend_new_def Let_def)
  then have "demo_vip_run [Dialled demo_member, ProbeOf demo_member True] (put_bal ?s (serve_step ''kube'' (bal ?s) Accept))"
    using run by (simp add: accept_label_def)
  moreover have "length (conns (serve_step ''kube'' (bal ?s) Accept)) = 1"
    using pick(1) loop(2)
    by (cases "pick (y_pool ?s)") (simp add: serve_step_def on_accept_def bal_def Let_def split: prod.split)
  ultimately show ?thesis using vrrp by (auto simp: put_bal_def)
qed

lemma dialled_backends_are_vouched_witness:
  "\<exists>s. demo_vip_run [Dialled demo_member, ProbeOf demo_member True] s
     \<and> vouched demo_member [ProbeOf demo_member True]"
proof -
  obtain s where run: "demo_vip_run [Dialled demo_member, ProbeOf demo_member True] s" using demo_vip by blast
  from dialled_backends_are_vouched [OF this [unfolded demo_vip_def], of "[]" demo_member "[ProbeOf demo_member True]"]
  have "vouched demo_member [ProbeOf demo_member True]" by simp
  with run show ?thesis by blast
qed


end
