(* ===== verification/Vips_Types.thy ===== *)
theory Vips_Types
  imports Vips_Props
begin

text \<open>
  Every VIP that runs was validated: the type of the registry's entries (\<open>src/vips.rs\<close>).  An entry holds
  a spec that \<open>check\<close> accepts, and a VRRP instance exactly when its spec asks for one, started with the
  parameters of that spec and the address it names.
\<close>

subsection \<open>Typed entries\<close>

text \<open>The parameters the instances were started with; stopping them or storing their state keeps them.\<close>

definition started_with :: "registry \<Rightarrow> params list" where
  "started_with reg = map vi_params (instances reg)"

definition entry_typed :: "params list \<Rightarrow> entry \<Rightarrow> bool" where
  "entry_typed ps e \<longleftrightarrow> (\<exists>c. check_spec (e_spec e) = Inr c
     \<and> (case e_vrrp e of
          None \<Rightarrow> v_vrrp (e_spec e) = None
        | Some i \<Rightarrow> i < length ps \<and> (\<exists>v a. v_vrrp (e_spec e) = Some v \<and> c_vrrp_vip c = Some a
            \<and> ps ! i = vrrp_params v a)))"

definition typed :: "registry \<Rightarrow> bool" where
  "typed reg \<longleftrightarrow> bt_ok (vips reg) \<and> (\<forall>n e. map_of (vips reg) n = Some e \<longrightarrow> entry_typed (started_with reg) e)"

lemma entry_typed_more: "entry_typed ps e \<Longrightarrow> entry_typed (ps @ qs) e"
  unfolding entry_typed_def by (auto simp: nth_append split: option.splits)

lemma entry_typed_cong:
  "e_spec e' = e_spec e \<Longrightarrow> e_vrrp e' = e_vrrp e \<Longrightarrow> entry_typed ps e' = entry_typed ps e"
  by (simp only: entry_typed_def)

lemma typed_cong: "typed reg \<Longrightarrow> vips reg' = vips reg \<Longrightarrow> started_with reg' = started_with reg \<Longrightarrow> typed reg'"
  by (simp add: typed_def)

lemma typed_set_entry:
  assumes "typed reg" and "vips reg' = vips reg" and "started_with reg' = started_with reg @ qs"
    and "entry_typed (started_with reg') e"
  shows "typed (set_entry reg' name e)"
proof -
  have "started_with (set_entry reg' name e) = started_with reg'"
    by (simp add: started_with_def)
  with assms show ?thesis
    by (auto simp: typed_def entry_typed_more)
qed

lemma started_with_stop [simp]: "started_with (stop_instance reg h) = started_with reg"
proof (cases h)
  case (Some i)
  then show ?thesis
    by (cases "i < length (instances reg)")
      (simp_all add: started_with_def stop_instance_def map_update list_update_same_conv list_update_beyond)
qed (simp add: started_with_def stop_instance_def)

lemma check_vrrp_none: "check_spec s = Inr c \<Longrightarrow> c_vrrp_vip c = None \<longleftrightarrow> v_vrrp s = None"
  by (auto simp: check_spec_def rbind_eq_Inr check_vrrp_def ensure_def split: option.splits ip_addr.splits if_splits)

lemma check_vrrp_address:
  "check_spec s = Inr c \<Longrightarrow> check_spec s' = Inr c' \<Longrightarrow> v_address s = v_address s' \<Longrightarrow> v_vrrp s = v_vrrp s'
     \<Longrightarrow> c_vrrp_vip c = c_vrrp_vip c'"
  by (auto simp: check_spec_def rbind_eq_Inr)

text \<open>Starting the instance of a checked spec types its entry.\<close>

lemma start_vrrp_typed:
  assumes "start_vrrp reg s (c_vrrp_vip c) = (h, reg')" and "check_spec s = Inr c"
    and "e_spec e = s" and "e_vrrp e = h"
  shows "(\<exists>qs. started_with reg' = started_with reg @ qs) \<and> entry_typed (started_with reg') e"
proof (cases "v_vrrp s")
  case None
  with assms(1) have "h = None" "reg' = reg" by (auto simp: start_vrrp_def)
  with assms(2-4) None show ?thesis by (simp add: entry_typed_def)
next
  case (Some v)
  then obtain a where a: "c_vrrp_vip c = Some a"
    using check_vrrp_none [OF assms(2)] by auto
  have "h = Some (length (instances reg))" "started_with reg' = started_with reg @ [vrrp_params v a]"
    using assms(1) by (auto simp: start_vrrp_def Some a started_with_def)
  then show ?thesis
    using assms(2-4) Some a by (simp add: entry_typed_def started_with_def nth_append)
qed

subsection \<open>Every operation keeps the type\<close>

lemma put_typed:
  assumes "typed reg" and "put nd reg name s fc = (r, reg')"
  shows "typed reg'"
  using assms(2)
proof (cases rule: put_cases)
  case (update c e)
  have e: "entry_typed (started_with reg) e" using assms(1) update(3) by (simp add: typed_def)
  note replaced = typed_set_entry [OF assms(1), where qs = "[]"]
  from update(4) show ?thesis
  proof (cases rule: update_vip_cases)
    case (partial err)
    have "entry_typed (started_with reg) (moved e c)"
      using e entry_typed_cong [of "moved e c" e] by (simp add: moved_def)
    then show ?thesis unfolding partial(4) by (intro replaced) simp_all
  next
    case (same ck)
    obtain c0 where c0: "check_spec (e_spec e) = Inr c0" using e by (auto simp: entry_typed_def)
    have "c_vrrp_vip c0 = c_vrrp_vip c"
      using check_vrrp_address [OF c0 update(1)] same(3,4) by simp
    then have "entry_typed (started_with reg) (moved e c\<lparr>e_checker := ck, e_spec := s\<rparr>)"
      using e c0 update(1) same(3) by (auto simp: entry_typed_def moved_def split: option.splits)
    then show ?thesis unfolding same(5) by (intro replaced) simp_all
  next
    case (restarted ck h reg1)
    let ?e = "moved e c\<lparr>e_checker := ck, e_vrrp := h, e_spec := s\<rparr>"
    have "e_spec ?e = s" and "e_vrrp ?e = h" by simp_all
    note new = start_vrrp_typed [OF restarted(3) update(1) this]
    then show ?thesis
      unfolding restarted(4)
      by (auto intro: typed_set_entry [OF assms(1)] simp: start_vrrp_frame [OF restarted(3)])
  qed (use assms(1) in simp)
next
  case (create c)
  from create(4) show ?thesis
  proof (cases rule: create_vip_cases)
    case (created ck h reg1)
    let ?e = "\<lparr>e_spec = s, e_from_config = fc, e_listen = c_listen c,
         e_pool = pool_new (c_backends c), e_checker = ck, e_vrrp = h\<rparr>"
    have "e_spec ?e = s" and "e_vrrp ?e = h" by simp_all
    note new = start_vrrp_typed [OF created(3) create(1) this]
    then show ?thesis
      unfolding created(5)
      by (auto intro: typed_set_entry [OF assms(1)] simp: start_vrrp_frame [OF created(3)])
  qed (use assms(1) in simp)
qed (use assms(1) in simp)

lemma typed_pending: "typed (reg\<lparr>pending := p\<rparr>) \<longleftrightarrow> typed reg"
  by (simp add: typed_def started_with_def)

lemma save_typed: "save nd reg = (r, reg') \<Longrightarrow> typed reg \<Longrightarrow> typed reg'"
  by (auto simp: save_def typed_def started_with_def split: option.splits sum.splits)

lemma load_vips_typed: "typed reg \<Longrightarrow> load_vips nd reg saved = (n, reg') \<Longrightarrow> typed reg'"
proof (induction saved arbitrary: reg n)
  case (Cons x saved)
  obtain name s where x: "x = (name, s)" by (rule prod.exhaust)
  obtain r reg1 where p: "put nd reg name s False = (r, reg1)" by (rule prod.exhaust)
  have ok1: "typed reg1" by (rule put_typed [OF Cons.prems(1) p])
  show ?case
  proof (cases r)
    case (Inl err)
    with Cons.IH [of "reg1\<lparr>pending := bt_insert name s (pending reg1)\<rparr>"] Cons.prems(2) x p ok1 show ?thesis
      by (auto simp: typed_pending)
  next
    case (Inr b)
    with Cons.IH [OF ok1] Cons.prems(2) x p show ?thesis by (auto split: prod.splits)
  qed
qed simp

lemma apply_vip_typed:
  assumes "typed reg" and "apply_vip nd reg name s = (r, reg')"
  shows "typed reg'"
  using assms(2)
proof (cases rule: apply_vip_cases)
  case (put b reg1 r1)
  from put_typed [OF assms(1) put(1)] save_typed [OF put(2)] show ?thesis by (simp add: typed_pending)
qed (use assms(1) put_typed in auto)

lemma remove_vip_typed: "typed reg \<Longrightarrow> remove_vip nd reg name = (r, reg') \<Longrightarrow> typed reg'"
proof -
  assume ok: "typed reg" and rm: "remove_vip nd reg name = (r, reg')"
  have "typed (drop_entry (reg\<lparr>vips := bt_remove name (vips reg)\<rparr>) e)" for e
  proof -
    have "started_with (reg\<lparr>vips := v\<rparr>) = started_with reg" for v by (simp add: started_with_def)
    then show ?thesis using ok by (simp add: typed_def drop_entry_def)
  qed
  then show "typed reg'"
    using ok rm by (auto simp: remove_vip_def typed_pending split: option.splits if_splits elim: save_typed)
qed

lemma reg_step_typed: "typed reg \<Longrightarrow> typed (reg_step reg op)"
proof (cases op)
  case (Load nd)
  assume "typed reg"
  then show ?thesis
    unfolding Load reg_step.simps load_state_def
    by (auto split: option.split sum.split prod.split intro: load_vips_typed)
next
  case (StartConfig nd s)
  assume "typed reg"
  then show ?thesis
    unfolding StartConfig reg_step.simps start_config_def
    by (auto split: prod.split intro: put_typed)
next
  case StopAll
  then show ?thesis
    using drop_entries [of "reg\<lparr>vips := []\<rparr>" "vips reg"] by (simp add: stop_all_def typed_def)
next
  case (SetState i v)
  assume "typed reg"
  moreover have "started_with (set_state reg i v) = started_with reg"
    by (cases "i < length (instances reg)")
      (simp_all add: started_with_def set_state_def map_update list_update_same_conv list_update_beyond)
  moreover have "vips (set_state reg i v) = vips reg" by (simp add: set_state_def)
  ultimately show ?thesis by (simp add: SetState typed_cong)
next
  case (OnPool n f)
  assume ok: "typed reg"
  show ?thesis
  proof (cases "map_of (vips reg) n")
    case (Some e)
    have "entry_typed (started_with reg) (e\<lparr>e_pool := pool_step (e_pool e) f\<rparr>)"
      using ok Some entry_typed_cong [of "e\<lparr>e_pool := pool_step (e_pool e) f\<rparr>" e] by (simp add: typed_def)
    with ok Some show ?thesis
      by (simp add: OnPool on_pool_def typed_set_entry [where qs = "[]"])
  qed (simp add: OnPool on_pool_def ok)
qed (metis apply_vip_typed prod.collapse reg_step.simps(1), metis remove_vip_typed prod.collapse reg_step.simps(2))

lemma reg_after_typed: "typed (reg_after file content ops)"
proof -
  have "typed reg \<Longrightarrow> typed (foldl reg_step reg ops)" for reg
    by (induction ops arbitrary: reg) (simp_all add: reg_step_typed)
  moreover have "typed (registry_new file content)"
    by (simp add: typed_def registry_new_def)
  ultimately show ?thesis by (simp add: reg_after_def)
qed

subsection \<open>The property\<close>

lemma check_spec_vrrp:
  assumes "check_spec s = Inr c" and "v_vrrp s = Some v" and "c_vrrp_vip c = Some a"
  shows "parse_ip (v_address s) = Some (V4 a) \<and> vs_interface v \<noteq> [] \<and> vs_vrid v \<noteq> 0 \<and> vs_priority v \<noteq> 0
    \<and> vs_advert_interval_secs v \<noteq> 0 \<and> vs_advert_interval_secs v \<le> 40"
  using assms
  by (auto simp: check_spec_def rbind_eq_Inr check_vrrp_def ok_or_def split: option.splits ip_addr.splits if_splits)

text \<open>C21: Only what was validated runs, and runs as its spec says.  In every registry, whatever was applied,
  removed, loaded or stopped, each VIP has a spec that \<open>check\<close> accepts.  It has an instance exactly when
  its spec asks for VRRP: one that no one has stopped, started with the address the spec names and with the
  interface, router id, priority, preemption and interval of the spec as it is now, all in their ranges, and
  whose router advertises exactly at that interval, in the 12 bits there are for it.\<close>

theorem running_vips_are_typed:
  assumes "map_of (vips (reg_after file content ops)) n = Some e"
  shows "(\<exists>c. check_spec (e_spec e) = Inr c) \<and>
    (case (e_vrrp e, v_vrrp (e_spec e)) of
       (None, None) \<Rightarrow> True
     | (Some i, Some v) \<Rightarrow> i < length (instances (reg_after file content ops))
         \<and> \<not> vi_stop (instances (reg_after file content ops) ! i)
         \<and> (let p = vi_params (instances (reg_after file content ops) ! i);
                r = vr_new (p_vrid p) (p_priority p) (p_preempt p) (p_advert_interval_secs p)
            in parse_ip (v_address (e_spec e)) = Some (V4 (p_vip p))
               \<and> p_iface p = vs_interface v \<and> p_iface p \<noteq> []
               \<and> p_vrid p = vs_vrid v \<and> p_vrid p \<noteq> 0
               \<and> p_priority p = vs_priority v \<and> p_priority p \<noteq> 0
               \<and> p_preempt p = vs_preempt v
               \<and> p_advert_interval_secs p = vs_advert_interval_secs v
               \<and> unat (advert_interval_centis r) = 100 * unat (vs_advert_interval_secs v)
               \<and> advert_interval_centis r AND 0x0fff = advert_interval_centis r)
     | _ \<Rightarrow> False)"
proof -
  let ?reg = "reg_after file content ops"
  have "entry_typed (started_with ?reg) e"
    using reg_after_typed assms by (simp add: typed_def)
  then obtain c where c: "check_spec (e_spec e) = Inr c"
    and vrrp: "case e_vrrp e of None \<Rightarrow> v_vrrp (e_spec e) = None
      | Some i \<Rightarrow> i < length (started_with ?reg) \<and> (\<exists>v a. v_vrrp (e_spec e) = Some v \<and> c_vrrp_vip c = Some a
          \<and> started_with ?reg ! i = vrrp_params v a)"
    unfolding entry_typed_def by blast
  show ?thesis
  proof (cases "e_vrrp e")
    case None
    with c vrrp show ?thesis by simp
  next
    case (Some i)
    with vrrp obtain v a where i: "i < length (instances ?reg)" and v: "v_vrrp (e_spec e) = Some v"
      "c_vrrp_vip c = Some a" and p: "vi_params (instances ?reg ! i) = vrrp_params v a"
      by (auto simp: started_with_def)
    have "owns ?reg n = Some i" using assms Some by (simp add: owns_def)
    then have runs: "\<not> vi_stop (instances ?reg ! i)"
      using registry_okD(5) [OF reg_after_ok [of "file" content ops]] by (auto simp: owned_def dest: ranI)
    note ranges = check_spec_vrrp [OF c v]
    have one: "max (unat (vs_advert_interval_secs v)) 1 = unat (vs_advert_interval_secs v)"
      using ranges by (simp add: max_def) (metis le_Suc_eq le_zero_eq unat_eq_zero)
    note router = vr_new_centis [of "vs_advert_interval_secs v" "vs_vrid v" "vs_priority v" "vs_preempt v",
        unfolded one]
    have fields: "p_vrid (vrrp_params v a) = vs_vrid v" "p_priority (vrrp_params v a) = vs_priority v"
      "p_preempt (vrrp_params v a) = vs_preempt v" "p_iface (vrrp_params v a) = vs_interface v"
      "p_advert_interval_secs (vrrp_params v a) = vs_advert_interval_secs v" "p_vip (vrrp_params v a) = a"
      by (simp_all add: vrrp_params_def)
    show ?thesis
      using c i runs ranges router by (simp add: Some v p fields Let_def)
  qed
qed

text \<open>For the witness: a VIP with VRRP, put again with another priority, which starts a second instance.\<close>

definition vrrp_demo :: "u8 \<Rightarrow> vip_spec" where
  "vrrp_demo prio = (demo_spec 50)\<lparr>v_vrrp := Some \<lparr>vs_interface = ''eth0'', vs_vrid = 51, vs_priority = prio,
     vs_preempt = True, vs_advert_interval_secs = 1\<rparr>\<rparr>"

lemma check_vrrp_demo:
  "prio \<noteq> 0 \<Longrightarrow> check_spec (vrrp_demo prio) = Inr ((demo_checked 50)\<lparr>c_vrrp_vip := Some (Ipv4 192 168 8 50)\<rparr>)"
  by (simp add: check_spec_def demo_spec_def vrrp_demo_def demo_checked_def ok_or_def ensure_def check_health_def
      health_default_def default_path_def default_interval_def default_timeout_def default_expect_def
      check_vrrp_def)

lemma vrrp_demo_fields [simp]:
  "v_health (vrrp_demo prio) = health_default" "v_address (vrrp_demo prio) = v_address (demo_spec 50)"
  "v_vrrp (vrrp_demo prio) = Some \<lparr>vs_interface = ''eth0'', vs_vrid = 51, vs_priority = prio,
     vs_preempt = True, vs_advert_interval_secs = 1\<rparr>"
  by (simp_all add: vrrp_demo_def)

definition vrrp_started :: "u8 \<Rightarrow> vrrp_instance" where
  "vrrp_started prio = \<lparr>vi_params = \<lparr>p_vrid = 51, p_priority = prio, p_preempt = True, p_advert_interval_secs = 1,
     p_iface = ''eth0'', p_vip = Ipv4 192 168 8 50\<rparr>, vi_stop = False, vi_state = 0\<rparr>"

definition vrrp_entry :: "u8 \<Rightarrow> nat \<Rightarrow> checker \<Rightarrow> entry" where
  "vrrp_entry prio i ck = (demo_entry 50 False)\<lparr>e_spec := vrrp_demo prio, e_checker := ck, e_vrrp := Some i\<rparr>"

lemma put_vrrp:
  assumes "vips reg = []" and "prio \<noteq> 0"
  shows "put demo_node reg ''kube'' (vrrp_demo prio) False =
    (Inr True, set_entry (reg\<lparr>instances := instances reg @ [vrrp_started prio]\<rparr>) ''kube''
       (vrrp_entry prio (length (instances reg)) demo_checker))"
  using assms
  by (simp add: put_def check_vrrp_demo create_vip_def demo_node_def bind_listener_def map_err_def start_vrrp_def
      taken_by_def vrrp_params_def vrrp_started_def vrrp_entry_def demo_entry_def)

lemma put_vrrp_again:
  assumes "vips reg = [(''kube'', vrrp_entry old i ck)]" and "prio \<noteq> 0" and "prio \<noteq> old"
  shows "put demo_node reg ''kube'' (vrrp_demo prio) False =
    (Inr False, set_entry (stop_instance reg (Some i)\<lparr>instances := instances (stop_instance reg (Some i)) @ [vrrp_started prio]\<rparr>)
       ''kube'' ((vrrp_entry prio (length (instances reg)) (ck\<lparr>spec := health_default, http := None, woken := True\<rparr>))
         \<lparr>e_pool := set_addrs (e_pool (demo_entry 50 False)) (c_backends (demo_checked 50))\<rparr>))"
  using assms
  by (simp add: put_def check_vrrp_demo update_vip_def demo_node_def start_vrrp_def stop_instance_def
      taken_by_def vrrp_params_def vrrp_started_def vrrp_entry_def demo_entry_def)

lemma apply_on_demo_node:
  assumes "put demo_node reg ''kube'' s False = (Inr b, reg1)" and "\<not> is_config_vip reg ''kube''"
  shows "\<exists>reg'. apply_vip demo_node reg ''kube'' s = (Inr b, reg') \<and> vips reg' = vips reg1
    \<and> instances reg' = instances reg1"
  using assms
  by (simp add: apply_vip_def save_def split: option.splits) (simp add: demo_node_def)

lemma running_vips_are_typed_witness:
  "\<exists>e i. let reg = reg_after (Some ''vips.json'') None
        [Apply demo_node ''kube'' (vrrp_demo 100), Apply demo_node ''kube'' (vrrp_demo 150)]
    in map_of (vips reg) ''kube'' = Some e \<and> e_vrrp e = Some i \<and> \<not> vi_stop (instances reg ! i)
       \<and> p_priority (vi_params (instances reg ! i)) = 150"
proof -
  let ?new = "registry_new (Some ''vips.json'') None"
  let ?ops = "[Apply demo_node ''kube'' (vrrp_demo 100), Apply demo_node ''kube'' (vrrp_demo 150)]"
  have "vips ?new = []" and "\<not> is_config_vip ?new ''kube''"
    by (simp_all add: registry_new_def is_config_vip_def)
  from apply_on_demo_node [OF put_vrrp [OF this(1), of 100] this(2)] \<open>vips ?new = []\<close>
  obtain reg1 where one: "apply_vip demo_node ?new ''kube'' (vrrp_demo 100) = (Inr True, reg1)"
    and reg1: "vips reg1 = [(''kube'', vrrp_entry 100 (length (instances ?new)) demo_checker)]"
    by (auto simp: set_entry_def)
  have "\<not> is_config_vip reg1 ''kube''"
    by (simp add: is_config_vip_def reg1 vrrp_entry_def demo_entry_def)
  from apply_on_demo_node [OF put_vrrp_again [OF reg1, of 150] this]
  obtain reg2 e where two: "apply_vip demo_node reg1 ''kube'' (vrrp_demo 150) = (Inr False, reg2)"
    and reg2: "map_of (vips reg2) ''kube'' = Some e" "e_spec e = vrrp_demo 150"
    by (auto simp: set_entry_def vrrp_entry_def reg1)
  have after: "reg_after (Some ''vips.json'') None ?ops = reg2"
    by (simp add: reg_after_def one two)
  then have "map_of (vips (reg_after (Some ''vips.json'') None ?ops)) ''kube'' = Some e" by (simp add: reg2)
  from running_vips_are_typed [OF this] show ?thesis
    unfolding after by (cases "e_vrrp e") (auto simp: reg2 Let_def)
qed

end
