(* ===== verification/Vips_Concurrent.thy ===== *)
theory Vips_Concurrent
  imports Vips_Types
begin

text \<open>
  The registry under concurrent requests: \<open>apply\<close> and \<open>remove\<close> of \<open>src/vips.rs\<close> cut where they hold no lock,
  as the API's tasks run them on several threads.  \<open>vips\<close> and \<open>pending\<close> are two mutexes; each is locked for
  one step (\<open>remove\<close> holds both in one).  What is between two locks can be interleaved with every other
  task, with a VRRP loop that stores its state and with the health loop and the balancer on a pool.

  The lemmas show that the registry linearises: whatever the interleaving, its VIPs and instances are
  those of the requests made one after another in the order of their locked steps.  The state file does
  not: its content is collected and written in different steps.
\<close>

subsection \<open>The steps of a request\<close>

datatype vip_request = PutVip string vip_spec | DeleteVip string

text \<open>
  Where a request's task stands: not begun, the name found free to be put, the VIP put, about to copy
  \<open>pending\<close> in \<open>save\<close>, \<open>pending\<close> copied, the text to write made, done.  The \<open>bool option\<close> is what it will
  answer: whether it created the VIP, or nothing for a removal.
\<close>

datatype task =
    Waiting vip_request
  | Admitted string vip_spec
  | Stored string bool
  | Saving "bool option"
  | Copied "bool option" "(string \<times> vip_spec) list"
  | Collected "bool option" "(string \<times> vip_spec) list"
  | Replied "(apply_error, bool option) result"

definition remove_locked :: "registry \<Rightarrow> string \<Rightarrow> (apply_error, unit) result \<times> registry" where
  "remove_locked reg name =
     (case map_of (vips reg) name of
        None \<Rightarrow>
          (if map_of (pending reg) name = None then (Inl (NotFound (NoVip name)), reg)
           else (Inr (), reg\<lparr>pending := bt_remove name (pending reg)\<rparr>))
      | Some e \<Rightarrow>
          (if e_from_config e then (Inl (Conflict (IsConfigVip name)), reg)
           else (Inr (), drop_entry (reg\<lparr>vips := bt_remove name (vips reg)\<rparr>) e)))"

fun task_step :: "node \<Rightarrow> registry \<Rightarrow> task \<Rightarrow> registry \<times> task" where
  "task_step nd reg (Waiting (PutVip name s)) =
     (reg, case valid_name name of
             Inl err \<Rightarrow> Replied (Inl err)
           | Inr _ \<Rightarrow>
               if is_config_vip reg name then Replied (Inl (Conflict (IsConfigVip name)))
               else Admitted name s)"
| "task_step nd reg (Waiting (DeleteVip name)) =
     (case remove_locked reg name of
        (Inl err, reg') \<Rightarrow> (reg', Replied (Inl err))
      | (Inr _, reg') \<Rightarrow> (reg', Saving None))"
| "task_step nd reg (Admitted name s) =
     (case put nd reg name s False of
        (Inl err, reg') \<Rightarrow> (reg', Replied (Inl err))
      | (Inr created, reg') \<Rightarrow> (reg', Stored name created))"
| "task_step nd reg (Stored name created) =
     (reg\<lparr>pending := bt_remove name (pending reg)\<rparr>, Saving (Some created))"
| "task_step nd reg (Saving r) =
     (reg, case state_file reg of None \<Rightarrow> Replied (Inr r) | Some _ \<Rightarrow> Copied r (pending reg))"
| "task_step nd reg (Copied r copy) = (reg, Collected r (saved_vips (reg\<lparr>pending := copy\<rparr>)))"
| "task_step nd reg (Collected r saved) =
     (case state_file reg of
        None \<Rightarrow> (reg, Replied (Inr r))
      | Some file \<Rightarrow>
          (case can_write nd file of
             Inl err \<Rightarrow> (reg, Replied (Inl (NotSaved (WriteFailed err))))
           | Inr _ \<Rightarrow> (reg\<lparr>disk := Some saved\<rparr>, Replied (Inr r))))"
| "task_step nd reg (Replied r) = (reg, Replied r)"

text \<open>A move: a task's step on the node as it then answers, or somebody else's work.\<close>

datatype move = Turn nat node | StoreState nat u8 | Work string pool_op

type_synonym system = "registry \<times> task list"

fun sys_step :: "system \<Rightarrow> move \<Rightarrow> system" where
  "sys_step (reg, ts) (Turn i nd) =
     (if i < length ts then (case task_step nd reg (ts ! i) of (reg', t) \<Rightarrow> (reg', ts[i := t])) else (reg, ts))"
| "sys_step (reg, ts) (StoreState i v) = (set_state reg i v, ts)"
| "sys_step (reg, ts) (Work n f) = (on_pool reg n f, ts)"

definition sys_run :: "system \<Rightarrow> move list \<Rightarrow> system" where
  "sys_run s ms = foldl sys_step s ms"

subsection \<open>The sequential history\<close>

text \<open>The steps that count: a put, a removal, and the others' work, in the order they were made.\<close>

definition commit_of :: "node \<Rightarrow> task \<Rightarrow> reg_op list" where
  "commit_of nd t =
     (case t of
        Admitted name s \<Rightarrow> [Apply nd name s]
      | Waiting (DeleteVip name) \<Rightarrow> [Remove nd name]
      | _ \<Rightarrow> [])"

fun commit :: "system \<Rightarrow> move \<Rightarrow> reg_op list" where
  "commit (reg, ts) (Turn i nd) = (if i < length ts then commit_of nd (ts ! i) else [])"
| "commit (reg, ts) (StoreState i v) = [SetState i v]"
| "commit (reg, ts) (Work n f) = [OnPool n f]"

fun commits :: "system \<Rightarrow> move list \<Rightarrow> reg_op list" where
  "commits s [] = []"
| "commits s (m # ms) = commit s m @ commits (sys_step s m) ms"

text \<open>Two registries with the same VIPs and instances: what is pending and saved may differ.\<close>

definition agree :: "registry \<Rightarrow> registry \<Rightarrow> bool" where
  "agree r r' \<longleftrightarrow> vips r = vips r' \<and> instances r = instances r'"

lemma agree_refl [simp]: "agree r r"
  by (simp add: agree_def)

lemma agree_fields [simp]:
  "agree (r\<lparr>pending := p\<rparr>) r' = agree r r'" "agree (r\<lparr>disk := d\<rparr>) r' = agree r r'"
  "agree r (r'\<lparr>pending := p\<rparr>) = agree r r'" "agree r (r'\<lparr>disk := d\<rparr>) = agree r r'"
  by (simp_all add: agree_def)

text \<open>Agreeing registries differ in the other three fields only.\<close>

definition with_files ::
  "registry \<Rightarrow> (string \<times> vip_spec) list \<Rightarrow> string option \<Rightarrow> (string \<times> vip_spec) list option \<Rightarrow> registry" where
  "with_files r p f d = r\<lparr>pending := p, state_file := f, disk := d\<rparr>"

lemma agree_with_files: "agree r r' \<Longrightarrow> r' = with_files r (pending r') (state_file r') (disk r')"
  by (simp add: agree_def with_files_def)

lemma with_files_simps [simp]:
  "vips (with_files r p f d) = vips r" "instances (with_files r p f d) = instances r"
  "agree r (with_files r p f d)"
  by (simp_all add: with_files_def agree_def)

lemma set_entry_with_files: "set_entry (with_files r p f d) n e = with_files (set_entry r n e) p f d"
  by (simp add: set_entry_def with_files_def)

lemma stop_instance_with_files: "stop_instance (with_files r p f d) h = with_files (stop_instance r h) p f d"
  by (simp add: stop_instance_def with_files_def split: option.split)

lemma start_vrrp_with_files:
  "start_vrrp (with_files r p f d) s a = (case start_vrrp r s a of (h, r') \<Rightarrow> (h, with_files r' p f d))"
  by (simp add: start_vrrp_def with_files_def split: option.split)

lemmas with_files_steps = set_entry_with_files stop_instance_with_files start_vrrp_with_files

lemma update_vip_with_files:
  "update_vip nd (with_files r p f d) n s c e =
     (case update_vip nd r n s c e of (x, r') \<Rightarrow> (x, with_files r' p f d))"
  by (simp add: update_vip_def with_files_steps Let_def split: sum.split prod.split)

lemma create_vip_with_files:
  "create_vip nd (with_files r p f d) n s fc c =
     (case create_vip nd r n s fc c of (x, r') \<Rightarrow> (x, with_files r' p f d))"
  by (simp add: create_vip_def with_files_steps split: sum.split prod.split)

lemma put_with_files:
  "put nd (with_files r p f d) n s fc = (case put nd r n s fc of (x, r') \<Rightarrow> (x, with_files r' p f d))"
  by (simp add: put_def taken_by_def update_vip_with_files create_vip_with_files split: sum.split option.split)

lemma put_agree:
  assumes "agree r r'" and "put nd r n s fc = (x, q)"
  shows "\<exists>q'. put nd r' n s fc = (x, q') \<and> agree q q'"
proof -
  from put_with_files [of nd r "pending r'" "state_file r'" "disk r'" n s fc]
    agree_with_files [OF assms(1)] assms(2)
  have "put nd r' n s fc = (x, with_files q (pending r') (state_file r') (disk r'))" by simp
  then show ?thesis by simp
qed

lemma save_snd [simp]:
  "vips (snd (save nd r)) = vips r" "instances (snd (save nd r)) = instances r"
  by (simp_all add: save_def split: option.split sum.split)

lemma remove_vip_split:
  "remove_vip nd r n = (case remove_locked r n of (Inl err, r1) \<Rightarrow> (Inl err, r1) | (Inr _, r1) \<Rightarrow> save nd r1)"
  by (auto simp: remove_vip_def remove_locked_def split: option.split)

lemma remove_agree:
  assumes "agree r r'" and "remove_locked r n = (x, q)"
  shows "agree q (snd (remove_vip nd r' n))"
proof -
  have "agree q (snd (remove_locked r' n))"
    using assms unfolding agree_def remove_locked_def
    by (auto simp: drop_entry_def stop_instance_def split: option.splits if_splits)
  then show ?thesis
    by (auto simp: remove_vip_split agree_def split: prod.split sum.split)
qed

lemma apply_agree:
  assumes "agree r r'" and "put nd r n s False = (x, q)" and "valid_name n = Inr ()" and "\<not> is_config_vip r n"
  shows "agree q (snd (apply_vip nd r' n s))"
proof -
  obtain q' where q': "put nd r' n s False = (x, q')" "agree q q'"
    using put_agree [OF assms(1,2)] by blast
  have "\<not> is_config_vip r' n" using assms(1,4) by (simp add: agree_def is_config_vip_def)
  then show ?thesis
    using q' assms(3) by (auto simp: apply_vip_def agree_def split: prod.split sum.split dest: save_frame(1,2))
qed

subsection \<open>The invariant of the tasks\<close>

text \<open>A name that was free to be put stays free: no request makes a config VIP.\<close>

definition task_ok :: "registry \<Rightarrow> task \<Rightarrow> bool" where
  "task_ok reg t \<longleftrightarrow> (case t of Admitted n s \<Rightarrow> valid_name n = Inr () \<and> \<not> is_config_vip reg n | _ \<Rightarrow> True)"

definition sys_ok :: "system \<Rightarrow> bool" where
  "sys_ok s \<longleftrightarrow> registry_ok (fst s) \<and> list_all (task_ok (fst s)) (snd s)"

definition no_new_config :: "registry \<Rightarrow> registry \<Rightarrow> bool" where
  "no_new_config r r' \<longleftrightarrow> (\<forall>m. is_config_vip r' m \<longrightarrow> is_config_vip r m)"

lemma no_new_config_cong: "vips r' = vips r \<Longrightarrow> no_new_config r r'"
  by (simp add: no_new_config_def is_config_vip_def)

lemma no_new_config_set_entry:
  "bt_ok (vips r) \<Longrightarrow> vips r1 = vips r \<Longrightarrow> (e_from_config e \<Longrightarrow> is_config_vip r n)
     \<Longrightarrow> no_new_config r (set_entry r1 n e)"
  by (auto simp: no_new_config_def is_config_vip_def)

lemma put_no_new_config:
  assumes "bt_ok (vips r)" and "put nd r n s False = (x, q)"
  shows "no_new_config r q"
  using assms(2)
proof (cases rule: put_cases)
  case (update c e)
  have config: "is_config_vip r n = e_from_config e" using update(3) by (simp add: is_config_vip_def)
  have kept: "no_new_config r (set_entry r n e')" if "e_from_config e' = e_from_config e" for e'
    using that config by (intro no_new_config_set_entry assms(1) refl) simp
  from update(4) show ?thesis
  proof (cases rule: update_vip_cases)
    case (restarted ck h r1)
    then show ?thesis
      using config start_vrrp_frame(1) [OF restarted(3)]
      by (auto intro!: no_new_config_set_entry assms(1) simp: moved_def)
  qed (simp_all add: no_new_config_cong kept moved_def)
next
  case (create c)
  from create(4) show ?thesis
  proof (cases rule: create_vip_cases)
    case (created ck h r1)
    then show ?thesis
      using start_vrrp_frame(1) [OF created(3)] by (auto intro!: no_new_config_set_entry assms(1))
  qed (simp add: no_new_config_cong)
qed (simp add: no_new_config_cong)

lemma remove_no_new_config: "remove_locked r n = (x, q) \<Longrightarrow> no_new_config r q"
  by (auto simp: remove_locked_def no_new_config_def is_config_vip_def split: option.splits if_splits)

lemma on_pool_no_new_config: "bt_ok (vips r) \<Longrightarrow> no_new_config r (on_pool r n f)"
  by (auto simp: on_pool_def is_config_vip_def no_new_config_cong intro!: no_new_config_set_entry
      split: option.split)

lemma task_ok_mono: "no_new_config r r' \<Longrightarrow> task_ok r t \<Longrightarrow> task_ok r' t"
  by (auto simp: task_ok_def no_new_config_def split: task.split)

lemma list_all_task_ok_mono: "no_new_config r r' \<Longrightarrow> list_all (task_ok r) ts \<Longrightarrow> list_all (task_ok r') ts"
  by (auto simp: list_all_iff intro: task_ok_mono)

lemma remove_locked_ok: "registry_ok r \<Longrightarrow> remove_locked r n = (x, q) \<Longrightarrow> registry_ok q"
  by (auto simp: remove_locked_def split: option.splits if_splits intro: forget_pending_ok drop_ok)

lemma disk_ok: "registry_ok r \<Longrightarrow> registry_ok (r\<lparr>disk := d\<rparr>)"
  by (rule registry_ok_frame) (simp_all add: registry_okD(2))

lemma task_step_ok:
  assumes "registry_ok r" and "task_ok r t" and "task_step nd r t = (q, t')"
  shows "registry_ok q \<and> no_new_config r q \<and> task_ok q t'"
proof (cases t)
  case (Waiting v)
  then show ?thesis
    using assms
    by (cases v) (auto simp: task_ok_def no_new_config_cong split: sum.splits prod.splits if_splits
        dest: remove_locked_ok remove_no_new_config)
next
  case (Admitted n s)
  obtain x q' where p: "put nd r n s False = (x, q')" by (rule prod.exhaust)
  note put = put_ok [OF assms(1) p] put_no_new_config [OF registry_okD(1) [OF assms(1)] p]
  show ?thesis
    using put assms(3) by (auto simp: Admitted p task_ok_def split: sum.splits)
qed (use assms in \<open>auto simp: task_ok_def no_new_config_cong forget_pending_ok disk_ok
    split: option.splits sum.splits\<close>)

lemma task_step_agree:
  assumes "agree r r'" and "task_ok r t" and "task_step nd r t = (q, t')"
  shows "agree q (foldl reg_step r' (commit_of nd t))"
proof (cases t)
  case (Waiting v)
  then show ?thesis
    using assms remove_agree [OF assms(1)]
    by (cases v) (auto simp: commit_of_def split: sum.splits prod.splits if_splits)
next
  case (Admitted n s)
  then show ?thesis
    using assms apply_agree [OF assms(1)]
    by (auto simp: commit_of_def task_ok_def split: sum.splits prod.splits)
qed (use assms in \<open>auto simp: commit_of_def split: option.splits sum.splits\<close>)

lemma sys_step_ok:
  assumes "sys_ok s"
  shows "sys_ok (sys_step s m)"
proof -
  obtain r ts where s: "s = (r, ts)" by (rule prod.exhaust)
  have ok: "registry_ok r" "list_all (task_ok r) ts" using assms by (simp_all add: s sys_ok_def)
  show ?thesis
  proof (cases m)
    case (Turn i nd)
    show ?thesis
    proof (cases "i < length ts")
      case True
      obtain q t where t: "task_step nd r (ts ! i) = (q, t)" by (rule prod.exhaust)
      have "task_ok r (ts ! i)" using ok(2) True by (simp add: list_all_length)
      note new = task_step_ok [OF ok(1) this t]
      then have "list_all (task_ok q) (ts[i := t])"
        using list_all_task_ok_mono [of r q ts] ok(2) True
        by (auto simp: list_all_length nth_list_update)
      then show ?thesis using new by (simp add: s Turn True t sys_ok_def)
    qed (use assms in \<open>simp add: s Turn\<close>)
  next
    case (StoreState i v)
    have "no_new_config r (set_state r i v)" by (rule no_new_config_cong) (simp add: set_state_def)
    then show ?thesis
      using ok by (simp add: s StoreState sys_ok_def set_state_ok list_all_task_ok_mono)
  next
    case (Work n f)
    then show ?thesis
      using ok list_all_task_ok_mono [OF on_pool_no_new_config [OF registry_okD(1) [OF ok(1)]]]
      by (simp add: s sys_ok_def on_pool_ok)
  qed
qed

lemma on_pool_agree: "agree r r' \<Longrightarrow> agree (on_pool r n f) (on_pool r' n f)"
  by (simp add: agree_def on_pool_def split: option.split)

lemma set_state_agree: "agree r r' \<Longrightarrow> agree (set_state r i v) (set_state r' i v)"
  by (simp add: agree_def set_state_def)

lemma sys_step_agree:
  assumes "sys_ok s" and "agree (fst s) r'"
  shows "agree (fst (sys_step s m)) (foldl reg_step r' (commit s m))"
proof -
  obtain r ts where s: "s = (r, ts)" by (rule prod.exhaust)
  show ?thesis
  proof (cases m)
    case (Turn i nd)
    then show ?thesis
      using assms task_step_agree [of r r' "ts ! i" nd]
      by (auto simp: s sys_ok_def list_all_length split: prod.split)
  qed (use assms in \<open>simp_all add: s on_pool_agree set_state_agree\<close>)
qed

lemma sys_run_sequential:
  "sys_ok s \<Longrightarrow> agree (fst s) r' \<Longrightarrow>
     sys_ok (sys_run s ms) \<and> agree (fst (sys_run s ms)) (foldl reg_step r' (commits s ms))"
  unfolding sys_run_def
proof (induction ms arbitrary: s r')
  case (Cons m ms)
  from Cons.IH [OF sys_step_ok [OF Cons.prems(1)] sys_step_agree [OF Cons.prems], of m] show ?case
    by simp
qed simp

lemma sys_ok_waiting: "registry_ok reg \<Longrightarrow> sys_ok (reg, map Waiting rs)"
  by (simp add: sys_ok_def list_all_iff task_ok_def)

subsection \<open>The properties\<close>

text \<open>C8: The registry linearises.  Take any registry that a run can reach, any requests to put and remove VIPs,
  and interleave the requests' locked sections in any way with each other, with the VRRP loops storing
  their states and with work on the pools, every step on whatever the node then answers.  The registry then
  has exactly the VIPs and the VRRP instances it has when the requests that changed it are served one after
  another, in the order of those sections; and it keeps its invariant.\<close>

theorem requests_linearise:
  "let reg = reg_after file content ops;
       now = fst (sys_run (reg, map Waiting rs) ms);
       one_by_one = reg_after file content (ops @ commits (reg, map Waiting rs) ms)
   in vips now = vips one_by_one \<and> instances now = instances one_by_one \<and> registry_ok now
      \<and> running now = ran (owns now)"
proof -
  let ?reg = "reg_after file content ops"
  have "sys_ok (?reg, map Waiting rs)" by (rule sys_ok_waiting [OF reg_after_ok])
  from sys_run_sequential [OF this, of ?reg ms]
  have ok: "sys_ok (sys_run (?reg, map Waiting rs) ms)"
    and seq: "agree (fst (sys_run (?reg, map Waiting rs) ms)) (reg_after file content (ops @ commits (?reg, map Waiting rs) ms))"
    by (simp_all add: reg_after_def)
  have "registry_ok (fst (sys_run (?reg, map Waiting rs) ms))" using ok by (simp add: sys_ok_def)
  then show ?thesis
    using seq registry_okD(5) by (auto simp: Let_def agree_def owned_running)
qed

text \<open>A request that nobody interrupts is the request as the code reads from top to bottom: a put or a
  removal whose task takes its six steps in a row leaves the registry, its state file included, and answers
  as \<open>apply\<close> and \<open>remove\<close> do.\<close>

theorem lone_requests_are_atomic:
  "sys_run (reg, [Waiting (PutVip name s)]) (replicate 6 (Turn 0 nd)) =
     (snd (apply_vip nd reg name s), [Replied (map_sum id Some (fst (apply_vip nd reg name s)))])
   \<and> sys_run (reg, [Waiting (DeleteVip name)]) (replicate 6 (Turn 0 nd)) =
     (snd (remove_vip nd reg name), [Replied (map_sum id (\<lambda>_. None) (fst (remove_vip nd reg name)))])"
  by (simp add: sys_run_def numeral_eq_Suc apply_vip_def remove_vip_split save_def
      split: sum.split prod.split option.split)

subsection \<open>Where the state file is left behind\<close>

text \<open>Two VIPs are put at the same time.  The first task has made its text when the second puts its VIP, saves
  it and answers; then the first writes.  Both clients are told that their VIP was created, both VIPs run, and
  the state file has only the first: the next start does not bring the second back.\<close>

theorem concurrent_puts_lose_a_saved_vip:
  "\<exists>ms reg. sys_run (registry_new (Some ''vips.json'') None,
        map Waiting [PutVip ''kube'' (demo_spec 50), PutVip ''ingress'' (demo_spec 51)]) ms
       = (reg, [Replied (Inr (Some True)), Replied (Inr (Some True))])
     \<and> map_of (vips reg) ''ingress'' = Some (demo_entry 51 False)
     \<and> disk reg = Some [(''kube'', demo_spec 50)]
     \<and> get_vip (snd (load_state demo_node (registry_new (Some ''vips.json'') (disk reg)))) ''ingress'' = None"
proof -
  let ?new = "registry_new (Some ''vips.json'') None"
  let ?ms = "replicate 5 (Turn 0 demo_node) @ replicate 6 (Turn 1 demo_node) @ [Turn 0 demo_node]"
  let ?one = "set_entry ?new ''kube'' (demo_entry 50 False)"
  let ?two = "set_entry ?one ''ingress'' (demo_entry 51 False)"
  have fields: "vips ?new = []" "pending ?new = []" "state_file ?new = Some ''vips.json''"
    by (simp_all add: registry_new_def)
  have rw: "can_write demo_node f = Inr ()" "can_read demo_node f = Inr ()" for f by (simp_all add: demo_node_def)
  have pend: "r\<lparr>pending := bt_remove n []\<rparr> = r" if "pending r = []" for r :: registry and n :: string
    using that by (simp add: bt_remove_def)
  have kube: "put demo_node ?new ''kube'' (demo_spec 50) False = (Inr True, ?one)"
    by (rule put_demo) (simp_all add: fields taken_by_def)
  have ingress: "put demo_node ?one ''ingress'' (demo_spec 51) False = (Inr True, ?two)"
    by (rule put_demo) (simp_all add: fields taken_by_def demo_entry_def)
  have api: "\<not> e_from_config (demo_entry n False)" "e_spec (demo_entry n False) = demo_spec n" for n
    by (simp_all add: demo_entry_def)
  obtain reg where run: "sys_run (?new, map Waiting [PutVip ''kube'' (demo_spec 50), PutVip ''ingress'' (demo_spec 51)]) ?ms
       = (reg, [Replied (Inr (Some True)), Replied (Inr (Some True))])"
    and reg: "vips reg = vips ?two" "disk reg = Some [(''kube'', demo_spec 50)]"
    by (simp add: sys_run_def numeral_eq_Suc kube ingress is_config_vip_def fields rw pend saved_vips_def api)
  let ?next = "registry_new (Some ''vips.json'') (Some [(''kube'', demo_spec 50)])"
  have again: "put demo_node ?next ''kube'' (demo_spec 50) False = (Inr True, set_entry ?next ''kube'' (demo_entry 50 False))"
    by (rule put_demo) (simp_all add: registry_new_def taken_by_def)
  have "state_file ?next = Some ''vips.json''" "disk ?next = Some [(''kube'', demo_spec 50)]" "vips ?next = []"
    by (simp_all add: registry_new_def)
  then have "get_vip (snd (load_state demo_node ?next)) ''ingress'' = None"
    by (simp add: load_state_def rw get_vip_def again)
  with run reg show ?thesis
    by (intro exI [of _ ?ms] exI [of _ reg]) (simp add: fields)
qed

end
