(* ===== verification/Startup.thy ===== *)
theory Startup
  imports Vips_Props Bgp_Session
begin

text \<open>
  \<open>src/main.rs\<close>: what a configuration starts, in which order, and what each failure does; the task that
  tells the BGP sessions whether the config VIP has a healthy backend; and how the process ends.  Last
  come the properties that span the start-up, the registry, its state file and the BGP sessions.

  The metrics server, the router and the API run beside this and are tasks of their own; their
  failures are values here.  Logging is left out.
\<close>

subsection \<open>The parts\<close>

datatype start_error = NothingToDo | BadVip apply_error | BgpNeedsIpv4

definition new_registry :: "config \<Rightarrow> (string \<times> vip_spec) list option \<Rightarrow> registry" where
  "new_registry cfg content = registry_new (Option.bind (cfg_api cfg) api_state_file) content"

text \<open>The \<open>[vip]\<close> of the file.\<close>

definition start_vip :: "node \<Rightarrow> config \<Rightarrow> registry \<Rightarrow> (start_error, registry) result" where
  "start_vip nd cfg reg =
     (case config_spec cfg of
        None \<Rightarrow> Inr reg
      | Some s \<Rightarrow>
          (case start_config nd reg s of
             (Inl e, _) \<Rightarrow> Inl (BadVip e)
           | (Inr _, reg') \<Rightarrow> Inr reg'))"

text \<open>The sessions \<open>spawn\<close> runs, with what it gives each of them.\<close>

definition sessions :: "bgp_cfg \<Rightarrow> ipv4 \<Rightarrow> ipv4 \<Rightarrow> session_cfg list" where
  "sessions cfg vip nh =
     (case spawn cfg nh of
        (ident, ps) \<Rightarrow>
          map (\<lambda>p. \<lparr>to_peer = p, my_asn = local_asn cfg, bgp_id = ident, next_hop = nh, bgp_vip = vip\<rparr>) ps)"

text \<open>
  BGP, for the config VIP: nothing to start, refused by \<open>preflight\<close>, or its sessions.  \<open>None\<close> is the
  panic of \<open>expect\<close>.
\<close>

datatype bgp_start = NoBgp | BgpRefused string | BgpRuns "session_cfg list"

definition start_bgp :: "config \<Rightarrow> registry \<Rightarrow> (start_error, bgp_start) result option" where
  "start_bgp cfg reg =
     (case (bgp_enabled (cfg_bgp cfg), cfg_vip cfg) of
        (True, Some v) \<Rightarrow>
          (case parse_ipv4 (vip_address v) of
             None \<Rightarrow> Some (Inl BgpNeedsIpv4)
           | Some vip \<Rightarrow>
               (case preflight (cfg_bgp cfg) of
                  Inl e \<Rightarrow> Some (Inr (BgpRefused e))
                | Inr nh \<Rightarrow>
                    (case pool_of reg CONFIG_VIP of
                       None \<Rightarrow> None
                     | Some _ \<Rightarrow> Some (Inr (BgpRuns (sessions (cfg_bgp cfg) vip nh))))))
      | _ \<Rightarrow> Some (Inr NoBgp))"

text \<open>The state file is read only when there is an API; a failure is logged.\<close>

definition load_saved :: "node \<Rightarrow> config \<Rightarrow> registry \<Rightarrow> registry" where
  "load_saved nd cfg reg = (if cfg_api cfg = None then reg else snd (load_state nd reg))"

subsection \<open>The whole start\<close>

record started =
  st_registry :: registry
  st_bgp :: bgp_start

datatype start = Exit start_error | Panic | Up started

definition start_up :: "node \<Rightarrow> config \<Rightarrow> (string \<times> vip_spec) list option \<Rightarrow> start" where
  "start_up nd cfg content =
     (if cfg_vip cfg = None \<and> cfg_router cfg = None \<and> cfg_api cfg = None then Exit NothingToDo
      else (case start_vip nd cfg (new_registry cfg content) of
              Inl e \<Rightarrow> Exit e
            | Inr reg \<Rightarrow>
                (case start_bgp cfg reg of
                   None \<Rightarrow> Panic
                 | Some (Inl e) \<Rightarrow> Exit e
                 | Some (Inr b) \<Rightarrow> Up \<lparr>st_registry = load_saved nd cfg reg, st_bgp = b\<rparr>)))"

subsection \<open>The health watch\<close>

text \<open>A poll of the pool, every 250 ms: the value the sessions watch, and whether it is news.\<close>

definition watch_step :: "bool \<Rightarrow> pool \<Rightarrow> bool \<times> bool" where
  "watch_step seen p = (let healthy = 0 < healthy_count p in (seen \<noteq> healthy, healthy))"

fun watch :: "bool \<Rightarrow> pool list \<Rightarrow> bool list" where
  "watch seen [] = []"
| "watch seen (p # ps) =
     (case watch_step seen p of
        (news, healthy) \<Rightarrow> (if news then [healthy] else []) @ watch healthy ps)"

subsection \<open>How the process ends\<close>

text \<open>
  \<open>select!\<close> over the router and the API: the router's end is the process's when it runs alone, the
  API's always; \<open>None\<close> is a process that goes on.
\<close>

datatype 'r ended_task = RouterEnded 'r | ApiEnded 'r

definition router_alone :: "config \<Rightarrow> bool" where
  "router_alone cfg \<longleftrightarrow> cfg_vip cfg = None \<and> cfg_api cfg = None"

definition process_end :: "config \<Rightarrow> 'r ended_task \<Rightarrow> 'r option" where
  "process_end cfg t =
     (case t of
        RouterEnded r \<Rightarrow> (if cfg_router cfg \<noteq> None \<and> router_alone cfg then Some r else None)
      | ApiEnded r \<Rightarrow> (if cfg_api cfg \<noteq> None then Some r else None))"

subsection \<open>Facts\<close>

lemma new_registry_ok: "registry_ok (new_registry cfg content)"
  by (simp add: new_registry_def registry_new_ok)

lemma new_registry_fields:
  "vips (new_registry cfg content) = []" "pending (new_registry cfg content) = []"
  "disk (new_registry cfg content) = content"
  "state_file (new_registry cfg content) = Option.bind (cfg_api cfg) api_state_file"
  by (simp_all add: new_registry_def registry_new_def)

lemma config_spec_None: "config_spec cfg = None \<longleftrightarrow> cfg_vip cfg = None"
  by (simp add: config_spec_def split: option.split)

lemma config_spec_address:
  "config_spec cfg = Some s \<Longrightarrow> cfg_vip cfg = Some v \<Longrightarrow> v_address s = vip_address v"
  by (auto simp: config_spec_def)

text \<open>A VIP that was started from the config file is the config VIP, as the file says.\<close>

lemma start_vip_accepted:
  assumes "start_vip nd cfg (new_registry cfg content) = Inr reg"
  obtains (without) "config_spec cfg = None" "reg = new_registry cfg content"
  | (serving) s e where "config_spec cfg = Some s" "vips reg = [(CONFIG_VIP, e)]" "e_spec e = s"
      "e_from_config e" "pending reg = []" "disk reg = content"
      "state_file reg = Option.bind (cfg_api cfg) api_state_file" "registry_ok reg"
proof (cases "config_spec cfg")
  case None
  with assms that(1) show ?thesis by (simp add: start_vip_def)
next
  case (Some s)
  let ?r = "new_registry cfg content"
  obtain r reg' where p: "put nd ?r CONFIG_VIP s True = (r, reg')" by (rule prod.exhaust)
  with assms Some obtain b where r: "r = Inr b" and reg: "reg = reg'"
    by (auto simp: start_vip_def start_config_def rbind_def split: sum.splits)
  have ok: "registry_ok reg"
    unfolding reg by (rule put_ok [OF new_registry_ok p])
  have none: "map_of (vips ?r) CONFIG_VIP = None" by (simp add: new_registry_fields)
  from none p show ?thesis
  proof (cases rule: put_fresh)
    case (created e)
    with that(2) [OF Some] ok show ?thesis by (simp add: reg new_registry_fields)
  qed (simp add: r)
qed

lemma start_vip_ok: "start_vip nd cfg (new_registry cfg content) = Inr reg \<Longrightarrow> registry_ok reg"
  by (erule start_vip_accepted) (simp_all add: new_registry_ok)

text \<open>What a save would write for a name.\<close>

definition kept :: "registry \<Rightarrow> string \<rightharpoonup> vip_spec" where
  "kept reg n =
     (case map_of (vips reg) n of
        Some e \<Rightarrow> if e_from_config e then map_of (pending reg) n else Some (e_spec e)
      | None \<Rightarrow> map_of (pending reg) n)"

lemma map_of_saved_vips: "registry_ok reg \<Longrightarrow> map_of (saved_vips reg) = kept reg"
  by (rule ext) (simp add: kept_def saved_vips registry_okD)

text \<open>Loading: each saved VIP is started or pending, and nothing else changes.\<close>

lemma load_vips_kept:
  assumes "registry_ok reg" and "distinct (map fst saved)"
    and "\<forall>n \<in> fst ` set saved. map_of (vips reg) n = None" and "load_vips nd reg saved = (k, reg')"
  shows "kept reg' = kept reg ++ map_of saved
    \<and> (\<forall>n. n \<notin> fst ` set saved \<longrightarrow> map_of (vips reg') n = map_of (vips reg) n)"
  using assms
proof (induction saved arbitrary: reg k)
  case (Cons x saved)
  obtain name s where x: "x = (name, s)" by (rule prod.exhaust)
  obtain r reg1 where p: "put nd reg name s False = (r, reg1)" by (rule prod.exhaust)
  have none: "map_of (vips reg) name = None" using Cons.prems(3) x by simp
  have dist: "distinct (map fst saved)" "name \<notin> fst ` set saved"
    using Cons.prems(2) x by auto
  have ok1: "registry_ok reg1" by (rule put_ok [OF Cons.prems(1) p])
  note ok = registry_okD [OF Cons.prems(1)]
  have notin: "map_of saved name = None" using dist(2) by (simp add: map_of_eq_None_iff)
  from none p show ?case
  proof (cases rule: put_fresh)
    case (refused err)
    let ?reg = "reg\<lparr>pending := bt_insert name s (pending reg)\<rparr>"
    obtain k' where rest: "load_vips nd ?reg saved = (k', reg')"
      using Cons.prems(4) x p refused by (auto split: prod.splits)
    have "registry_ok ?reg" by (rule pending_ok [OF Cons.prems(1)]) (simp add: ok)
    moreover have "kept ?reg = (kept reg)(name \<mapsto> s)"
      using none ok by (auto simp: kept_def fun_eq_iff split: option.split)
    ultimately show ?thesis
      using Cons.IH [OF _ dist(1) _ rest] Cons.prems(3) x notin
      by (auto simp: fun_eq_iff map_add_def split: option.split)
  next
    case (created e)
    obtain k' where rest: "load_vips nd reg1 saved = (k', reg')"
      using Cons.prems(4) x p created by (auto split: prod.splits)
    have "kept reg1 = (kept reg)(name \<mapsto> s)"
      using ok created by (auto simp: kept_def fun_eq_iff split: option.split)
    moreover have "\<forall>n \<in> fst ` set saved. map_of (vips reg1) n = None"
      using created(2) ok dist(2) Cons.prems(3) x by auto
    ultimately show ?thesis
      using Cons.IH [OF ok1 dist(1) _ rest] ok created(2) x notin
      by (auto simp: fun_eq_iff map_add_def split: option.split)
  qed
qed simp

text \<open>The whole start, when it succeeds.\<close>

lemma start_up_up:
  assumes "start_up nd cfg content = Up st"
  obtains reg where "start_vip nd cfg (new_registry cfg content) = Inr reg"
    and "start_bgp cfg reg = Some (Inr (st_bgp st))" and "st_registry st = load_saved nd cfg reg"
  using assms
  by (auto simp: start_up_def split: if_splits sum.splits option.splits)

lemma start_bgp_panics: "start_bgp cfg reg = None \<Longrightarrow> cfg_vip cfg \<noteq> None \<and> pool_of reg CONFIG_VIP = None"
  by (auto simp: start_bgp_def split: bool.splits option.splits sum.splits)

lemma load_saved_ok: "registry_ok reg \<Longrightarrow> registry_ok (load_saved nd cfg reg)"
  unfolding load_saved_def by (auto intro: load_state_ok [OF _ prod.collapse [symmetric]])

text \<open>What the state file holds; none is no VIPs.\<close>

definition saved_in :: "'a list option \<Rightarrow> 'a list" where
  "saved_in content = (case content of None \<Rightarrow> [] | Some m \<Rightarrow> m)"

lemma start_vip_leaves:
  assumes "start_vip nd cfg (new_registry cfg content) = Inr reg"
  shows "disk reg = content \<and> state_file reg = Option.bind (cfg_api cfg) api_state_file
    \<and> kept reg = Map.empty \<and> (\<forall>n. n \<noteq> CONFIG_VIP \<longrightarrow> map_of (vips reg) n = None)"
  using assms
proof (cases rule: start_vip_accepted)
  case without
  then show ?thesis by (simp add: new_registry_fields kept_def fun_eq_iff)
next
  case (serving s e)
  then show ?thesis by (simp add: kept_def fun_eq_iff)
qed

text \<open>Loading the file after the start of the config VIP, which is not saved in it.\<close>

lemma load_saved_kept:
  assumes "start_vip nd cfg (new_registry cfg content) = Inr reg"
    and "bt_ok (saved_in content)" and "CONFIG_VIP \<notin> fst ` set (saved_in content)"
  shows "map_of (vips (load_saved nd cfg reg)) CONFIG_VIP = map_of (vips reg) CONFIG_VIP"
    and "cfg_api cfg = Some a \<Longrightarrow> api_state_file a = Some f \<Longrightarrow> can_read nd f = Inr u \<Longrightarrow>
      kept (load_saved nd cfg reg) = map_of (saved_in content)"
proof -
  have ok: "registry_ok reg" by (rule start_vip_ok [OF assms(1)])
  have reg: "disk reg = content" "state_file reg = Option.bind (cfg_api cfg) api_state_file"
      "kept reg = Map.empty" and others: "\<forall>n. n \<noteq> CONFIG_VIP \<longrightarrow> map_of (vips reg) n = None"
    using start_vip_leaves [OF assms(1)] by blast+
  have fresh: "\<forall>n \<in> fst ` set (saved_in content). map_of (vips reg) n = None"
    using others assms(3) by metis
  obtain k reg' where load: "load_vips nd reg (saved_in content) = (k, reg')" by (rule prod.exhaust)
  have kept: "kept reg' = map_of (saved_in content)"
    and same: "map_of (vips reg') CONFIG_VIP = map_of (vips reg) CONFIG_VIP"
    using load_vips_kept [OF ok bt_ok_distinct [OF assms(2)] fresh load] assms(3) by (simp_all add: reg(3))
  have state: "snd (load_state nd reg) =
      (if content = None \<or> (\<exists>f e. state_file reg = Some f \<and> can_read nd f = Inl e) \<or> state_file reg = None
       then reg else reg')"
    using load unfolding load_state_def reg(1) saved_in_def
    by (cases "state_file reg"; cases content) (simp_all split: sum.split)
  show "map_of (vips (load_saved nd cfg reg)) CONFIG_VIP = map_of (vips reg) CONFIG_VIP"
    by (simp add: load_saved_def state same)
  show "kept (load_saved nd cfg reg) = map_of (saved_in content)"
    if "cfg_api cfg = Some a" "api_state_file a = Some f" "can_read nd f = Inr u"
    using that reg(2,3) kept by (cases content) (simp_all add: load_saved_def state saved_in_def)
qed

subsection \<open>Properties\<close>

text \<open>The start never panics, whatever the configuration, the node and the state file hold: when
  BGP asks for the config VIP's pool, that VIP was started.  And the registry it hands to the API and
  the metrics keeps its invariant.\<close>

theorem start_up_never_panics:
  "case start_up nd cfg content of
     Panic \<Rightarrow> False
   | Exit _ \<Rightarrow> True
   | Up st \<Rightarrow> registry_ok (st_registry st) \<and> running (st_registry st) = ran (owns (st_registry st))"
proof (cases "start_up nd cfg content")
  case Panic
  then obtain reg where vip: "start_vip nd cfg (new_registry cfg content) = Inr reg"
    and none: "start_bgp cfg reg = None"
    by (auto simp: start_up_def split: if_splits sum.splits option.splits)
  from start_bgp_panics [OF none] have "pool_of reg CONFIG_VIP = None" "config_spec cfg \<noteq> None"
    by (simp_all add: config_spec_None)
  with vip have False by (cases rule: start_vip_accepted) (simp_all add: pool_of_def)
  then show ?thesis ..
next
  case (Up st)
  then have "registry_ok (st_registry st)"
    by (rule start_up_up) (simp add: load_saved_ok start_vip_ok)
  then show ?thesis
    using Up registry_okD(5) by (simp add: owned_running)
qed simp

text \<open>The config file's VIP runs as the file says.  When the start succeeds with a \<open>[vip]\<close> (and the
  state file holds none of its name), the VIP \<open>default\<close> has exactly the spec of the file, is marked
  as the file's and cannot be changed through the API; and with BGP enabled and accepted, each peer
  with an IPv4 address gets a session that announces exactly this VIP's address.\<close>

theorem config_vip_starts_as_configured:
  assumes "start_up nd cfg content = Up st" and "cfg_vip cfg = Some v"
    and "bt_ok (saved_in content)" and "CONFIG_VIP \<notin> fst ` set (saved_in content)"
  shows "\<exists>e. map_of (vips (st_registry st)) CONFIG_VIP = Some e \<and> config_spec cfg = Some (e_spec e)
    \<and> is_config_vip (st_registry st) CONFIG_VIP
    \<and> (\<forall>cs. st_bgp st = BgpRuns cs \<longrightarrow>
          map to_peer cs = List.map_filter peer_of (peers (cfg_bgp cfg))
          \<and> (\<forall>c \<in> set cs. parse_ipv4 (vip_address v) = Some (bgp_vip c)
               \<and> parse_ipv4 (router_id (cfg_bgp cfg)) = Some (next_hop c) \<and> bgp_id c = next_hop c))"
proof -
  obtain reg where vip: "start_vip nd cfg (new_registry cfg content) = Inr reg"
    and bgp: "start_bgp cfg reg = Some (Inr (st_bgp st))" and st: "st_registry st = load_saved nd cfg reg"
    by (rule start_up_up [OF assms(1)])
  have "config_spec cfg \<noteq> None" using assms(2) by (simp add: config_spec_None)
  with vip obtain e where e: "map_of (vips reg) CONFIG_VIP = Some e" "config_spec cfg = Some (e_spec e)"
    "e_from_config e"
    by (cases rule: start_vip_accepted) auto
  have "map_of (vips (st_registry st)) CONFIG_VIP = Some e"
    using load_saved_kept(1) [OF vip assms(3,4)] e(1) by (simp add: st)
  moreover have "map to_peer cs = List.map_filter peer_of (peers (cfg_bgp cfg))
      \<and> (\<forall>c \<in> set cs. parse_ipv4 (vip_address v) = Some (bgp_vip c)
           \<and> parse_ipv4 (router_id (cfg_bgp cfg)) = Some (next_hop c) \<and> bgp_id c = next_hop c)"
    if "st_bgp st = BgpRuns cs" for cs
    using bgp that assms(2)
    by (auto simp: start_bgp_def sessions_def spawn_def preflight_def comp_def
        split: bool.splits option.splits sum.splits if_splits)
  ultimately show ?thesis
    using e(2,3) by (auto simp: is_config_vip_def)
qed

subsection \<open>Configurations for the witnesses\<close>

definition demo_api :: api_cfg where
  "demo_api = \<lparr>api_listen = ''127.0.0.1:9103'', api_token_file = None, api_state_file = Some ''vips.json''\<rparr>"

definition demo_bgp :: bgp_cfg where
  "demo_bgp = \<lparr>bgp_enabled = True, local_asn = 64512, router_id = show_ipv4 (Ipv4 192 168 8 51),
     peers = [\<lparr>peer_address = show_ipv4 (Ipv4 192 168 8 1), peer_asn = 64513, peer_port = 179\<rparr>]\<rparr>"

definition demo_vrrp :: vrrp_cfg where
  "demo_vrrp = \<lparr>vrrp_enabled = False, vrrp_interface = [], vrrp_vrid = 51, vrrp_priority = 100,
     vrrp_preempt = True, vrrp_advert_interval_secs = 1\<rparr>"

definition demo_config :: "vip_cfg option \<Rightarrow> config" where
  "demo_config v = \<lparr>cfg_vip = v, cfg_backends = [], cfg_health = health_default, cfg_vrrp = demo_vrrp,
     cfg_bgp = demo_bgp, cfg_router = None, cfg_api = Some demo_api, cfg_metrics = None\<rparr>"

definition demo_vip :: vip_cfg where
  "demo_vip = \<lparr>vip_address = show_ipv4 (Ipv4 192 168 8 50), vip_port = 6443, vip_bind = show_ipv4 (Ipv4 0 0 0 0)\<rparr>"

lemma demo_vip_starts:
  "\<exists>reg. start_vip demo_node (demo_config (Some demo_vip)) (new_registry (demo_config (Some demo_vip)) None) = Inr reg"
  by (simp add: start_vip_def config_spec_def demo_config_def demo_vip_def demo_vrrp_def start_config_def
      put_def check_spec_def ok_or_def ensure_def check_health_def health_default_def default_path_def
      default_interval_def default_timeout_def default_expect_def check_vrrp_def taken_by_def
      new_registry_def registry_new_def create_vip_def demo_node_def checker_new_def client_def map_err_def
      bind_listener_def start_vrrp_def)

lemma demo_config_starts:
  "\<exists>st. start_up demo_node (demo_config (Some demo_vip)) None = Up st \<and> st_bgp st = BgpRuns [demo_session]"
proof -
  obtain reg where reg: "start_vip demo_node (demo_config (Some demo_vip))
      (new_registry (demo_config (Some demo_vip)) None) = Inr reg"
    using demo_vip_starts by blast
  then have "pool_of reg CONFIG_VIP \<noteq> None"
    by (cases rule: start_vip_accepted) (simp_all add: config_spec_None demo_config_def pool_of_def)
  then have "start_bgp (demo_config (Some demo_vip)) reg = Some (Inr (BgpRuns [demo_session]))"
    by (auto simp: start_bgp_def demo_config_def demo_bgp_def demo_vip_def preflight_def sessions_def
        spawn_def peer_of_def demo_session_def map_filter_def)
  with reg show ?thesis by (simp add: start_up_def) (simp add: demo_config_def)
qed

lemma config_vip_starts_as_configured_witness:
  "\<exists>st e. start_up demo_node (demo_config (Some demo_vip)) None = Up st
     \<and> map_of (vips (st_registry st)) CONFIG_VIP = Some e \<and> v_address (e_spec e) = show_ipv4 (Ipv4 192 168 8 50)"
proof -
  obtain st where up: "start_up demo_node (demo_config (Some demo_vip)) None = Up st"
    using demo_config_starts by blast
  have vip: "cfg_vip (demo_config (Some demo_vip)) = Some demo_vip"
    and none: "bt_ok (saved_in (None :: (string \<times> vip_spec) list option))"
      "CONFIG_VIP \<notin> fst ` set (saved_in (None :: (string \<times> vip_spec) list option))"
    by (simp_all add: demo_config_def saved_in_def)
  from config_vip_starts_as_configured [OF up vip none] obtain e where
    "map_of (vips (st_registry st)) CONFIG_VIP = Some e" and "config_spec (demo_config (Some demo_vip)) = Some (e_spec e)"
    by blast
  moreover from config_spec_address [OF this(2) vip] have "v_address (e_spec e) = show_ipv4 (Ipv4 192 168 8 50)"
    by (simp add: demo_vip_def)
  ultimately show ?thesis using up by blast
qed

subsection \<open>Restarts\<close>

lemma restart_saved:
  assumes "start_up nd cfg (Some saved) = Up st" and "bt_ok saved" and "CONFIG_VIP \<notin> fst ` set saved"
    and "cfg_api cfg = Some a" and "api_state_file a = Some f" and "can_read nd f = Inr u"
  shows "saved_vips (st_registry st) = saved
    \<and> (\<forall>(n, s) \<in> set saved.
         (\<exists>e. map_of (vips (st_registry st)) n = Some e \<and> e_spec e = s) \<or> map_of (pending (st_registry st)) n = Some s)"
proof -
  obtain reg where vip: "start_vip nd cfg (new_registry cfg (Some saved)) = Inr reg"
    and st: "st_registry st = load_saved nd cfg reg"
    by (rule start_up_up [OF assms(1)])
  have ok: "registry_ok (st_registry st)"
    unfolding st by (rule load_saved_ok [OF start_vip_ok [OF vip]])
  have "kept (st_registry st) = map_of saved"
    unfolding st using load_saved_kept(2) [OF vip _ _ assms(4-6)] assms(2,3) by (simp add: saved_in_def)
  moreover from this have "saved_vips (st_registry st) = saved"
    using bt_ext [OF bt_ok_saved_vips assms(2)] ok by (simp add: map_of_saved_vips registry_okD)
  moreover have "(\<exists>e. map_of (vips (st_registry st)) n = Some e \<and> e_spec e = s)
      \<or> map_of (pending (st_registry st)) n = Some s" if "kept (st_registry st) n = Some s" for n s
    using that by (auto simp: kept_def split: option.splits if_splits)
  ultimately show ?thesis
    using bt_ok_distinct [OF assms(2)] by auto
qed

text \<open>C16: A restart loses no VIP.  When the state file can be read and none of its VIPs has the name of the
  config file's own, every VIP saved in it is, after the start, serving with the spec it was saved with or waiting in \<open>pending\<close>, whatever of it the node
  refused; and what the next save writes is exactly what the file held.\<close>

theorem restart_keeps_saved_vips:
  assumes "start_up nd cfg (Some saved) = Up st" and "bt_ok saved" and "CONFIG_VIP \<notin> fst ` set saved"
    and "cfg_api cfg = Some a" and "api_state_file a = Some f" and "can_read nd f = Inr u"
  shows "saved_vips (st_registry st) = saved
    \<and> (\<forall>(n, s) \<in> set saved.
         (\<exists>e. map_of (vips (st_registry st)) n = Some e \<and> e_spec e = s) \<or> map_of (pending (st_registry st)) n = Some s)"
  using assms by (rule restart_saved)

definition demo_saved :: "(string \<times> vip_spec) list" where
  "demo_saved = [(''kube'', demo_spec 51), (''web'', (demo_spec 52)\<lparr>v_port := 0\<rparr>)]"

lemma demo_api_starts:
  "\<exists>st. start_up demo_node (demo_config None) content = Up st
     \<and> st_registry st = load_saved demo_node (demo_config None) (new_registry (demo_config None) content)"
  by (simp add: start_up_def start_vip_def config_spec_def start_bgp_def demo_config_def split: bool.split)

lemma restart_keeps_saved_vips_witness:
  "\<exists>st. start_up demo_node (demo_config None) (Some demo_saved) = Up st \<and> saved_vips (st_registry st) = demo_saved"
proof -
  obtain st where up: "start_up demo_node (demo_config None) (Some demo_saved) = Up st"
    using demo_api_starts by blast
  have "bt_ok demo_saved" and "CONFIG_VIP \<notin> fst ` set demo_saved"
    and "cfg_api (demo_config None) = Some demo_api" and "api_state_file demo_api = Some ''vips.json''"
    and "can_read demo_node ''vips.json'' = Inr ()"
    by (simp_all add: demo_saved_def bt_ok_def CONFIG_VIP_def demo_config_def demo_api_def demo_node_def)
  from restart_keeps_saved_vips [OF up this] up show ?thesis by blast
qed

text \<open>But a state file that could not be read or parsed at the start is lost: the process goes on
  without it, and the first change accepted after that writes a file with this VIP alone.\<close>

theorem unread_state_file_is_overwritten:
  assumes "start_up nd cfg (Some saved) = Up st" and "cfg_api cfg = Some a" and "api_state_file a = Some f"
    and "can_read nd f = Inl err" and "apply_vip nd2 (st_registry st) name s = (Inr b, reg')"
  shows "disk reg' = Some [(name, s)]"
proof -
  obtain reg where vip: "start_vip nd cfg (new_registry cfg (Some saved)) = Inr reg"
    and st: "st_registry st = load_saved nd cfg reg"
    by (rule start_up_up [OF assms(1)])
  have reg: "disk reg = Some saved" "state_file reg = Some f"
    using start_vip_leaves [OF vip] assms(2,3) by simp_all
  then have same: "st_registry st = reg"
    using assms(2,4) by (simp add: st load_saved_def load_state_def)
  from assms(5) [unfolded same] obtain reg1 r1 where p: "put nd2 reg name s False = (Inr b, reg1)"
    and sv: "save nd2 (reg1\<lparr>pending := bt_remove name (pending reg1)\<rparr>) = (r1, reg')" and r1: "r1 = Inr ()"
    and not_config: "\<not> is_config_vip reg name"
    by (cases rule: apply_vip_cases) (auto simp: rbind_def split: sum.splits)
  have ok: "registry_ok reg" by (rule start_vip_ok [OF vip])
  have kept0: "kept reg = Map.empty" using start_vip_leaves [OF vip] by blast
  have fresh: "map_of (vips reg) name = None"
    using vip not_config
    by (cases rule: start_vip_accepted) (auto simp: new_registry_fields is_config_vip_def split: if_splits)
  let ?reg = "reg1\<lparr>pending := bt_remove name (pending reg1)\<rparr>"
  have ok1: "registry_ok ?reg" by (rule forget_pending_ok [OF put_ok [OF ok p]])
  from fresh p have "kept ?reg = [name \<mapsto> s] \<and> state_file ?reg = Some f"
  proof (cases rule: put_fresh)
    case (created e)
    have "kept ?reg n = (if n = name then Some s else kept reg n)" for n
      using created registry_okD(1) [OF ok] by (auto simp: kept_def split: option.split)
    then show ?thesis using kept0 created reg(2) by (simp add: fun_eq_iff)
  qed simp
  moreover from this have "saved_vips ?reg = [(name, s)]"
    using bt_ext [OF bt_ok_saved_vips [OF registry_okD(2) [OF ok1]], of "[(name, s)]"]
    by (simp add: map_of_saved_vips [OF ok1] bt_ok_Cons)
  ultimately show ?thesis
    using save_writes [of nd2 ?reg reg' f] sv r1 by simp
qed

lemma unread_state_file_is_overwritten_witness:
  "\<exists>st reg'. start_up (demo_node\<lparr>can_read := \<lambda>_. Inl ''EIO''\<rparr>) (demo_config None) (Some demo_saved) = Up st
     \<and> apply_vip demo_node (st_registry st) ''ingress'' (demo_spec 53) = (Inr True, reg')
     \<and> disk reg' = Some [(''ingress'', demo_spec 53)]"
proof -
  let ?nd = "demo_node\<lparr>can_read := \<lambda>_. Inl ''EIO''\<rparr>" and ?reg = "new_registry (demo_config None) (Some demo_saved)"
  obtain st where up: "start_up ?nd (demo_config None) (Some demo_saved) = Up st" and st: "st_registry st = ?reg"
    by (simp add: start_up_def start_vip_def config_spec_def start_bgp_def demo_config_def load_saved_def
        load_state_def new_registry_fields demo_api_def split: bool.split)
  have cfg: "cfg_api (demo_config None) = Some demo_api" "api_state_file demo_api = Some ''vips.json''"
    "can_read ?nd ''vips.json'' = Inl ''EIO''"
    by (simp_all add: demo_config_def demo_api_def)
  have "put demo_node ?reg ''ingress'' (demo_spec 53) False
      = (Inr True, set_entry ?reg ''ingress'' (demo_entry 53 False))"
    by (rule put_demo) (simp_all add: new_registry_fields taken_by_def)
  then obtain reg' where ap: "apply_vip demo_node (st_registry st) ''ingress'' (demo_spec 53) = (Inr True, reg')"
    by (simp add: st apply_vip_def is_config_vip_def new_registry_fields save_def cfg demo_node_def)
  from unread_state_file_is_overwritten [OF up cfg ap] up ap show ?thesis by blast
qed

subsection \<open>BGP and the pool\<close>

text \<open>The changes of the watched health in a session's run, and what they leave the session with.\<close>

definition health_sets :: "input list \<Rightarrow> bool list" where
  "health_sets is = List.map_filter (\<lambda>i. case event i of HealthSet v \<Rightarrow> Some v | _ \<Rightarrow> None) is"

lemma last_watch: "last (h # watch h ps) = (if ps = [] then h else 0 < healthy_count (last ps))"
  by (induction h ps rule: watch.induct) (auto simp: watch_step_def Let_def split: if_splits)

lemma step_advertise:
  assumes "session_step c s i = (out, Inr s')"
  shows "advertise s' = last (advertise s # health_sets [i])"
proof (cases "event i")
  case (Incoming m)
  with assms show ?thesis
    by (cases m) (auto simp: session_step_def health_sets_def on_message_def on_open_sent_def on_open_confirm_def
        on_established_def write_then_def notify_def peer_notified_def Let_def
        split: phase.splits if_splits sum.splits prod.splits)
qed (use assms in \<open>auto simp: session_step_def health_sets_def on_timer_def on_health_seen_def write_then_def
    notify_def Let_def map_filter_def split: if_splits\<close>)

lemma run_arms_advertise:
  "run_arms c s is = Some (out, Inr s') \<Longrightarrow> advertise s' = last (advertise s # health_sets is)"
proof (induction "is" arbitrary: s out)
  case (Cons i "is")
  then obtain out1 s1 rest where step: "session_step c s i = (out1, Inr s1)"
    and rest: "run_arms c s1 is = Some (rest, Inr s')"
    by (auto split: if_splits prod.splits sum.splits)
  have "health_sets (i # is) = health_sets [i] @ health_sets is"
    by (simp add: health_sets_def map_filter_def)
  then show ?case
    using Cons.IH [OF rest] step_advertise [OF step] by (auto simp: last_append)
qed (simp add: health_sets_def map_filter_def)

text \<open>The route follows the pool.  A session that is fed by the health watch, over any states the
  pool goes through, leaves the VIP's /32 in the peer's table, once it is Established and has handled
  the last change, exactly when the pool had a healthy backend at the last poll; and never before it
  is Established.\<close>

theorem bgp_route_follows_pool:
  assumes "session_run c now h w is = Some (out, Inr s)" and "health_sets is = watch h pools"
    and "pools \<noteq> []" and "established s" and "\<not> unseen s"
  shows "rib (bgp_vip c) False out = Some (0 < healthy_count (last pools))"
proof -
  obtain b where b: "rib (bgp_vip c) False out = Some b" "b = advertise s"
    using session_run_ok [OF assms(1)] assms(4,5) by (auto simp: route_settled_def session_ok_def)
  have "advertise s = last (h # health_sets is)"
    using assms(1)
    by (auto simp: session_run_def connected_def new_session_def write_then_def split: if_splits
        dest!: run_arms_advertise)
  with b assms(2,3) last_watch [of h pools] show ?thesis by simp
qed

lemma bgp_route_follows_pool_witness:
  "\<exists>out. rib (Ipv4 192 168 8 50) False out = Some True \<and> update_announce 64512 (Ipv4 192 168 8 51) (Ipv4 192 168 8 50) 32 \<in> set out"
proof -
  have up: "0 < healthy_count demo_pool"
    by (simp add: demo_pool_def healthy_at_def healthy_count_def)
  have "health_sets demo_events = watch True [demo_pool]"
    using up by (simp add: health_sets_def demo_events_def map_filter_def watch_step_def)
  from bgp_route_follows_pool [OF demo_run this] up
  have "rib (bgp_vip demo_session) False
       [open_msg 64512 HOLD_TIME (Ipv4 192 168 8 51), keepalive_msg,
        update_announce 64512 (Ipv4 192 168 8 51) (Ipv4 192 168 8 50) 32] = Some True"
    by (simp add: established_def)
  then have "rib (Ipv4 192 168 8 50) False
       [open_msg 64512 HOLD_TIME (Ipv4 192 168 8 51), keepalive_msg,
        update_announce 64512 (Ipv4 192 168 8 51) (Ipv4 192 168 8 50) 32] = Some True"
    unfolding demo_session_def session_cfg.simps .
  then show ?thesis by (intro exI conjI) (assumption, simp)
qed

end
