(* ===== verification/Bgp_Peering.thy ===== *)
theory Bgp_Peering
  imports Startup
begin

text \<open>
  \<open>src/bgp.rs\<close>, the task that \<open>spawn\<close> starts for a peer, with the health watch of \<open>src/main.rs\<close> that feeds it:
  one session after the other, five seconds between them, over one watched value that outlives the
  sessions.  The peer is a receiver as RFC 4271 has it: it reads what is written, and when the
  connection goes it drops the routes it was told.
\<close>

subsection \<open>State and steps\<close>

datatype peer_task = Trying | Talking session | Backing_off

text \<open>\<open>g_route\<close>: the VIP's /32 in the peer's table; \<open>None\<close> when the peer was sent what it could not read.\<close>

record peering =
  g_task :: peer_task
  g_now :: nat
  g_health :: bool
  g_route :: "bool option"

datatype peering_event = Looked pool | Tried nat | Talked

definition told :: "session_cfg \<Rightarrow> bool \<Rightarrow> peer_task \<Rightarrow> peer_task" where
  "told c v task = (case task of
     Talking x \<Rightarrow> (case session_step c x \<lparr>event = HealthSet v, at_time = 0, writes = True\<rparr> of
        (_, Inr x') \<Rightarrow> Talking x' | (_, Inl _) \<Rightarrow> Backing_off)
   | _ \<Rightarrow> task)"

text \<open>What becomes of the task and of the peer's table when an arm has run.\<close>

definition after_arm :: "session_cfg \<Rightarrow> peering \<Rightarrow> nat \<Rightarrow> reaction \<Rightarrow> peering" where
  "after_arm c s now x = (case x of
     (out, Inr x') \<Rightarrow> s\<lparr>g_task := Talking x', g_now := now, g_route := Option.bind (g_route s) (\<lambda>b. rib (bgp_vip c) b out)\<rparr>
   | (out, Inl _) \<Rightarrow> s\<lparr>g_task := Backing_off, g_now := now,
        g_route := map_option (\<lambda>_. False) (Option.bind (g_route s) (\<lambda>b. rib (bgp_vip c) b out))\<rparr>)"

text \<open>\<open>TcpStream::connect\<close> answers within ten seconds or is given up then; a session that could not be
  opened has only the pause before it.\<close>

inductive peering_step :: "session_cfg \<Rightarrow> peering \<Rightarrow> peering_event \<Rightarrow> peering \<Rightarrow> bool" for c where
  change: "watch_step (g_health s) p = (True, v) \<Longrightarrow>
     peering_step c s (Looked p) (s\<lparr>g_health := v, g_task := told c v (g_task s)\<rparr>)"
| same: "watch_step (g_health s) p = (False, v) \<Longrightarrow> peering_step c s (Looked p) s"
| connect: "g_task s = Trying \<Longrightarrow> g_now s \<le> now \<Longrightarrow> now \<le> g_now s + secs 10 \<Longrightarrow>
     peering_step c s (Tried (g_now s)) (after_arm c s now (connected c now (g_health s) w))"
| refused: "g_task s = Trying \<Longrightarrow> g_now s \<le> now \<Longrightarrow> now \<le> g_now s + secs 10 \<Longrightarrow>
     peering_step c s (Tried (g_now s)) (s\<lparr>g_task := Backing_off, g_now := now\<rparr>)"
| arm: "g_task s = Talking x \<Longrightarrow> enabled x i \<Longrightarrow> health_sets [i] = [] \<Longrightarrow> g_now s \<le> at_time i \<Longrightarrow>
     peering_step c s Talked (after_arm c s (at_time i) (session_step c x i))"
| again: "g_task s = Backing_off \<Longrightarrow> g_now s + secs 5 \<le> now \<Longrightarrow>
     peering_step c s Talked (s\<lparr>g_task := Trying, g_now := now\<rparr>)"

text \<open>Runs, the newest event first.\<close>

inductive peering_run :: "session_cfg \<Rightarrow> peering \<Rightarrow> peering_event list \<Rightarrow> peering \<Rightarrow> bool" for c s\<^sub>0 where
  fresh: "peering_run c s\<^sub>0 [] s\<^sub>0"
| further: "peering_run c s\<^sub>0 es s \<Longrightarrow> peering_step c s e t \<Longrightarrow> peering_run c s\<^sub>0 (e # es) t"

text \<open>\<open>watch::channel(false)\<close>, and the first session at once.\<close>

definition peering_start :: "nat \<Rightarrow> peering" where
  "peering_start now = \<lparr>g_task = Trying, g_now = now, g_health = False, g_route = Some False\<rparr>"

subsection \<open>The invariant\<close>

text \<open>The pool's health at the last look, and the times of the connection attempts.\<close>

fun last_look :: "peering_event list \<Rightarrow> bool" where
  "last_look [] = False"
| "last_look (Looked p # es) = (0 < healthy_count p)"
| "last_look (e # es) = last_look es"

fun tries :: "peering_event list \<Rightarrow> nat list" where
  "tries [] = []"
| "tries (Tried t # es) = t # tries es"
| "tries (e # es) = tries es"

definition talks_ok :: "peering_event list \<Rightarrow> peering \<Rightarrow> bool" where
  "talks_ok es s \<longleftrightarrow> g_health s = last_look es \<and>
     (case g_task s of
        Talking x \<Rightarrow> session_ok x \<and> advertise x = g_health s \<and> g_route s = Some (announced x)
      | _ \<Rightarrow> g_route s = Some False)"

definition tries_ok :: "peering_event list \<Rightarrow> peering \<Rightarrow> bool" where
  "tries_ok es s \<longleftrightarrow> sorted_wrt (\<lambda>later earlier. earlier + secs 5 \<le> later) (tries es)
     \<and> list_all (\<lambda>t. t + (if g_task s = Trying then secs 5 else 0) \<le> g_now s) (tries es)"

lemma told_step:
  "told c v (Talking x) = Talking (x\<lparr>advertise := v, unseen := True\<rparr>)"
  "told c v Trying = Trying" "told c v Backing_off = Backing_off"
  by (simp_all add: told_def session_step_def)

lemma talks_after_arm:
  assumes "follows c x reaction" and "g_route s = Some (announced x)" and "g_health s = last_look es"
    and "\<And>out x'. reaction = (out, Inr x') \<Longrightarrow> advertise x' = g_health s"
  shows "talks_ok es (after_arm c s now reaction)"
  using assms by (cases reaction; cases "snd reaction") (auto simp: follows_def after_arm_def talks_ok_def)

lemma follows_connected: "follows c (new_session now h) (connected c now h w)"
  by (simp add: connected_def write_then_def follows_def)

lemma talks_step:
  assumes "peering_step c s e t" and "talks_ok es s"
  shows "talks_ok (e # es) t"
  using assms(1)
proof cases
  case (change p v)
  then have "v = (0 < healthy_count p)" by (simp add: watch_step_def Let_def)
  then show ?thesis
    using change assms(2) by (cases "g_task s") (auto simp: talks_ok_def told_step session_ok_simps)
next
  case (same p v)
  then show ?thesis using assms(2) by (simp add: talks_ok_def watch_step_def Let_def)
next
  case (connect now w)
  show ?thesis
    unfolding connect(2) by (rule talks_after_arm [OF follows_connected])
      (use assms(2) connect in \<open>auto simp: talks_ok_def connected_def write_then_def new_session_def split: if_splits\<close>)
next
  case (arm x i)
  have ok: "session_ok x" "advertise x = g_health s" "g_route s = Some (announced x)" "g_health s = last_look es"
    using assms(2) arm(3) by (simp_all add: talks_ok_def)
  show ?thesis
    unfolding arm(2) by (rule talks_after_arm [OF follows_step [OF ok(1) arm(4)] ok(3)])
      (use ok arm step_advertise in fastforce)+
qed (use assms(2) in \<open>auto simp: talks_ok_def split: peer_task.splits\<close>)

lemma tries_after_arm [simp]:
  "g_now (after_arm c s now x) = now"
  "g_task (after_arm c s now x) \<noteq> Trying"
  by (auto simp: after_arm_def split: prod.split sum.split)

lemma tries_step:
  assumes "peering_step c s e t" and "tries_ok es s"
  shows "tries_ok (e # es) t"
  using assms(1)
proof cases
  case (change p v)
  then show ?thesis using assms(2) by (cases "g_task s") (simp_all add: tries_ok_def told_step)
next
  case (same p v)
  then show ?thesis using assms(2) by (simp add: tries_ok_def)
next
  case (connect now w)
  then show ?thesis using assms(2) by (auto simp: tries_ok_def list_all_iff)
next
  case (arm x i)
  then show ?thesis using assms(2) by (fastforce simp: tries_ok_def list_all_iff)
qed (use assms(2) in \<open>fastforce simp: tries_ok_def list_all_iff\<close>)+

lemma peering_run_ok:
  "peering_run c (peering_start now) es s \<Longrightarrow> talks_ok es s \<and> tries_ok es s"
proof (induction rule: peering_run.induct)
  case fresh
  show ?case by (simp add: peering_start_def talks_ok_def tries_ok_def)
next
  case (further es s e t)
  then show ?case using talks_step tries_step by blast
qed

subsection \<open>The property\<close>

text \<open>C5: The peer's route follows the pool across sessions.  Whatever the peer, the network and the pool do, and
  however often the session ends and comes back, the peer can read all it is sent; it has the VIP's /32
  only in an Established session; there, once the last change was handled, exactly when the pool had a
  healthy backend at the last look; and connection attempts are at least five seconds apart.\<close>

theorem peer_follows_pool_across_sessions:
  assumes "peering_run c (peering_start now) es s"
  shows "(case g_task s of
      Talking x \<Rightarrow> g_route s = Some (established x \<and> announced x)
        \<and> (established x \<and> \<not> unseen x \<longrightarrow> g_route s = Some (last_look es))
    | _ \<Rightarrow> g_route s = Some False)
    \<and> sorted_wrt (\<lambda>later earlier. earlier + secs 5 \<le> later) (tries es)"
  using peering_run_ok [OF assms]
  by (auto simp: talks_ok_def tries_ok_def session_ok_def split: peer_task.split)

text \<open>A look at a healthy pool, a session, the announcement; and the peer closes the connection.\<close>

lemma demo_peering:
  "\<exists>x. peering_run demo_session (peering_start 0) [Talked, Talked, Talked, Tried 0, Looked demo_pool]
     \<lparr>g_task = Talking x, g_now = 2, g_health = True, g_route = Some True\<rparr> \<and> established x \<and> \<not> unseen x"
proof -
  let ?run = "peering_run demo_session (peering_start 0)"
  let ?at = "\<lambda>x now b. \<lparr>g_task = Talking x, g_now = now, g_health = True, g_route = Some b\<rparr>"
  let ?x0 = "new_session 0 True"
  let ?x1 = "?x0\<lparr>phase := OpenConfirm 90, deadline := secs 90\<rparr>"
  let ?x2 = "\<lparr>phase = Established 90, deadline = 1 + secs 90, next_tick = 1 + secs 90 div 3,
                announced = False, advertise = True, unseen = True\<rparr>"
  let ?x3 = "?x2\<lparr>announced := True, unseen := False\<rparr>"
  have "watch_step False demo_pool = (True, True)"
    by (simp add: watch_step_def demo_pool_def healthy_at_def healthy_count_def)
  then have "?run [Looked demo_pool] \<lparr>g_task = Trying, g_now = 0, g_health = True, g_route = Some False\<rparr>"
    using peering_run.further [OF peering_run.fresh peering_step.change, of "peering_start 0" demo_pool True demo_session]
    by (simp add: peering_start_def told_step)
  from peering_run.further [OF this peering_step.connect, of 0 True]
  have run0: "?run [Tried 0, Looked demo_pool] (?at ?x0 0 False)"
    by (simp add: after_arm_def connected_def write_then_def)
  have e: "enabled ?x0 (demo_events ! 0)" "enabled ?x1 (demo_events ! 1)" "enabled ?x2 (demo_events ! 2)"
    "health_sets [demo_events ! 0] = []" "health_sets [demo_events ! 1] = []" "health_sets [demo_events ! 2] = []"
    by (simp_all add: demo_events_def enabled_def health_sets_def map_filter_def established_def new_session_def)
  have t: "at_time (demo_events ! 0) = 0" "at_time (demo_events ! 1) = 1" "at_time (demo_events ! 2) = 2"
    by (simp_all add: demo_events_def)
  have s: "session_step demo_session ?x0 (demo_events ! 0) = ([keepalive_msg], Inr ?x1)"
    "session_step demo_session ?x1 (demo_events ! 1) = ([], Inr ?x2)"
    "session_step demo_session ?x2 (demo_events ! 2) =
       ([update_announce 64512 (Ipv4 192 168 8 51) (bgp_vip demo_session) 32], Inr ?x3)"
    by (simp_all add: session_step_def demo_events_def on_message_def on_open_sent_def check_open_body new_session_def
        on_open_confirm_def on_health_seen_def write_then_def demo_session_def HOLD_TIME_def tick_period_def min_def)
  from peering_run.further [OF run0 peering_step.arm [OF _ e(1,4)]]
  have run1: "?run [Talked, Tried 0, Looked demo_pool] (?at ?x1 0 False)"
    by (simp add: after_arm_def s(1) t)
  from peering_run.further [OF run1 peering_step.arm [OF _ e(2,5)]] s(2)
  have run2: "?run [Talked, Talked, Tried 0, Looked demo_pool] (?at ?x2 1 False)"
    by (simp add: after_arm_def t [simplified One_nat_def])
  from peering_run.further [OF run2 peering_step.arm [OF _ e(3,6)]] s(3)
  have "?run [Talked, Talked, Talked, Tried 0, Looked demo_pool] (?at ?x3 2 True)"
    by (simp add: after_arm_def t)
  then show ?thesis by (intro exI [of _ ?x3]) (simp add: established_def)
qed

lemma peer_follows_pool_across_sessions_witness:
  "\<exists>x. peering_run demo_session (peering_start 0) [Talked, Talked, Talked, Tried 0, Looked demo_pool]
     \<lparr>g_task = Talking x, g_now = 2, g_health = True, g_route = Some True\<rparr> \<and> announced x"
proof -
  obtain x where run: "peering_run demo_session (peering_start 0) [Talked, Talked, Talked, Tried 0, Looked demo_pool]
     \<lparr>g_task = Talking x, g_now = 2, g_health = True, g_route = Some True\<rparr>" using demo_peering by blast
  from peer_follows_pool_across_sessions [OF this] have "announced x" by simp
  with run show ?thesis by blast
qed

end
