(* ===== verification/Rust_Text.thy ===== *)
theory Rust_Text
  imports Rust_Strings
begin

text \<open>
  What the HTTP code uses of Rust's text functions, on byte strings: \<open>from_utf8\<close>, \<open>trim\<close> and
  \<open>split_whitespace\<close> with their Unicode white space, \<open>windows(n).position\<close>, \<open>split_inclusive\<close>.
\<close>

abbreviation "CR \<equiv> CHR 0x0D"
abbreviation "LF \<equiv> CHR 0x0A"
abbreviation "SP \<equiv> CHR '' ''"

abbreviation crlf :: string where "crlf \<equiv> [CR, LF]"

subsection \<open>UTF-8\<close>

definition conts :: "nat \<Rightarrow> string \<Rightarrow> bool" where
  "conts k t \<longleftrightarrow> k \<le> length t \<and> list_all (\<lambda>c. 128 \<le> byte c \<and> byte c < 192) (take k t)"

text \<open>The length of the encoded code point a string begins with, zero when there is none.\<close>

definition utf8_len :: "string \<Rightarrow> nat" where
  "utf8_len s =
     (case s of [] \<Rightarrow> 0
      | a # t \<Rightarrow>
          (let n = byte a; m = (case t of [] \<Rightarrow> 0 | b # _ \<Rightarrow> byte b)
           in if n < 128 then 1
              else if n < 194 then 0
              else if n < 224 then (if conts 1 t then 2 else 0)
              else if n < 240 then
                (if conts 2 t \<and> (n = 224 \<longrightarrow> 160 \<le> m) \<and> (n = 237 \<longrightarrow> m < 160) then 3 else 0)
              else if n < 245 then
                (if conts 3 t \<and> (n = 240 \<longrightarrow> 144 \<le> m) \<and> (n = 244 \<longrightarrow> m < 144) then 4 else 0)
              else 0))"

function utf8_ok :: "string \<Rightarrow> bool" where
  "utf8_ok s =
     (if s = [] then True else if utf8_len s = 0 then False else utf8_ok (drop (utf8_len s) s))"
  by pat_completeness auto
termination
  by (relation "measure length") auto

declare utf8_ok.simps [simp del]

lemma utf8_ok_Nil [simp]: "utf8_ok []"
  by (simp add: utf8_ok.simps)

lemma utf8_ok_ascii [simp]: "byte c < 128 \<Longrightarrow> utf8_ok (c # s) \<longleftrightarrow> utf8_ok s"
  by (simp add: utf8_ok.simps [of "c # s"] utf8_len_def)

definition ascii :: "string \<Rightarrow> bool" where
  "ascii s \<longleftrightarrow> list_all (\<lambda>c. byte c < 128) s"

lemma ascii_simps [simp]:
  "ascii []" "ascii (c # s) \<longleftrightarrow> byte c < 128 \<and> ascii s" "ascii (s @ t) \<longleftrightarrow> ascii s \<and> ascii t"
  by (simp_all add: ascii_def)

lemma ascii_utf8_ok: "ascii s \<Longrightarrow> utf8_ok s"
  by (induction s) simp_all

lemma ascii_utf8_append: "ascii s \<Longrightarrow> utf8_ok (s @ t) \<longleftrightarrow> utf8_ok t"
  by (induction s) simp_all

subsection \<open>White space\<close>

text \<open>The length of the white-space character a string begins with, zero when there is none.\<close>

definition ws_len :: "string \<Rightarrow> nat" where
  "ws_len s =
     (case map byte (take 3 s) of
        [] \<Rightarrow> 0
      | a # t \<Rightarrow>
          (if 9 \<le> a \<and> a \<le> 13 \<or> a = 32 then 1
           else if a = 0xC2 \<and> t \<noteq> [] \<and> hd t \<in> {0x85, 0xA0} then 2
           else if a = 0xE1 \<and> t = [0x9A, 0x80]
             \<or> a = 0xE2 \<and> (\<exists>b \<in> set [0x80 ..< 0x8B] \<union> {0xA8, 0xA9, 0xAF}. t = [0x80, b])
             \<or> a = 0xE2 \<and> t = [0x81, 0x9F] \<or> a = 0xE3 \<and> t = [0x80, 0x80] then 3
           else 0))"

definition is_ws :: "char \<Rightarrow> bool" where
  "is_ws c \<longleftrightarrow> 9 \<le> byte c \<and> byte c \<le> 13 \<or> byte c = 32"

lemma ws_len_ascii: "byte c < 128 \<Longrightarrow> ws_len (c # s) = (if is_ws c then 1 else 0)"
  by (auto simp: ws_len_def is_ws_def)

lemma ws_len_Nil [simp]: "ws_len [] = 0"
  by (simp add: ws_len_def)

lemma ws_len_le: "ws_len s \<le> length s"
proof (cases s)
  case (Cons a t)
  then show ?thesis
    by (cases t; cases "tl t") (auto simp: ws_len_def)
qed simp

function trim_start :: "string \<Rightarrow> string" where
  "trim_start s = (if ws_len s = 0 then s else trim_start (drop (ws_len s) s))"
  by pat_completeness auto
termination
proof (relation "measure length", simp)
  fix s
  assume "ws_len s \<noteq> 0"
  then show "(drop (ws_len s) s, s) \<in> measure length"
    by (cases s) simp_all
qed

declare trim_start.simps [simp del]

text \<open>The same at the end of a string.\<close>

definition ws_back :: "string \<Rightarrow> nat" where
  "ws_back s =
     (let last_is = (\<lambda>k. k \<le> length s \<and> ws_len (drop (length s - k) s) = k)
      in if last_is 1 then 1 else if last_is 2 then 2 else if last_is 3 then 3 else 0)"

function trim_end :: "string \<Rightarrow> string" where
  "trim_end s = (if ws_back s = 0 then s else trim_end (take (length s - ws_back s) s))"
  by pat_completeness auto
termination
  by (relation "measure length") (auto simp: ws_back_def Let_def split: if_splits)

declare trim_end.simps [simp del]

definition trim :: "string \<Rightarrow> string" where
  "trim s = trim_end (trim_start s)"

fun word_len :: "string \<Rightarrow> nat" where
  "word_len [] = 0"
| "word_len (c # s) = (if ws_len (c # s) \<noteq> 0 then 0 else Suc (word_len s))"

lemma trim_start_length: "length (trim_start s) \<le> length s"
proof (induction s rule: trim_start.induct)
  case (1 s)
  then show ?case by (cases "ws_len s = 0") (auto simp: trim_start.simps [of s])
qed

lemma trim_start_no_ws: "ws_len (trim_start s) = 0"
proof (induction s rule: trim_start.induct)
  case (1 s)
  then show ?case by (cases "ws_len s = 0") (auto simp: trim_start.simps [of s])
qed

lemma word_len_pos: "s \<noteq> [] \<Longrightarrow> ws_len s = 0 \<Longrightarrow> 0 < word_len s"
  by (cases s) auto

function split_whitespace :: "string \<Rightarrow> string list" where
  "split_whitespace s =
     (let t = trim_start s; n = word_len t
      in if t = [] then [] else take n t # split_whitespace (drop n t))"
  by pat_completeness auto
termination
proof (relation "measure length", simp)
  fix s t n
  assume t: "t = trim_start s" and n: "n = word_len t" and "\<not> t = []"
  then have "0 < n"
    using word_len_pos trim_start_no_ws by auto
  moreover have "0 < length t" and "length t \<le> length s"
    using t \<open>\<not> t = []\<close> trim_start_length [of s] by auto
  ultimately have "length t - n < length s"
    using \<open>0 < n\<close> by linarith
  then show "(drop n t, s) \<in> measure length"
    by simp
qed

declare split_whitespace.simps [simp del]

text \<open>Plain ASCII text is trimmed of its blanks only.\<close>

lemma trim_start_word: "s = [] \<or> byte (hd s) < 128 \<and> \<not> is_ws (hd s) \<Longrightarrow> trim_start s = s"
  by (cases s) (auto simp: trim_start.simps [of "[]"] trim_start.simps [of "_ # _"] ws_len_ascii)

lemma trim_start_ws [simp]: "is_ws c \<Longrightarrow> trim_start (c # s) = trim_start s"
proof -
  assume c: "is_ws c"
  then have "byte c < 128" by (auto simp: is_ws_def)
  then show ?thesis using c by (simp add: trim_start.simps [of "c # s"] ws_len_ascii)
qed


lemma ws_back_snoc:
  assumes "byte c < 128"
  shows "ws_back (s @ [c]) = (if is_ws c then 1 else 0)"
proof -
  have "ws_len (drop (length (s @ [c]) - k) (s @ [c])) \<noteq> k"
    if k: "k = 2 \<or> k = 3" "k \<le> length (s @ [c])" for k
  proof
    define u where "u = drop (length (s @ [c]) - k) (s @ [c])"
    assume "ws_len (drop (length (s @ [c]) - k) (s @ [c])) = k"
    then have len: "ws_len u = k" by (simp add: u_def)
    have "length u = k" and "last u = c"
      using k by (auto simp: u_def)
    then consider a where "u = [a, c]" "k = 2" | a b where "u = [a, b, c]" "k = 3"
      using k(1) by (auto simp: length_Suc_conv numeral_2_eq_2 numeral_3_eq_3)
    then show False
      using len assms by cases (auto simp: ws_len_def split: if_splits)
  qed
  from this [of 2] this [of 3]
  have "\<not> (2 \<le> length (s @ [c]) \<and> ws_len (drop (length (s @ [c]) - 2) (s @ [c])) = 2)"
    and "\<not> (3 \<le> length (s @ [c]) \<and> ws_len (drop (length (s @ [c]) - 3) (s @ [c])) = 3)"
    by blast+
  moreover have "ws_len (drop (length (s @ [c]) - 1) (s @ [c])) = (if is_ws c then 1 else 0)"
    using assms by (simp add: ws_len_ascii)
  moreover have "1 \<le> length (s @ [c])" by simp
  ultimately show ?thesis
    unfolding ws_back_def Let_def by (simp only: if_False) presburger
qed

lemma trim_end_ws [simp]: "is_ws c \<Longrightarrow> trim_end (s @ [c]) = trim_end s"
proof -
  assume c: "is_ws c"
  then have "byte c < 128" by (auto simp: is_ws_def)
  then show ?thesis using c by (simp add: trim_end.simps [of "s @ [c]"] ws_back_snoc)
qed

lemma trim_end_word: "s = [] \<or> byte (last s) < 128 \<and> \<not> is_ws (last s) \<Longrightarrow> trim_end s = s"
proof (cases s rule: rev_cases)
  case Nil
  then show ?thesis by (simp add: trim_end.simps ws_back_def)
next
  case (snoc t c)
  assume "s = [] \<or> byte (last s) < 128 \<and> \<not> is_ws (last s)"
  then show ?thesis using snoc by (simp add: trim_end.simps [of "t @ [c]"] ws_back_snoc)
qed

text \<open>A word: what trimming leaves alone.\<close>

definition bare :: "string \<Rightarrow> bool" where
  "bare s \<longleftrightarrow> s \<noteq> [] \<and> byte (hd s) < 128 \<and> \<not> is_ws (hd s) \<and> byte (last s) < 128 \<and> \<not> is_ws (last s)"

lemma trim_bare [simp]: "bare s \<Longrightarrow> trim s = s"
  by (simp add: bare_def trim_def trim_start_word trim_end_word)

lemma trim_bare_blanks [simp]:
  "bare s \<Longrightarrow> is_ws c \<Longrightarrow> trim (c # s) = s" "bare s \<Longrightarrow> is_ws c \<Longrightarrow> trim (s @ [c]) = s"
proof -
  assume s: "bare s" and c: "is_ws c"
  then show "trim (c # s) = s"
    using trim_bare [OF s] by (simp add: trim_def)
  have "trim_start (s @ [c]) = s @ [c]"
    using s by (intro trim_start_word) (cases s, auto simp: bare_def)
  then show "trim (s @ [c]) = s"
    using s c by (simp add: trim_def) (simp add: bare_def trim_end_word)
qed

lemma is_ws_simps [simp]: "is_ws SP" "is_ws CR" "is_ws LF"
  by (simp_all add: is_ws_def byte_def)

lemma trim_Nil [simp]: "trim [] = []"
  by (simp add: trim_def trim_start_word trim_end_word)

lemma trim_cr [simp]: "trim [CR] = []"
  by (simp add: trim_def trim_start_word trim_end_word)

subsection \<open>Words\<close>

definition word :: "string \<Rightarrow> bool" where
  "word s \<longleftrightarrow> s \<noteq> [] \<and> ascii s \<and> list_all (\<lambda>c. \<not> is_ws c) s"

lemma word_bare: "word s \<Longrightarrow> bare s"
  by (cases s) (auto simp: word_def bare_def list_all_iff ascii_def)

lemma word_len_word:
  "list_all (\<lambda>c. byte c < 128 \<and> \<not> is_ws c) s \<Longrightarrow> word_len (s @ t) = length s + word_len t"
  by (induction s) (auto simp: ws_len_ascii)

lemma split_whitespace_word:
  assumes "word s" and "t = [] \<or> is_ws (hd t)"
  shows "split_whitespace (s @ t) = s # split_whitespace t"
proof -
  have "trim_start (s @ t) = s @ t"
    using assms(1) by (intro trim_start_word) (cases s, auto simp: word_def)
  moreover have "word_len t = 0"
    using assms(2) by (cases t) (auto simp: ws_len_ascii is_ws_def)
  then have "word_len (s @ t) = length s"
    using assms(1) word_len_word [of s t] by (auto simp: word_def ascii_def list_all_iff)
  ultimately show ?thesis
    using assms(1) by (simp add: split_whitespace.simps [of "s @ t"] word_def)
qed

lemma split_whitespace_ws [simp]: "is_ws c \<Longrightarrow> split_whitespace (c # s) = split_whitespace s"
  by (simp add: split_whitespace.simps [of "c # s"] split_whitespace.simps [of s])

lemma split_whitespace_Nil [simp]: "split_whitespace [] = []"
  by (simp add: split_whitespace.simps [of "[]"] trim_start_word)

subsection \<open>Searching and splitting bytes\<close>

text \<open>\<open>b.windows(n).position(|w| w == p)\<close>, for \<open>p\<close> of length \<open>n\<close>.\<close>

fun window :: "'a list \<Rightarrow> 'a list \<Rightarrow> nat option" where
  "window p [] = (if p = [] then Some 0 else None)"
| "window p (x # xs) = (if take (length p) (x # xs) = p then Some 0 else map_option Suc (window p xs))"

lemma window_bound: "window p xs = Some i \<Longrightarrow> i + length p \<le> length xs \<and> take (length p) (drop i xs) = p"
proof (induction xs arbitrary: i)
  case (Cons x xs)
  then show ?case
    by (auto split: if_splits simp del: take_Suc_Cons)
       (metis length_take min.absorb_iff2 length_Cons)
qed (auto split: if_splits)

lemma window_append: "window p xs = Some i \<Longrightarrow> window p (xs @ ys) = Some i"
proof (induction xs arbitrary: i)
  case (Cons x xs)
  have "length p \<le> length (x # xs)"
    using window_bound [OF Cons.prems] by simp
  then have same: "take (length p) (x # xs @ ys) = take (length p) (x # xs)"
    by (metis append_Cons take_append append_Nil2 diff_is_0_eq take_0)
  show ?case
  proof (cases "take (length p) (x # xs) = p")
    case True
    then show ?thesis using same Cons.prems by simp
  next
    case False
    with Cons.prems obtain j where "window p xs = Some j" "i = Suc j" by auto
    then show ?thesis using False same Cons.IH by simp
  qed
next
  case Nil
  then show ?case by (cases ys) (auto split: if_splits)
qed

text \<open>\<open>b.split_inclusive(c)\<close>.\<close>

fun split_incl :: "'a \<Rightarrow> 'a list \<Rightarrow> 'a list list" where
  "split_incl c [] = []"
| "split_incl c (x # xs) =
     (if x = c then [x] # split_incl c xs
      else (case split_incl c xs of [] \<Rightarrow> [[x]] | p # ps \<Rightarrow> (x # p) # ps))"

lemma concat_split_incl [simp]: "concat (split_incl c xs) = xs"
proof (induction xs)
  case (Cons x xs)
  then show ?case by (cases "split_incl c xs") auto
qed simp

lemma split_incl_line: "c \<notin> set xs \<Longrightarrow> split_incl c (xs @ c # ys) = (xs @ [c]) # split_incl c ys"
  by (induction xs) auto

subsection \<open>Streams\<close>

text \<open>An answer of \<open>read\<close>: bytes, none of them at the end of the stream, or an error; and what a list of
  answers holds up to there.\<close>

datatype read = Read string | ReadError string

fun stream :: "read list \<Rightarrow> string" where
  "stream [] = []"
| "stream (ReadError _ # _) = []"
| "stream (Read c # cs) = (if c = [] then [] else c @ stream cs)"

fun breaks :: "read list \<Rightarrow> bool" where
  "breaks [] = False"
| "breaks (ReadError _ # _) = True"
| "breaks (Read c # cs) = (if c = [] then False else breaks cs)"

lemma stream_chunks [simp]: "[] \<notin> set cs \<Longrightarrow> stream (map Read cs) = concat cs"
  by (induction cs) auto

end
