(* ===== verification/Router_Http.thy ===== *)
theory Router_Http
  imports Rust_Text
begin

text \<open>
  \<open>src/router.rs\<close>, the functions on request and response heads: where a head ends, its Host, its path
  and target, the head that goes on with \<open>X-Forwarded-Proto\<close>, and a response's status code.
\<close>

subsection \<open>The functions\<close>

definition find_head_end :: "string \<Rightarrow> nat option" where
  "find_head_end buf = map_option (\<lambda>p. p + 4) (window (crlf @ crlf) buf)"

definition strip_port :: "string \<Rightarrow> string" where
  "strip_port v =
     (case rsplit_once (CHR '':'') v of
        None \<Rightarrow> v
      | Some (h, p) \<Rightarrow> if list_all is_digit p then h else v)"

fun host_lines :: "string list \<Rightarrow> string option" where
  "host_lines [] = None"
| "host_lines (l # ls) =
     (if \<not> utf8_ok l then None
      else (let t = trim l
            in if t = [] then None
               else (case split_once (CHR '':'') t of
                       None \<Rightarrow> host_lines ls
                     | Some (k, v) \<Rightarrow>
                         (if eq_ignore_case (trim k) ''host'' then Some (strip_port (to_lower (trim v)))
                          else host_lines ls))))"

definition host_of :: "string \<Rightarrow> string option" where
  "host_of head = host_lines (tl (split_on LF head))"

definition first_line :: "string \<Rightarrow> string" where
  "first_line head = hd (split_on LF head)"

definition request_path :: "string \<Rightarrow> string option" where
  "request_path head =
     (if \<not> utf8_ok (first_line head) then None
      else (case split_whitespace (first_line head) of
              _ # path # _ \<Rightarrow> Some (hd (split_on (CHR ''?'') path))
            | _ \<Rightarrow> None))"

definition request_target :: "string \<Rightarrow> string option" where
  "request_target head =
     (if \<not> utf8_ok (first_line head) then None
      else (case split_whitespace (first_line head) of
              _ # t # _ \<Rightarrow> (if take 1 t = ''/'' then Some t else None)
            | _ \<Rightarrow> None))"

text \<open>A slice of a \<open>str\<close> that would cut a code point is \<open>None\<close>; three digits never do.\<close>

definition status_code :: "string \<Rightarrow> string option" where
  "status_code b =
     (if length b < 12 \<or> \<not> utf8_ok (take 12 b) then None
      else (case strip_prefix ''HTTP/1.'' (take 12 b) of
              None \<Rightarrow> None
            | Some s \<Rightarrow> (let code = take 3 (drop 2 s) in if list_all is_digit code then Some code else None)))"

definition forwarded_proto :: string where
  "forwarded_proto = ''X-Forwarded-Proto: https'' @ crlf"

definition claims_proto :: "string \<Rightarrow> bool" where
  "claims_proto l \<longleftrightarrow> eq_ignore_case (hd (split_on (CHR '':'') l)) ''x-forwarded-proto''"

definition forwarded_https :: "string \<Rightarrow> nat \<Rightarrow> string" where
  "forwarded_https head e =
     (case split_incl LF (take e head) of
        [] \<Rightarrow> forwarded_proto
      | l # ls \<Rightarrow> l @ forwarded_proto @ concat (filter (\<lambda>l. \<not> claims_proto l) ls))
     @ drop e head"

subsection \<open>Well-formed heads\<close>

text \<open>A head as RFC 9112 writes it: a request line, fields, an empty line.\<close>

definition request_line :: "string \<Rightarrow> string \<Rightarrow> string" where
  "request_line meth target = meth @ SP # target @ '' HTTP/1.1'' @ crlf"

definition field :: "string \<times> string \<Rightarrow> string" where
  "field f = fst f @ '': '' @ snd f @ crlf"

definition http_head :: "string \<Rightarrow> string \<Rightarrow> (string \<times> string) list \<Rightarrow> string" where
  "http_head meth target fs = request_line meth target @ concat (map field fs) @ crlf"

definition field_ok :: "string \<times> string \<Rightarrow> bool" where
  "field_ok f \<longleftrightarrow> word (fst f) \<and> CHR '':'' \<notin> set (fst f)
     \<and> bare (snd f) \<and> ascii (snd f) \<and> LF \<notin> set (snd f)"

definition head_ok :: "string \<Rightarrow> string \<Rightarrow> (string \<times> string) list \<Rightarrow> bool" where
  "head_ok meth target fs \<longleftrightarrow> word meth \<and> word target \<and> list_all field_ok fs"

definition named :: "string \<Rightarrow> string \<times> string \<Rightarrow> bool" where
  "named name f \<longleftrightarrow> eq_ignore_case (fst f) name"

lemma word_no_blank: "word s \<Longrightarrow> is_ws c \<Longrightarrow> c \<notin> set s"
  by (auto simp: word_def list_all_iff)

lemma word_plain:
  assumes "word s"
  shows "s \<noteq> []" "LF \<notin> set s" "CR \<notin> set s" "SP \<notin> set s" "ascii s"
  using assms by (auto simp: word_no_blank) (simp_all add: word_def)

lemma field_okD:
  assumes "field_ok f"
  shows "fst f \<noteq> []" "LF \<notin> set (fst f)" "CR \<notin> set (fst f)" "CHR '':'' \<notin> set (fst f)"
    "LF \<notin> set (snd f)" "bare (snd f)" "ascii (fst f)" "ascii (snd f)" "word (fst f)"
  using assms word_plain [of "fst f"] by (auto simp: field_ok_def)

subsection \<open>Where a head ends\<close>

lemma crlf_line:
  assumes "LF \<notin> set l" and "r = [] \<or> hd r \<noteq> CR"
  shows "window (crlf @ crlf) (l @ LF # r) = map_option (\<lambda>i. i + length l + 1) (window (crlf @ crlf) r)"
  using assms(1)
proof (induction l)
  case Nil
  then show ?case by (simp add: option.map_ident)
next
  case (Cons x l)
  have "take 4 (x # l @ LF # r) \<noteq> crlf @ crlf"
    using assms(2) Cons.prems by (cases l; cases r) (auto simp: numeral_eq_Suc)
  then show ?case
    using Cons by (auto simp: option.map_comp comp_def numeral_eq_Suc)
qed

lemma crlf_end:
  assumes "LF \<notin> set l"
  shows "window (crlf @ crlf) (l @ crlf @ crlf @ r) = Some (length l)"
  using assms
proof (induction l)
  case (Cons x l)
  have "take 4 (x # l @ crlf @ crlf @ r) \<noteq> crlf @ crlf"
    using Cons.prems by (cases l) (auto simp: numeral_eq_Suc)
  then show ?case
    using Cons by (simp add: numeral_eq_Suc)
qed simp

lemma fields_end:
  assumes "LF \<notin> set l" and "list_all field_ok fs"
  shows "window (crlf @ crlf) (l @ crlf @ concat (map field fs) @ crlf @ r) =
     Some (length (l @ concat (map field fs)))"
  using assms
proof (induction fs arbitrary: l)
  case Nil
  then show ?case using crlf_end [of l r] by simp
next
  case (Cons f fs)
  let ?l = "fst f @ '': '' @ snd f" and ?r = "concat (map field fs) @ crlf @ r"
  have f: "field_ok f" and fs: "list_all field_ok fs" using Cons.prems by simp_all
  have l: "LF \<notin> set ?l" using field_okD [OF f] by simp
  obtain c n where n: "fst f = c # n" and c: "c \<noteq> CR"
    using field_okD(1,3) [OF f] by (cases "fst f") auto
  have "window (crlf @ crlf) ((l @ [CR]) @ LF # (?l @ crlf @ ?r)) =
      map_option (\<lambda>i. i + length (l @ [CR]) + 1) (window (crlf @ crlf) (?l @ crlf @ ?r))"
    by (rule crlf_line) (use Cons.prems n c in simp_all)
  then show ?case
    using Cons.IH [OF l fs] by (simp add: field_def [of f])
qed

lemma find_http_head:
  assumes "head_ok meth target fs"
  shows "find_head_end (http_head meth target fs @ rest) = Some (length (http_head meth target fs))"
proof -
  have "LF \<notin> set (meth @ SP # target @ '' HTTP/1.1'')"
    using assms word_plain by (auto simp: head_ok_def)
  from fields_end [OF this, of fs rest] assms show ?thesis
    by (simp add: find_head_end_def http_head_def request_line_def head_ok_def)
qed

subsection \<open>What the router reads off a head\<close>

lemma split_on_concat_fields:
  assumes "list_all field_ok fs"
  shows "split_on LF (concat (map field fs) @ crlf) = map (\<lambda>f. fst f @ '': '' @ snd f @ [CR]) fs @ [[CR], []]"
  using assms
proof (induction fs)
  case (Cons f fs)
  have "split_on LF ((fst f @ '': '' @ snd f @ [CR]) @ LF # (concat (map field fs) @ crlf)) =
      (fst f @ '': '' @ snd f @ [CR]) # split_on LF (concat (map field fs) @ crlf)"
    by (rule split_on_sep) (use Cons.prems field_okD in auto)
  then show ?case using Cons by (simp add: field_def [of f])
qed simp

lemma lines_http_head:
  assumes "head_ok meth target fs"
  shows "split_on LF (http_head meth target fs) =
    (meth @ SP # target @ '' HTTP/1.1'' @ [CR]) # map (\<lambda>f. fst f @ '': '' @ snd f @ [CR]) fs @ [[CR], []]"
proof -
  have "LF \<notin> set (meth @ SP # target @ '' HTTP/1.1'' @ [CR])"
    using assms word_plain by (auto simp: head_ok_def)
  from split_on_sep [OF this, of "concat (map field fs) @ crlf"] show ?thesis
    using assms by (simp add: http_head_def request_line_def split_on_concat_fields head_ok_def)
qed

lemma trim_field:
  assumes "field_ok f"
  shows "trim (fst f @ '': '' @ snd f @ [CR]) = fst f @ '': '' @ snd f"
proof -
  have "bare (fst f @ '': '' @ snd f)"
    using word_bare [OF field_okD(9) [OF assms]] field_okD(6) [OF assms] field_okD(1) [OF assms]
    by (auto simp: bare_def)
  from trim_bare_blanks(2) [OF this, of CR] show ?thesis by simp
qed

lemma split_field:
  assumes "field_ok f"
  shows "split_once (CHR '':'') (fst f @ '': '' @ snd f) = Some (fst f, SP # snd f)"
  using field_okD(4) [OF assms] by (simp add: split_once_Some)

lemma utf8_field: "field_ok f \<Longrightarrow> utf8_ok (fst f @ '': '' @ snd f @ [CR])"
  by (intro ascii_utf8_ok) (auto simp: field_okD byte_def)

lemma host_lines_fields:
  assumes "list_all field_ok fs"
  shows "host_lines (map (\<lambda>f. fst f @ '': '' @ snd f @ [CR]) fs @ [[CR], []]) =
    map_option (\<lambda>f. strip_port (to_lower (snd f))) (List.find (named ''host'') fs)"
  using assms
proof (induction fs)
  case Nil
  then show ?case by (simp add: byte_def)
next
  case (Cons f fs)
  then have f: "field_ok f" by simp
  have "trim (fst f) = fst f" and "trim (SP # snd f) = snd f"
    using trim_bare [OF word_bare [OF field_okD(9) [OF f]]] trim_bare_blanks(1) [OF field_okD(6) [OF f], of SP]
    by simp_all
  then show ?case
    using Cons f trim_field [OF f] split_field [OF f] utf8_field [OF f]
    by (simp add: Let_def named_def)
qed

lemma host_of_http_head:
  "head_ok meth target fs \<Longrightarrow> host_of (http_head meth target fs) =
     map_option (\<lambda>f. strip_port (to_lower (snd f))) (List.find (named ''host'') fs)"
  using host_lines_fields [of fs] by (simp add: host_of_def lines_http_head head_ok_def)

lemma words_request_line:
  assumes "word meth" and "word target"
  shows "split_whitespace (meth @ SP # target @ '' HTTP/1.1'' @ [CR]) = [meth, target, ''HTTP/1.1'']"
proof -
  have "split_whitespace (meth @ SP # target @ '' HTTP/1.1'' @ [CR]) =
      meth # split_whitespace (target @ '' HTTP/1.1'' @ [CR])"
    using split_whitespace_word [OF assms(1), of "SP # target @ '' HTTP/1.1'' @ [CR]"] by simp
  also have "split_whitespace (target @ '' HTTP/1.1'' @ [CR]) = target # split_whitespace (''HTTP/1.1'' @ [CR])"
    using split_whitespace_word [OF assms(2), of "'' HTTP/1.1'' @ [CR]"] by simp
  also have "split_whitespace (''HTTP/1.1'' @ [CR]) = [''HTTP/1.1'']"
    by (subst split_whitespace_word) (simp_all add: word_def byte_def is_ws_def)
  finally show ?thesis .
qed

lemma request_line_of:
  assumes "head_ok meth target fs"
  shows "request_path (http_head meth target fs) = Some (hd (split_on (CHR ''?'') target))"
    and "request_target (http_head meth target fs) = (if take 1 target = ''/'' then Some target else None)"
proof -
  have line: "first_line (http_head meth target fs) = meth @ SP # target @ '' HTTP/1.1'' @ [CR]"
    by (simp add: first_line_def lines_http_head [OF assms])
  have "utf8_ok (meth @ SP # target @ '' HTTP/1.1'' @ [CR])"
    using assms word_plain(5) by (intro ascii_utf8_ok) (simp add: head_ok_def byte_def)
  moreover note words_request_line [of meth target]
  ultimately show "request_path (http_head meth target fs) = Some (hd (split_on (CHR ''?'') target))"
    and "request_target (http_head meth target fs) = (if take 1 target = ''/'' then Some target else None)"
    using assms by (simp_all add: request_path_def request_target_def line head_ok_def)
qed

subsection \<open>The head that goes on over TLS\<close>

lemma split_incl_fields:
  assumes "list_all field_ok fs"
  shows "split_incl LF (concat (map field fs) @ crlf) = map field fs @ [crlf]"
  using assms
proof (induction fs)
  case (Cons f fs)
  have "split_incl LF ((fst f @ '': '' @ snd f @ [CR]) @ LF # (concat (map field fs) @ crlf)) =
      ((fst f @ '': '' @ snd f @ [CR]) @ [LF]) # split_incl LF (concat (map field fs) @ crlf)"
    by (rule split_incl_line) (use Cons.prems field_okD in auto)
  then show ?case using Cons by (simp add: field_def [of f])
qed simp

lemma claims_field: "field_ok f \<Longrightarrow> claims_proto (field f) \<longleftrightarrow> named ''x-forwarded-proto'' f"
  using split_on_sep [of "CHR '':''" "fst f" "SP # snd f @ crlf"]
  by (simp add: claims_proto_def named_def field_def field_okD)

lemma claims_crlf [simp]: "\<not> claims_proto crlf"
  by (simp add: claims_proto_def eq_ignore_case_def to_lower_def)

lemma filter_fields:
  "list_all field_ok fs \<Longrightarrow> filter (\<lambda>l. \<not> claims_proto l) (map field fs) =
     map field (filter (\<lambda>f. \<not> named ''x-forwarded-proto'' f) fs)"
  by (induction fs) (simp_all add: claims_field)

lemma forwarded_http_head:
  assumes "head_ok meth target fs"
  shows "forwarded_https (http_head meth target fs @ rest) (length (http_head meth target fs)) =
    http_head meth target
      ((''X-Forwarded-Proto'', ''https'') # filter (\<lambda>f. \<not> named ''x-forwarded-proto'' f) fs) @ rest"
proof -
  have fs: "list_all field_ok fs" and "LF \<notin> set (meth @ SP # target @ '' HTTP/1.1'' @ [CR])"
    using assms word_plain by (auto simp: head_ok_def)
  from split_incl_line [OF this(2), of "concat (map field fs) @ crlf"]
  have "split_incl LF (http_head meth target fs) = request_line meth target # map field fs @ [crlf]"
    by (simp add: http_head_def request_line_def split_incl_fields [OF fs])
  then show ?thesis
    by (simp add: forwarded_https_def filter_fields [OF fs])
       (simp add: http_head_def forwarded_proto_def field_def)
qed

text \<open>The router reads a well-formed head as it was meant: the head of any request line and fields,
  followed by any bytes, ends where it ends; its path is the target up to the query, its Host the first
  Host field's value, lowercased and without a port; and the head that goes on from a TLS client is the
  same request with one \<open>X-Forwarded-Proto: https\<close> in place of every such field the client sent.\<close>

theorem request_head_is_read:
  assumes "head_ok meth target fs"
  shows "find_head_end (http_head meth target fs @ rest) = Some (length (http_head meth target fs))
    \<and> request_path (http_head meth target fs) = Some (hd (split_on (CHR ''?'') target))
    \<and> host_of (http_head meth target fs) =
        map_option (\<lambda>f. strip_port (to_lower (snd f))) (List.find (named ''host'') fs)
    \<and> forwarded_https (http_head meth target fs @ rest) (length (http_head meth target fs)) =
        http_head meth target
          ((''X-Forwarded-Proto'', ''https'') # filter (\<lambda>f. \<not> named ''x-forwarded-proto'' f) fs) @ rest"
  using assms by (simp add: find_http_head request_line_of host_of_http_head forwarded_http_head)

lemma request_head_is_read_witness:
  "host_of (http_head ''GET'' ''/a?b=1'' [(''HOST'', ''Console.Storm1.lo:80'')]) = Some ''console.storm1.lo''"
proof -
  have ok: "head_ok ''GET'' ''/a?b=1'' [(''HOST'', ''Console.Storm1.lo:80'')]"
    by (simp add: head_ok_def field_ok_def word_def bare_def is_ws_def byte_def)
  have "strip_port (to_lower ''Console.Storm1.lo:80'') = ''console.storm1.lo''"
    by code_simp
  moreover have "named ''host'' (''HOST'', ''Console.Storm1.lo:80'')"
    by code_simp
  ultimately show ?thesis
    using request_head_is_read [OF ok, of "[]"] by simp
qed

text \<open>The drop of the client's claim is by exact name: a field whose name has a space before its
  colon, which the router's own Host reading takes for the field, goes on to the backend.\<close>

theorem spaced_claim_goes_on:
  "\<exists>head e. find_head_end head = Some e \<and> e = length head
     \<and> host_of head = Some ''a''
     \<and> window ''X-Forwarded-Proto : http'' (forwarded_https head e) \<noteq> None"
proof -
  let ?head = "''GET / HTTP/1.1''"
  let ?h = "?head @ crlf @ ''Host : a'' @ crlf @ ''X-Forwarded-Proto : http'' @ crlf @ crlf"
  have "find_head_end ?h = Some (length ?h)"
    and "host_of ?h = Some ''a''"
    and "window ''X-Forwarded-Proto : http'' (forwarded_https ?h (length ?h)) \<noteq> None"
    by code_simp+
  then show ?thesis by blast
qed

end
