(* ===== verification/Tls_Certs.thy ===== *)
theory Tls_Certs
  imports Config Metrics Health
begin

text \<open>
  \<open>src/tls.rs\<close>: the certificate/key pairs the router terminates TLS with, read again when their files
  change, and the pair a handshake gets by its server name.

  PEM reading, keys and certificate checks are rustls' and webpki's, parameters here: \<open>tls_files\<close> is
  what the files hold at a time, \<open>tls_lib\<close> what the libraries answer on contents.
\<close>

subsection \<open>What is outside\<close>

type_synonym chain_key = "bytes list \<times> bytes"

record tls_files =
  mtime :: "string \<Rightarrow> nat option"
  pem_certs :: "string \<Rightarrow> (string, (string, bytes) result list) result"
  pem_key :: "string \<Rightarrow> (string, bytes) result"

record tls_lib =
  supported_key :: "bytes \<Rightarrow> (string, unit) result"
  keys_match :: "chain_key \<Rightarrow> (string, unit) result"
  end_entity :: "bytes \<Rightarrow> (string, unit) result"
  server_name :: "string \<Rightarrow> string option"
  valid_for :: "bytes \<Rightarrow> string \<Rightarrow> bool"

subsection \<open>The pairs and their operations\<close>

record loaded_pair =
  leaf :: bytes
  pair_key :: chain_key
  stamp :: "nat option \<times> nat option"

record certs =
  pairs :: "cert_pair list"
  loaded :: "loaded_pair option list"
  load_errors :: "string option list"

text \<open>\<open>collect::<Result<_, _>>\<close>: the first error, or all items.\<close>

fun collect_results :: "('e, 'a) result list \<Rightarrow> ('e, 'a list) result" where
  "collect_results [] = Inr []"
| "collect_results (r # rs) = rbind r (\<lambda>a. rbind (collect_results rs) (\<lambda>as. Inr (a # as)))"

definition load_pair :: "tls_lib \<Rightarrow> tls_files \<Rightarrow> cert_pair \<Rightarrow> (string, bytes \<times> chain_key) result" where
  "load_pair lib fs p =
     (let cf = cert_file p; kf = key_file p
      in rbind (map_err (\<lambda>e. ''reading '' @ cf @ '': '' @ e) (pem_certs fs cf)) (\<lambda>items.
         rbind (map_err (\<lambda>e. ''parsing '' @ cf @ '': '' @ e) (collect_results items)) (\<lambda>chain.
         rbind (case chain of [] \<Rightarrow> Inl (cf @ '': no certificate in it'') | c # _ \<Rightarrow> Inr c) (\<lambda>lf.
         rbind (map_err (\<lambda>e. ''reading the key '' @ kf @ '': '' @ e) (pem_key fs kf)) (\<lambda>key.
         rbind (map_err (\<lambda>e. kf @ '': '' @ e) (supported_key lib key)) (\<lambda>_.
         rbind (map_err (\<lambda>e. kf @ '' does not belong to '' @ cf @ '': '' @ e) (keys_match lib (chain, key))) (\<lambda>_.
         rbind (map_err (\<lambda>e. cf @ '': '' @ e) (end_entity lib lf)) (\<lambda>_.
         Inr (lf, (chain, key))))))))))"

definition stamp_of :: "tls_files \<Rightarrow> cert_pair \<Rightarrow> nat option \<times> nat option" where
  "stamp_of fs p = (mtime fs (cert_file p), mtime fs (key_file p))"

definition count :: "certs \<Rightarrow> nat" where
  "count c = length (List.map_filter id (loaded c))"

definition reload_pair :: "tls_lib \<Rightarrow> tls_files \<Rightarrow> certs \<times> metrics \<Rightarrow> nat \<Rightarrow> certs \<times> metrics" where
  "reload_pair lib fs cm i =
     (case cm of (c, m) \<Rightarrow>
        let p = pairs c ! i; now = stamp_of fs p; current = map_option stamp (loaded c ! i)
        in if current = Some now then (c, m)
           else (case load_pair lib fs p of
                   Inr (lf, key) \<Rightarrow>
                     (c\<lparr>loaded := (loaded c)[i := Some \<lparr>leaf = lf, pair_key = key, stamp = now\<rparr>],
                        load_errors := (load_errors c)[i := None]\<rparr>,
                      inc m ''stormlb_router_tls_reloads_total'' [(''result'', ''ok'')])
                 | Inl msg \<Rightarrow>
                     (if load_errors c ! i \<noteq> Some msg
                      then (c\<lparr>load_errors := (load_errors c)[i := Some msg]\<rparr>,
                            inc m ''stormlb_router_tls_reloads_total'' [(''result'', ''error'')])
                      else (c, m))))"

definition reload :: "tls_lib \<Rightarrow> tls_files \<Rightarrow> certs \<Rightarrow> metrics \<Rightarrow> nat \<times> certs \<times> metrics" where
  "reload lib fs c m =
     (case foldl (reload_pair lib fs) (c, m) [0..<length (pairs c)] of
        (c', m') \<Rightarrow>
          (count c', c',
           gauge_set m' ''stormlb_router_tls_certificates_loaded'' [] (word_of_nat (count c'))))"

definition certs_new :: "tls_lib \<Rightarrow> tls_files \<Rightarrow> cert_pair list \<Rightarrow> metrics \<Rightarrow> certs \<times> metrics" where
  "certs_new lib fs ps m =
     snd (reload lib fs \<lparr>pairs = ps, loaded = replicate (length ps) None,
       load_errors = replicate (length ps) None\<rparr> m)"

definition pick_pair :: "tls_lib \<Rightarrow> certs \<Rightarrow> string option \<Rightarrow> chain_key option" where
  "pick_pair lib c sni =
     (let good = List.map_filter id (loaded c);
          named = (case Option.bind sni (server_name lib) of
                     None \<Rightarrow> None
                   | Some n \<Rightarrow> List.find (\<lambda>l. valid_for lib (leaf l) n) good)
      in map_option pair_key
           (case named of Some l \<Rightarrow> Some l | None \<Rightarrow> (case good of [] \<Rightarrow> None | l # _ \<Rightarrow> Some l)))"

subsection \<open>A reload, pair by pair\<close>

definition certs_ok :: "certs \<Rightarrow> bool" where
  "certs_ok c \<longleftrightarrow> length (loaded c) = length (pairs c) \<and> length (load_errors c) = length (pairs c)"

text \<open>What the slot of a pair holds after a reload.\<close>

definition renewed :: "tls_lib \<Rightarrow> tls_files \<Rightarrow> cert_pair \<Rightarrow> loaded_pair option \<Rightarrow> loaded_pair option" where
  "renewed lib fs p old =
     (if map_option stamp old = Some (stamp_of fs p) then old
      else (case load_pair lib fs p of
              Inr (lf, key) \<Rightarrow> Some \<lparr>leaf = lf, pair_key = key, stamp = stamp_of fs p\<rparr>
            | Inl _ \<Rightarrow> old))"

lemma reload_pair_slot:
  assumes "certs_ok c" and "i < length (pairs c)"
  shows "pairs (fst (reload_pair lib fs (c, m) i)) = pairs c"
    and "loaded (fst (reload_pair lib fs (c, m) i)) = (loaded c)[i := renewed lib fs (pairs c ! i) (loaded c ! i)]"
    and "certs_ok (fst (reload_pair lib fs (c, m) i))"
  using assms
  by (auto simp: reload_pair_def renewed_def certs_ok_def Let_def split: sum.splits prod.splits)

lemma foldl_reload:
  assumes "certs_ok c" and "n \<le> length (pairs c)"
    and "foldl (reload_pair lib fs) (c, m) [0..<n] = (c', m')"
  shows "pairs c' = pairs c \<and> certs_ok c'
    \<and> loaded c' = map (\<lambda>i. if i < n then renewed lib fs (pairs c ! i) (loaded c ! i) else loaded c ! i)
        [0..<length (pairs c)]"
  using assms(2,3)
proof (induction n arbitrary: c' m')
  case 0
  then show ?case
    using assms(1) by (auto simp: certs_ok_def intro: nth_equalityI)
next
  case (Suc n)
  obtain d m1 where d: "foldl (reload_pair lib fs) (c, m) [0..<n] = (d, m1)"
    by (rule prod.exhaust)
  note IH = Suc.IH [OF _ d]
  have c': "c' = fst (reload_pair lib fs (d, m1) n)"
    using Suc.prems(2) d by simp
  have n: "n < length (pairs d)" and ok: "certs_ok d"
    using Suc.prems(1) IH by auto
  show ?case
    using reload_pair_slot [OF ok n, of lib fs m1] IH Suc.prems(1) n
    by (auto simp: c' certs_ok_def intro!: nth_equalityI simp: nth_list_update less_Suc_eq)
qed

lemma loaded_reload:
  assumes "certs_ok c" and "reload lib fs c m = (n, c', m')"
  shows "pairs c' = pairs c" and "certs_ok c'" and "n = count c'"
    and "loaded c' = map2 (renewed lib fs) (pairs c) (loaded c)"
proof -
  obtain d m1 where d: "foldl (reload_pair lib fs) (c, m) [0..<length (pairs c)] = (d, m1)"
    by (rule prod.exhaust)
  then have c': "c' = d" "n = count d"
    using assms(2) by (auto simp: reload_def)
  note foldl_reload [OF assms(1) order_refl d]
  then show "pairs c' = pairs c" "certs_ok c'" "n = count c'"
    "loaded c' = map2 (renewed lib fs) (pairs c) (loaded c)"
    using assms(1) by (auto simp: c' certs_ok_def intro: nth_equalityI)
qed

lemma certs_ok_new: "certs_ok (fst (certs_new lib fs ps m))"
proof -
  let ?c = "\<lparr>pairs = ps, loaded = replicate (length ps) None, load_errors = replicate (length ps) None\<rparr>"
  obtain n c' m' where r: "reload lib fs ?c m = (n, c', m')"
    by (metis prod.exhaust)
  have "certs_ok ?c" by (simp add: certs_ok_def)
  from loaded_reload(2) [OF this r] show ?thesis
    by (simp add: certs_new_def r)
qed

text \<open>A reload keeps the last good version of every pair: a pair whose files have not changed stays, one
  whose files changed and load is replaced by what they hold, one that does not load stays as it was, so
  a reload never loses a certificate; and the count it answers is what is loaded.\<close>

theorem reload_keeps_last_good:
  assumes "certs_ok c" and "reload lib fs c m = (n, c', m')" and "i < length (pairs c)"
  shows "loaded c' ! i =
      (if map_option stamp (loaded c ! i) = Some (stamp_of fs (pairs c ! i)) then loaded c ! i
       else (case load_pair lib fs (pairs c ! i) of
               Inl _ \<Rightarrow> loaded c ! i
             | Inr (lf, key) \<Rightarrow> Some \<lparr>leaf = lf, pair_key = key, stamp = stamp_of fs (pairs c ! i)\<rparr>))
    \<and> (loaded c ! i \<noteq> None \<longrightarrow> loaded c' ! i \<noteq> None) \<and> pairs c' = pairs c \<and> n = count c'"
  using assms loaded_reload [OF assms(1,2)]
  by (auto simp: renewed_def certs_ok_def split: sum.splits)

subsection \<open>Every pair that is served\<close>

text \<open>What \<open>load\<close> has checked of a pair that is loaded.\<close>

definition pair_good :: "tls_lib \<Rightarrow> loaded_pair \<Rightarrow> bool" where
  "pair_good lib l \<longleftrightarrow> fst (pair_key l) \<noteq> [] \<and> leaf l = hd (fst (pair_key l))
     \<and> keys_match lib (pair_key l) = Inr () \<and> supported_key lib (snd (pair_key l)) = Inr ()
     \<and> end_entity lib (leaf l) = Inr ()"

definition good_pairs :: "tls_lib \<Rightarrow> certs \<Rightarrow> bool" where
  "good_pairs lib c \<longleftrightarrow> (\<forall>l. Some l \<in> set (loaded c) \<longrightarrow> pair_good lib l)"

lemma map_err_Inr [simp]: "map_err f r = Inr a \<longleftrightarrow> r = Inr a"
  by (cases r) (simp_all add: map_err_def)

lemma load_pair_good:
  "load_pair lib fs p = Inr (lf, key) \<Longrightarrow> pair_good lib \<lparr>leaf = lf, pair_key = key, stamp = t\<rparr>"
  by (auto simp: load_pair_def pair_good_def rbind_def Let_def split: sum.splits list.splits)

lemma renewed_good:
  "(\<And>l. old = Some l \<Longrightarrow> pair_good lib l) \<Longrightarrow> renewed lib fs p old = Some l \<Longrightarrow> pair_good lib l"
  by (auto simp: renewed_def split: if_splits sum.splits intro: load_pair_good)

lemma reload_good:
  assumes "certs_ok c" and "good_pairs lib c" and "reload lib fs c m = (n, c', m')"
  shows "certs_ok c'" and "good_pairs lib c'"
proof -
  note r = loaded_reload [OF assms(1,3)]
  show "certs_ok c'" by (rule r(2))
  have "pair_good lib l" if "Some l \<in> set (loaded c')" for l
  proof -
    from that obtain p old where "old \<in> set (loaded c)" and "renewed lib fs p old = Some l"
      by (auto simp: r(4) dest: set_zip_rightD)
    then show ?thesis
      using assms(2) renewed_good [of old lib fs p l] by (auto simp: good_pairs_def)
  qed
  then show "good_pairs lib c'" by (simp add: good_pairs_def)
qed

text \<open>The pairs after the start and any number of reloads, each with the files of its time.\<close>

definition certs_after :: "tls_lib \<Rightarrow> cert_pair list \<Rightarrow> tls_files \<Rightarrow> metrics \<Rightarrow> tls_files list \<Rightarrow> certs" where
  "certs_after lib ps fs m fss =
     fst (foldl (\<lambda>(c, m) f. snd (reload lib f c m)) (certs_new lib fs ps m) fss)"

lemma certs_after_good: "certs_ok (certs_after lib ps fs m fss) \<and> good_pairs lib (certs_after lib ps fs m fss)"
proof (induction fss rule: rev_induct)
  case Nil
  let ?c = "\<lparr>pairs = ps, loaded = replicate (length ps) None, load_errors = replicate (length ps) None\<rparr>"
  obtain n c' m' where r: "reload lib fs ?c m = (n, c', m')"
    by (metis prod.exhaust)
  have "certs_ok ?c" "good_pairs lib ?c"
    by (auto simp: certs_ok_def good_pairs_def)
  from reload_good [OF this r] show ?case
    by (simp add: certs_after_def certs_new_def r)
next
  case (snoc f fss)
  obtain c m1 where c: "foldl (\<lambda>(c, m) f. snd (reload lib f c m)) (certs_new lib fs ps m) fss = (c, m1)"
    by (rule prod.exhaust)
  obtain n c' m' where r: "reload lib f c m1 = (n, c', m')"
    by (metis prod.exhaust)
  have "certs_ok c" "good_pairs lib c"
    using snoc by (simp_all add: certs_after_def c)
  from reload_good [OF this r] show ?case
    by (simp add: certs_after_def c r)
qed

lemma find_None: "List.find P xs = None \<longleftrightarrow> (\<forall>x \<in> set xs. \<not> P x)"
  by (induction xs) auto

lemma good_set [simp]: "l \<in> set (List.map_filter id xs) \<longleftrightarrow> Some l \<in> set xs"
  by (auto simp: List.map_filter_def image_iff)

lemma pick_pair_cases:
  assumes "pick_pair lib c sni = Some key"
  obtains l where "Some l \<in> set (loaded c)" "key = pair_key l"
    "\<And>n k. Option.bind sni (server_name lib) = Some n \<Longrightarrow> Some k \<in> set (loaded c) \<Longrightarrow> valid_for lib (leaf k) n
       \<Longrightarrow> valid_for lib (leaf l) n"
proof (cases "Option.bind sni (server_name lib)")
  case None
  with assms obtain l ls where "List.map_filter id (loaded c) = l # ls" "key = pair_key l"
    by (auto simp: pick_pair_def split: list.splits)
  then show ?thesis
    using None that [of l] good_set [of l "loaded c"] by simp
next
  case (Some n)
  show ?thesis
  proof (cases "List.find (\<lambda>l. valid_for lib (leaf l) n) (List.map_filter id (loaded c))")
    case None
    with assms Some obtain l ls where "List.map_filter id (loaded c) = l # ls" "key = pair_key l"
      by (auto simp: pick_pair_def split: list.splits)
    moreover have "\<not> valid_for lib (leaf k) n" if "Some k \<in> set (loaded c)" for k
      using None that by (simp add: find_None)
    ultimately show ?thesis
      using Some that [of l] good_set [of l "loaded c"] by auto
  next
    case (Some l)
    then have "valid_for lib (leaf l) n" "Some l \<in> set (loaded c)"
      using find_SomeD [OF Some] by auto
    then show ?thesis
      using Some \<open>Option.bind sni (server_name lib) = _\<close> assms
      by (intro that [of l]) (auto simp: pick_pair_def)
  qed
qed

lemma pick_pair_None: "pick_pair lib c sni = None \<longleftrightarrow> count c = 0"
  by (auto simp: pick_pair_def count_def Let_def split: option.splits list.splits)

text \<open>C20: Whatever the files held at the start and at each reload since, a handshake gets a pair as soon
  as one is loaded; the pair it gets has a chain whose leaf parses, with a key that is supported and
  belongs to it; and if any loaded certificate is valid for the client's server name, so is this one.\<close>

theorem handshake_gets_a_good_pair:
  assumes "c = certs_after lib ps fs m fss"
  shows "(pick_pair lib c sni = None \<longleftrightarrow> count c = 0)
    \<and> (\<forall>chain key. pick_pair lib c sni = Some (chain, key) \<longrightarrow>
         chain \<noteq> [] \<and> keys_match lib (chain, key) = Inr () \<and> supported_key lib key = Inr ()
         \<and> end_entity lib (hd chain) = Inr ()
         \<and> (\<forall>n l. Option.bind sni (server_name lib) = Some n \<and> Some l \<in> set (loaded c) \<and> valid_for lib (leaf l) n
              \<longrightarrow> valid_for lib (hd chain) n))"
proof (intro conjI allI impI pick_pair_None)
  fix chain key
  assume p: "pick_pair lib c sni = Some (chain, key)"
  obtain l where l: "Some l \<in> set (loaded c)" "(chain, key) = pair_key l"
    "\<And>n k. Option.bind sni (server_name lib) = Some n \<Longrightarrow> Some k \<in> set (loaded c) \<Longrightarrow> valid_for lib (leaf k) n
       \<Longrightarrow> valid_for lib (leaf l) n"
    by (rule pick_pair_cases [OF p]) blast
  have "pair_good lib l"
    using certs_after_good [of lib ps fs m fss] l(1) by (simp add: assms good_pairs_def)
  then show "chain \<noteq> []" "keys_match lib (chain, key) = Inr ()" "supported_key lib key = Inr ()"
    "end_entity lib (hd chain) = Inr ()"
    by (auto simp: pair_good_def simp flip: l(2))
  show "valid_for lib (hd chain) n"
    if "Option.bind sni (server_name lib) = Some n \<and> Some k \<in> set (loaded c) \<and> valid_for lib (leaf k) n" for n k
    using that l(3) \<open>pair_good lib l\<close> by (simp add: pair_good_def flip: l(2)) blast
qed

subsection \<open>Witnesses\<close>

definition demo_pairs :: "cert_pair list" where
  "demo_pairs = [\<lparr>cert_file = ''a.crt'', key_file = ''a.key''\<rparr>, \<lparr>cert_file = ''b.crt'', key_file = ''b.key''\<rparr>]"

definition demo_files :: "nat \<Rightarrow> bool \<Rightarrow> tls_files" where
  "demo_files t good =
     \<lparr>mtime = (\<lambda>_. Some t),
      pem_certs = (\<lambda>f. if f = ''a.crt'' \<and> good then Inr [Inr [1]]
                   else if f = ''b.crt'' then Inr [Inr [2]] else Inl ''gone''),
      pem_key = (\<lambda>f. Inr (if f = ''a.key'' then [1] else [2]))\<rparr>"

definition demo_lib :: tls_lib where
  "demo_lib = \<lparr>supported_key = (\<lambda>_. Inr ()),
     keys_match = (\<lambda>(ch, k). if ch = [k] then Inr () else Inl ''mismatch''),
     end_entity = (\<lambda>_. Inr ()), server_name = Some, valid_for = (\<lambda>b n. b = [2] \<and> n = ''b.lo'')\<rparr>"

definition demo_certs :: certs where
  "demo_certs = \<lparr>pairs = demo_pairs,
     loaded = [Some \<lparr>leaf = [1], pair_key = ([[1]], [1]), stamp = (Some 1, Some 1)\<rparr>,
               Some \<lparr>leaf = [2], pair_key = ([[2]], [2]), stamp = (Some 1, Some 1)\<rparr>],
     load_errors = [None, None]\<rparr>"

lemma demo_certs: "fst (certs_new demo_lib (demo_files 1 True) demo_pairs metrics_empty) = demo_certs"
  by (simp add: certs_new_def reload_def demo_pairs_def upt_rec reload_pair_def stamp_of_def demo_files_def
      load_pair_def demo_lib_def demo_certs_def map_err_def)

lemma reload_keeps_last_good_witness:
  "loaded (fst (snd (reload demo_lib (demo_files 2 False) demo_certs metrics_empty))) ! 0
     = Some \<lparr>leaf = [1], pair_key = ([[1]], [1]), stamp = (Some 1, Some 1)\<rparr>"
proof -
  obtain n c' m' where r: "reload demo_lib (demo_files 2 False) demo_certs metrics_empty = (n, c', m')"
    by (metis prod.exhaust)
  have ok: "certs_ok demo_certs" and i: "0 < length (pairs demo_certs)"
    by (simp_all add: certs_ok_def demo_certs_def demo_pairs_def)
  have "load_pair demo_lib (demo_files 2 False) (pairs demo_certs ! 0) = Inl ''reading a.crt: gone''"
    by (simp add: load_pair_def demo_certs_def demo_pairs_def demo_files_def map_err_def)
  then show ?thesis
    using reload_keeps_last_good [OF ok r i] by (simp add: r) (simp add: demo_certs_def)
qed

lemma handshake_gets_a_good_pair_witness:
  "pick_pair demo_lib (certs_after demo_lib demo_pairs (demo_files 1 True) metrics_empty []) (Some ''b.lo'')
     = Some ([[2]], [2])"
proof -
  have c: "demo_certs = certs_after demo_lib demo_pairs (demo_files 1 True) metrics_empty []"
    by (simp only: certs_after_def foldl.simps demo_certs)
  have "count demo_certs \<noteq> 0"
    by (simp add: count_def demo_certs_def)
  then obtain chain key where p: "pick_pair demo_lib demo_certs (Some ''b.lo'') = Some (chain, key)"
    using handshake_gets_a_good_pair [OF c, of "Some ''b.lo''"] by fastforce
  have "Option.bind (Some ''b.lo'') (server_name demo_lib) = Some ''b.lo''"
    by (simp add: demo_lib_def)
  moreover have "\<exists>l. Some l \<in> set (loaded demo_certs) \<and> valid_for demo_lib (leaf l) ''b.lo''"
    by (intro exI [of _ "\<lparr>leaf = [2], pair_key = ([[2]], [2]), stamp = (Some 1, Some 1)\<rparr>"])
       (simp add: demo_certs_def demo_lib_def)
  ultimately have "valid_for demo_lib (hd chain) ''b.lo''" and "keys_match demo_lib (chain, key) = Inr ()"
    using handshake_gets_a_good_pair [OF c, of "Some ''b.lo''"] p by blast+
  then show ?thesis
    using p by (auto simp: demo_lib_def c split: if_splits)
qed

end
