(* ===== verification/Router_Conn.thy ===== *)
theory Router_Conn
  imports Router_Http Tls_Certs
begin

text \<open>
  \<open>src/router.rs\<close>, one connection: \<open>serve_conn\<close> reads a request head, decides by its Host where it goes,
  sends the head on and splices; and the listeners' tasks around it (\<open>serve_on\<close>, \<open>serve_tls_on\<close>).

  A connection is a function of what its reads answered and of the backend side (\<open>upstream_world\<close>): the
  result holds what was done, in order, the metrics and how it ended.  The two directions of a splice
  run beside each other in the code; the trace lists the client's bytes first.  Writes of spliced bytes
  succeed here; the write of the head may fail.
\<close>

subsection \<open>The parts\<close>

record route_backend =
  rb_addr :: string
  rb_tls :: "string option"

text \<open>\<open>trusted\<close>: the roots of the connector for TLS backends, once \<open>backend_ca_file\<close> has loaded.\<close>

record front =
  table :: "string \<rightharpoonup> route_backend"
  trusted :: "bytes list option"
  redirect :: "(certs \<times> u16) option"

record upstream_world =
  dials :: "string \<Rightarrow> bool"
  is_name :: "string \<Rightarrow> bool"
  verifies :: "bytes list \<Rightarrow> string \<Rightarrow> string \<Rightarrow> bool"
  head_sent :: bool
  replies :: "read list"
  elapsed :: nat

datatype conn_action =
    Reply string | Dial string | Handshake string string | ToBackend string | ToClient string

datatype conn_error =
    ReadFailed | HeadTooLong | ConnectFailed | NoBackendCa | BadServerName | TlsFailed | HeadNotSent | SpliceFailed

subsection \<open>Reading the head\<close>

datatype head_read = Waiting | Gone | Failing conn_error | Head string nat "read list"

fun read_head :: "string \<Rightarrow> read list \<Rightarrow> head_read" where
  "read_head h [] = Waiting"
| "read_head h (ReadError _ # _) = Failing ReadFailed"
| "read_head h (Read c # cs) =
     (if c = [] then Gone
      else (case find_head_end (h @ c) of
              Some e \<Rightarrow> Head (h @ c) e cs
            | None \<Rightarrow> (if 16 * 1024 < length (h @ c) then Failing HeadTooLong else read_head (h @ c) cs)))"

subsection \<open>The router's own answers\<close>

definition reply_400 :: string where
  "reply_400 = ''HTTP/1.1 400 Bad Request'' @ crlf @ ''content-length: 26'' @ crlf
     @ ''connection: close'' @ crlf @ crlf @ ''this router needs a Host'' @ [LF, LF]"

definition reply_308 :: "string \<Rightarrow> u16 \<Rightarrow> string \<Rightarrow> string" where
  "reply_308 host port target =
     ''HTTP/1.1 308 Permanent Redirect'' @ crlf @ ''location: https://'' @ host
     @ (if port = 443 then [] else CHR '':'' # dec (unat port)) @ target @ crlf
     @ ''content-length: 0'' @ crlf @ ''connection: close'' @ crlf @ crlf"

definition text_reply :: "string \<Rightarrow> string \<Rightarrow> string" where
  "text_reply status body =
     ''HTTP/1.1 '' @ status @ crlf @ ''content-type: text/plain'' @ crlf @ ''content-length: ''
     @ dec (length body) @ crlf @ ''connection: close'' @ crlf @ crlf @ body"

definition request_counted :: "metrics \<Rightarrow> string \<Rightarrow> string \<Rightarrow> metrics" where
  "request_counted m host code = inc m ''stormlb_router_requests_total'' [(''host'', host), (''code'', code)]"

definition upstream_error :: "metrics \<Rightarrow> string \<Rightarrow> string \<Rightarrow> metrics" where
  "upstream_error m host kind =
     request_counted (inc m ''stormlb_router_upstream_errors_total'' [(''host'', host), (''kind'', kind)])
       host ''error''"

subsection \<open>Forwarding\<close>

definition record_first :: "metrics \<Rightarrow> string \<Rightarrow> string option \<Rightarrow> nat \<Rightarrow> metrics" where
  "record_first m host first d =
     (case first of
        Some b \<Rightarrow>
          request_counted (observe m ''stormlb_router_request_duration_seconds'' [(''host'', host)] d) host
            (case status_code b of Some c \<Rightarrow> c | None \<Rightarrow> ''other'')
      | None \<Rightarrow> upstream_error m host ''no_response'')"

type_synonym conn_result = "conn_action list \<times> metrics \<times> (conn_error, unit) result"

text \<open>A backend that has not answered yet leaves the connection open, nothing recorded.\<close>

definition splice :: "upstream_world \<Rightarrow> string \<Rightarrow> read list \<Rightarrow> metrics \<Rightarrow> conn_result" where
  "splice w host rest m =
     (let up = [ToBackend (stream rest)];
          ended = (if breaks (replies w) \<or> breaks rest then Inl SpliceFailed else Inr ())
      in case replies w of
           [] \<Rightarrow> (up, m, ended)
         | ReadError _ # _ \<Rightarrow> (up, record_first m host None (elapsed w), ended)
         | Read b # later \<Rightarrow>
             (if b = [] then (up, record_first m host None (elapsed w), ended)
              else (up @ [ToClient (b @ stream later)], record_first m host (Some b) (elapsed w), ended)))"

definition forward :: "upstream_world \<Rightarrow> string \<Rightarrow> string \<Rightarrow> read list \<Rightarrow> metrics \<Rightarrow> conn_result" where
  "forward w head host rest m =
     (if \<not> head_sent w then ([], m, Inl HeadNotSent)
      else (case splice w host rest m of (acts, m', r) \<Rightarrow> (ToBackend head # acts, m', r)))"

definition before :: "conn_action list \<Rightarrow> conn_result \<Rightarrow> conn_result" where
  "before acts r = (acts @ fst r, snd r)"

text \<open>The routed request: connect, and to a TLS backend only over a verified connection.\<close>

definition proxy ::
  "upstream_world \<Rightarrow> front \<Rightarrow> bool \<Rightarrow> route_backend \<Rightarrow> string \<Rightarrow> string \<Rightarrow> nat \<Rightarrow> read list \<Rightarrow> metrics \<Rightarrow> conn_result"
where
  "proxy w f tls b host head e rest m =
     (let dial = [Dial (rb_addr b)]
      in if \<not> dials w (rb_addr b) then (dial, upstream_error m host ''connect'', Inl ConnectFailed)
         else (let head' = (if tls then forwarded_https head e else head)
               in case rb_tls b of
                    None \<Rightarrow> before dial (forward w head' host rest m)
                  | Some name \<Rightarrow>
                      (case trusted f of
                         None \<Rightarrow> (dial, upstream_error m host ''tls'', Inl NoBackendCa)
                       | Some roots \<Rightarrow>
                           (if \<not> is_name w name then (dial, m, Inl BadServerName)
                            else (let dial' = dial @ [Handshake name (rb_addr b)]
                                  in if verifies w roots name (rb_addr b)
                                     then before dial' (forward w head' host rest m)
                                     else (dial', upstream_error m host ''tls'', Inl TlsFailed))))))"

subsection \<open>The decision\<close>

definition redirect_port :: "front \<Rightarrow> bool \<Rightarrow> u16 option" where
  "redirect_port f tls =
     (case redirect f of
        None \<Rightarrow> None
      | Some (cs, port) \<Rightarrow> (if \<not> tls \<and> 0 < count cs then Some port else None))"

definition route ::
  "upstream_world \<Rightarrow> front \<Rightarrow> bool \<Rightarrow> string \<Rightarrow> nat \<Rightarrow> read list \<Rightarrow> metrics \<Rightarrow> conn_result"
where
  "route w f tls head e rest m =
     (case host_of (take e head) of
        None \<Rightarrow> ([Reply reply_400], request_counted m ''unrouted'' ''400'', Inr ())
      | Some host \<Rightarrow>
          (let backend = table f host;
               label = (if backend \<noteq> None then host else ''unrouted'');
               path = request_path (take e head)
           in if redirect_port f tls \<noteq> None \<and> path \<noteq> Some ''/healthz''
              then ([Reply (reply_308 host (the (redirect_port f tls))
                       (case request_target (take e head) of Some t \<Rightarrow> t | None \<Rightarrow> ''/''))],
                    request_counted m label ''308'', Inr ())
              else (case backend of
                      Some b \<Rightarrow> proxy w f tls b host head e rest m
                    | None \<Rightarrow>
                        (if path = Some ''/healthz''
                         then ([Reply (text_reply ''200 OK'' (''router alive'' @ [LF]))],
                               request_counted m ''unrouted'' ''200'', Inr ())
                         else ([Reply (text_reply ''404 Not Found'' (''no route for host '' @ host @ [LF]))],
                               request_counted m ''unrouted'' ''404'', Inr ())))))"

definition serve_conn :: "upstream_world \<Rightarrow> front \<Rightarrow> bool \<Rightarrow> read list \<Rightarrow> metrics \<Rightarrow> conn_result" where
  "serve_conn w f tls input m =
     (case read_head [] input of
        Waiting \<Rightarrow> ([], m, Inr ())
      | Gone \<Rightarrow> ([], m, Inr ())
      | Failing err \<Rightarrow> ([], m, Inl err)
      | Head head e rest \<Rightarrow> route w f tls head e rest m)"

text \<open>The tasks of the listeners: \<open>serve_on\<close>, and \<open>serve_tls_on\<close> with its handshake.\<close>

definition listener_task :: "string \<Rightarrow> (metrics \<Rightarrow> conn_result) \<Rightarrow> metrics \<Rightarrow> conn_result" where
  "listener_task name task m =
     (let l = [(''listener'', name)]
      in case active (inc m ''stormlb_router_connections_total'' l) ''stormlb_router_connections_active'' l of
           (guard, m1) \<Rightarrow>
             (case task m1 of (acts, m2, r) \<Rightarrow> (acts, drop_guard m2 guard, r)))"

definition serve_http :: "upstream_world \<Rightarrow> front \<Rightarrow> read list \<Rightarrow> metrics \<Rightarrow> conn_result" where
  "serve_http w f input = listener_task ''http'' (serve_conn w f False input)"

definition serve_https :: "upstream_world \<Rightarrow> front \<Rightarrow> bool \<Rightarrow> read list \<Rightarrow> metrics \<Rightarrow> conn_result" where
  "serve_https w f accepted input =
     listener_task ''https'' (\<lambda>m.
       if accepted then serve_conn w f True input m
       else ([], inc m ''stormlb_router_tls_handshake_errors_total'' [], Inr ()))"

subsection \<open>What goes to the two sides\<close>

fun sent :: "conn_action list \<Rightarrow> string" where
  "sent [] = []"
| "sent (ToBackend b # as) = b @ sent as"
| "sent (_ # as) = sent as"

fun delivered :: "conn_action list \<Rightarrow> string" where
  "delivered [] = []"
| "delivered (ToClient b # as) = b @ delivered as"
| "delivered (_ # as) = delivered as"

lemma sent_append [simp]: "sent (as @ bs) = sent as @ sent bs"
  by (induction as rule: sent.induct) simp_all

lemma delivered_append [simp]: "delivered (as @ bs) = delivered as @ delivered bs"
  by (induction as rule: delivered.induct) simp_all

definition to_backend :: "conn_action list \<Rightarrow> bool" where
  "to_backend acts \<longleftrightarrow> (\<exists>b. ToBackend b \<in> set acts)"

lemma read_head_stream: "read_head h input = Head head e rest \<Longrightarrow> head @ stream rest = h @ stream input"
proof (induction h input rule: read_head.induct)
  case (3 h c cs)
  then show ?case by (auto split: if_splits option.splits)
qed auto

lemma read_head_end: "read_head h input = Head head e rest \<Longrightarrow> find_head_end head = Some e"
proof (induction h input rule: read_head.induct)
  case (3 h c cs)
  then show ?case by (auto split: if_splits option.splits)
qed auto

lemma splice_streams:
  assumes "splice w host rest m = (acts, m', r)"
  shows "sent acts = stream rest" and "delivered acts = stream (replies w)"
    and "(\<forall>a \<in> set acts. \<exists>b. a = ToBackend b \<or> a = ToClient b)"
  using assms by (auto simp: splice_def Let_def split: list.splits read.splits if_splits)

lemma forward_streams:
  assumes "forward w head host rest m = (acts, m', r)"
  shows "if head_sent w
    then to_backend acts \<and> sent acts = head @ stream rest \<and> delivered acts = stream (replies w) else acts = []"
  using assms splice_streams [of w host rest m]
  by (auto simp: forward_def to_backend_def split: if_splits prod.splits)

text \<open>A request that is proxied: where it goes, and under which conditions.\<close>

definition admitted_to :: "upstream_world \<Rightarrow> front \<Rightarrow> route_backend \<Rightarrow> bool" where
  "admitted_to w f b \<longleftrightarrow> dials w (rb_addr b)
     \<and> (\<forall>name. rb_tls b = Some name \<longrightarrow>
          is_name w name \<and> (\<exists>roots. trusted f = Some roots \<and> verifies w roots name (rb_addr b)))"

lemma proxy_streams:
  assumes "proxy w f tls b host head e rest m = (acts, m', r)"
  shows "if admitted_to w f b \<and> head_sent w
    then to_backend acts \<and> Dial (rb_addr b) \<in> set acts \<and> delivered acts = stream (replies w)
      \<and> sent acts = (if tls then forwarded_https head e else head) @ stream rest
    else \<not> to_backend acts \<and> delivered acts = []"
proof -
  define head' where "head' = (if tls then forwarded_https head e else head)"
  obtain fa fm fr where fwd: "forward w head' host rest m = (fa, fm, fr)"
    by (metis prod.exhaust)
  note forward_streams [OF fwd]
  then show ?thesis
    using assms fwd
    by (auto simp: proxy_def admitted_to_def before_def to_backend_def Let_def simp flip: head'_def
        split: if_splits option.splits)
qed

text \<open>What a connection comes to: nothing read whole, one answer of the router's own, or the proxy.\<close>

lemma serve_conn_cases:
  assumes "serve_conn w f tls input m = (acts, m', r)"
  obtains (unread) "acts = []" "m' = m" "\<And>head e rest. read_head [] input \<noteq> Head head e rest"
  | (own) head e rest reply code host where "read_head [] input = Head head e rest" "acts = [Reply reply]" "r = Inr ()"
      "host = (case host_of (take e head) of Some h \<Rightarrow> if table f h = None then ''unrouted'' else h | None \<Rightarrow> ''unrouted'')"
      "m' = request_counted m host code"
  | (proxied) head e rest host b where "read_head [] input = Head head e rest"
      "host_of (take e head) = Some host" "table f host = Some b"
      "redirect_port f tls = None \<or> request_path (take e head) = Some ''/healthz''"
      "proxy w f tls b host head e rest m = (acts, m', r)"
proof (cases "read_head [] input")
  case (Head head e rest)
  have routed: "route w f tls head e rest m = (acts, m', r)"
    using assms Head by (simp add: serve_conn_def)
  show ?thesis
  proof (cases "host_of (take e head)")
    case None
    then show ?thesis
      using routed Head by (intro own) (auto simp: route_def)
  next
    case (Some host)
    show ?thesis
    proof (cases "redirect_port f tls \<noteq> None \<and> request_path (take e head) \<noteq> Some ''/healthz''")
      case True
      then show ?thesis
        using routed Head Some by (intro own) (auto simp: route_def)
    next
      case not_redirected: False
      show ?thesis
      proof (cases "table f host")
        case None
        have "\<exists>reply code. acts = [Reply reply] \<and> r = Inr () \<and> m' = request_counted m ''unrouted'' code"
          using routed Some not_redirected None by (auto simp: route_def split: if_splits)
        then show ?thesis
          using Head Some None own [of head e rest _ "''unrouted''"] by auto
      next
        case (Some b)
        then show ?thesis
          using routed Head \<open>host_of (take e head) = Some host\<close> not_redirected
          by (intro proxied) (auto simp: route_def)
      qed
    qed
  qed
qed (use assms in \<open>auto simp: serve_conn_def intro: unread\<close>)

text \<open>A proxied connection dials its route's backend and nobody else; a handshake is with it, by its name.\<close>

definition peers_of :: "conn_action list \<Rightarrow> string set" where
  "peers_of acts = {a. Dial a \<in> set acts} \<union> {a. \<exists>name. Handshake name a \<in> set acts}"

lemma splice_peers: "splice w host rest m = (acts, m', r) \<Longrightarrow> peers_of acts = {}"
  by (auto simp: splice_def peers_of_def Let_def split: list.splits read.splits if_splits)

lemma proxy_peers:
  assumes "proxy w f tls b host head e rest m = (acts, m', r)"
  shows "peers_of acts = {rb_addr b}" and "Handshake name a \<in> set acts \<Longrightarrow> rb_tls b = Some name"
proof -
  define head' where "head' = (if tls then forwarded_https head e else head)"
  obtain fa fm fr where fwd: "forward w head' host rest m = (fa, fm, fr)" by (metis prod.exhaust)
  have "peers_of fa = {}"
    using fwd splice_peers [of w host rest m] by (auto simp: forward_def peers_of_def split: if_splits prod.splits)
  then show "peers_of acts = {rb_addr b}" "Handshake name a \<in> set acts \<Longrightarrow> rb_tls b = Some name"
    using assms fwd
    by (auto simp: proxy_def before_def peers_of_def Let_def simp flip: head'_def split: if_splits option.splits)
qed

text \<open>C13: The router fails closed: bytes go to a backend only when the request's Host names a route, the only
  peer that is dialled or shakes hands is that route's backend, on plain HTTP with a redirect it is only the
  health path, and a TLS backend gets bytes only over a connection verified, by the route's name, against the
  loaded CA.\<close>

theorem only_routed_requests_pass:
  assumes "serve_conn w f tls input m = (acts, m', r)" and "to_backend acts"
  shows "\<exists>head e rest host b. read_head [] input = Head head e rest \<and> host_of (take e head) = Some host
    \<and> table f host = Some b \<and> peers_of acts = {rb_addr b} \<and> Dial (rb_addr b) \<in> set acts \<and> dials w (rb_addr b)
    \<and> (redirect_port f tls = None \<or> request_path (take e head) = Some ''/healthz'')
    \<and> (\<forall>name. rb_tls b = Some name \<longrightarrow>
         (\<exists>roots. trusted f = Some roots \<and> verifies w roots name (rb_addr b)))"
  using assms(1)
proof (cases rule: serve_conn_cases)
  case (proxied head e rest host b)
  from proxy_streams [OF proxied(5)] assms(2)
  have "admitted_to w f b" and "Dial (rb_addr b) \<in> set acts"
    by (auto split: if_splits)
  then show ?thesis
    using proxied proxy_peers(1) [OF proxied(5)] by (auto simp: admitted_to_def)
qed (use assms(2) in \<open>auto simp: to_backend_def\<close>)

text \<open>C28: After the head the router is a wire: on plain HTTP a proxied connection's backend gets exactly
  the bytes the client sent, over TLS the same after the rewritten head, and the client gets exactly
  the bytes the backend sent; a connection that is not proxied gets none of them.\<close>

theorem router_is_a_wire:
  assumes "serve_conn w f tls input m = (acts, m', r)" and "read_head [] input = Head head e rest"
  shows "if to_backend acts
    then sent acts = (if tls then forwarded_https head e @ stream rest else stream input)
      \<and> delivered acts = stream (replies w)
    else sent acts = [] \<and> delivered acts = []"
  using assms(1)
proof (cases rule: serve_conn_cases)
  case unread
  then show ?thesis using assms(2) by blast
next
  case own
  then show ?thesis by (simp add: to_backend_def)
next
  case (proxied head' e' rest' host b)
  then have same: "head' = head" "e' = e" "rest' = rest"
    using assms(2) by simp_all
  have "\<not> to_backend acts \<Longrightarrow> sent acts = []"
    by (induction acts rule: sent.induct) (auto simp: to_backend_def)
  then show ?thesis
    using proxy_streams [OF proxied(5)] read_head_stream [OF assms(2)] by (auto simp: same split: if_splits)
qed

subsection \<open>Counting\<close>

definition requests_of :: "metrics \<Rightarrow> string \<Rightarrow> u64 option" where
  "requests_of m l = counters m (''stormlb_router_requests_total'', l)"

lemma requests_of_other:
  "name \<noteq> ''stormlb_router_requests_total'' \<Longrightarrow> requests_of (inc m name l) = requests_of m"
  "requests_of (observe m name l d) = requests_of m"
  by (auto simp: requests_of_def inc_def observe_def Let_def)

lemma requests_of_counted:
  "requests_of m1 = requests_of m2 \<Longrightarrow> requests_of (request_counted m1 h c) = requests_of (request_counted m2 h c)"
  by (auto simp: request_counted_def requests_of_def inc_def or_default_def fun_eq_iff Let_def)

lemma requests_upstream_error: "requests_of (upstream_error m h k) = requests_of (request_counted m h ''error'')"
  unfolding upstream_error_def by (rule requests_of_counted) (simp add: requests_of_other)

lemma requests_record_first:
  "\<exists>code. requests_of (record_first m host first d) = requests_of (request_counted m host code)"
proof (cases first)
  case None
  then show ?thesis by (auto simp: record_first_def requests_upstream_error)
next
  case (Some b)
  then show ?thesis
    using requests_of_counted [OF requests_of_other(2)] by (auto simp: record_first_def)
qed

lemma proxy_counts:
  assumes "proxy w f tls b host head e rest m = (acts, m', r)"
    and "replies w \<noteq> []" and "r \<noteq> Inl BadServerName" and "r \<noteq> Inl HeadNotSent"
  shows "\<exists>code. requests_of m' = requests_of (request_counted m host code)"
proof -
  have fwd: "\<exists>code. requests_of m' = requests_of (request_counted m host code)"
    if "snd (forward w h host rest m) = (m', r)" for h
    using that assms(2,4) requests_record_first
    by (auto simp: forward_def splice_def Let_def split: list.splits read.splits prod.splits if_splits)
  show ?thesis
    using assms(1,3) fwd
    by (auto simp: proxy_def before_def requests_upstream_error Let_def split: if_splits option.splits)
qed

text \<open>Every request is counted once, and under a bounded set of labels: when a head was read and the
  connection has come to an answer, exactly one series of the request counter has grown by one, the
  one of the route's hostname, or \<open>unrouted\<close> when the Host names no route, whatever the client sent
  as Host.  Only a TLS name that is no name and a head the backend would not take are not counted.\<close>

theorem every_request_counted_once:
  assumes "serve_conn w f tls input m = (acts, m', r)" and "read_head [] input = Head head e rest"
    and "replies w \<noteq> []" and "r \<noteq> Inl BadServerName" and "r \<noteq> Inl HeadNotSent"
  shows "\<exists>host code. (host = ''unrouted'' \<or> host \<in> dom (table f))
    \<and> requests_of m' = requests_of (request_counted m host code)"
  using assms(1)
proof (cases rule: serve_conn_cases)
  case unread
  then show ?thesis using assms(2) by blast
next
  case (own head e rest reply code host)
  then show ?thesis by (auto split: option.splits if_splits)
next
  case (proxied head e rest host b)
  then show ?thesis
    using proxy_counts [OF proxied(5) assms(3-5)] by blast
qed

text \<open>One request is counted nowhere: when a TLS backend's configured name is not a server name the
  connection ends without a byte to either side and with no metric changed.\<close>

theorem bad_server_name_is_not_counted:
  "\<exists>w f head b. serve_conn w f True [Read head] m = ([Dial (rb_addr b)], m, Inl BadServerName)
     \<and> host_of head = Some ''a'' \<and> table f ''a'' = Some b"
proof -
  let ?b = "\<lparr>rb_addr = ''10.0.0.1:443'', rb_tls = Some ''not a name''\<rparr>"
  let ?w = "\<lparr>dials = \<lambda>_. True, is_name = \<lambda>n. SP \<notin> set n, verifies = \<lambda>_ _ _. True, head_sent = True,
    replies = [], elapsed = 0\<rparr>"
  let ?f = "\<lparr>table = [''a'' \<mapsto> ?b], trusted = Some [[1]], redirect = None\<rparr>"
  let ?head = "http_head ''GET'' ''/'' [(''Host'', ''a'')]"
  have head: "find_head_end ?head = Some (length ?head)" "host_of ?head = Some ''a''"
    by code_simp+
  moreover have "?head \<noteq> []" by (simp add: http_head_def request_line_def)
  ultimately have "serve_conn ?w ?f True [Read ?head] m = ([Dial (rb_addr ?b)], m, Inl BadServerName)"
    by (simp add: serve_conn_def route_def proxy_def redirect_port_def)
  then show ?thesis
    using head by (intro exI [of _ ?w] exI [of _ ?f] exI [of _ ?head] exI [of _ ?b]) simp
qed

subsection \<open>Witnesses\<close>

definition demo_head :: string where
  "demo_head = http_head ''GET'' ''/'' [(''Host'', ''a'')]"

definition demo_world :: upstream_world where
  "demo_world = \<lparr>dials = \<lambda>_. True, is_name = \<lambda>_. True, verifies = \<lambda>roots name _. roots = [[1]] \<and> name = ''b.lo'',
     head_sent = True, replies = [Read ''HTTP/1.1 200 OK'', Read []], elapsed = 5\<rparr>"

definition demo_front :: front where
  "demo_front = \<lparr>table = [''a'' \<mapsto> \<lparr>rb_addr = ''10.0.0.1:443'', rb_tls = Some ''b.lo''\<rparr>],
     trusted = Some [[1]], redirect = None\<rparr>"

lemma demo_head:
  "find_head_end demo_head = Some (length demo_head)" "host_of demo_head = Some ''a''" "demo_head \<noteq> []"
  by code_simp+

lemma demo_read: "read_head [] [Read demo_head, Read ''body''] = Head demo_head (length demo_head) [Read ''body'']"
  by (simp add: demo_head)

lemma demo_conn:
  "serve_conn demo_world demo_front False [Read demo_head, Read ''body''] m =
     ([Dial ''10.0.0.1:443'', Handshake ''b.lo'' ''10.0.0.1:443'', ToBackend demo_head, ToBackend ''body'',
       ToClient ''HTTP/1.1 200 OK''],
      record_first m ''a'' (Some ''HTTP/1.1 200 OK'') 5, Inr ())"
  by (simp add: serve_conn_def demo_read route_def demo_head demo_front_def redirect_port_def proxy_def
      demo_world_def before_def forward_def splice_def Let_def)

lemma only_routed_requests_pass_witness:
  "\<exists>host b. table demo_front host = Some b \<and> (\<exists>roots. trusted demo_front = Some roots
     \<and> verifies demo_world roots ''b.lo'' (rb_addr b))"
proof -
  obtain host b where "table demo_front host = Some b" "\<forall>name. rb_tls b = Some name \<longrightarrow>
      (\<exists>roots. trusted demo_front = Some roots \<and> verifies demo_world roots name (rb_addr b))"
    using only_routed_requests_pass [OF demo_conn] by (auto simp: to_backend_def)
  moreover from this(1) have "rb_tls b = Some ''b.lo''"
    by (auto simp: demo_front_def split: if_splits)
  ultimately show ?thesis by blast
qed

lemma router_is_a_wire_witness:
  "sent (fst (serve_conn demo_world demo_front False [Read demo_head, Read ''body''] metrics_empty)) = demo_head @ ''body''"
  using router_is_a_wire [OF demo_conn demo_read]
  by (auto simp: demo_conn to_backend_def demo_head)

lemma every_request_counted_once_witness:
  "\<exists>host code. (host = ''unrouted'' \<or> host \<in> dom (table demo_front))
     \<and> requests_of (fst (snd (serve_conn demo_world demo_front False [Read demo_head, Read ''body''] metrics_empty)))
       = requests_of (request_counted metrics_empty host code)"
proof -
  have "replies demo_world \<noteq> []" by (simp add: demo_world_def)
  from every_request_counted_once [OF demo_conn demo_read this, of metrics_empty]
  show ?thesis by (simp add: demo_conn)
qed

end
