(* ===== verification/Json.thy ===== *)
theory Json
  imports Prelude "HOL-Library.Monad_Syntax"
begin

text \<open>
  The tree of a JSON or TOML document, as \<open>serde_json::Value\<close> has it, and what the sources use of serde on
  it: indexing, and the \<open>Deserialize\<close> a struct's declaration derives, by serde's documented rules.  Turning
  a text into its tree and back is the libraries' and is a parameter where it matters.
\<close>

subsection \<open>JSON values as the code reads them\<close>

datatype json =
    JNull | JBool bool | JInt int | JFloat string | JStr string
  | JArr "json list" | JObj "(string \<times> json) list"

text \<open>\<open>v["k"]\<close> and \<open>v[i]\<close>: null where there is nothing.\<close>

definition at_key :: "json \<Rightarrow> string \<Rightarrow> json" where
  "at_key v k =
     (case v of JObj kvs \<Rightarrow> (case map_of kvs k of Some x \<Rightarrow> x | None \<Rightarrow> JNull) | _ \<Rightarrow> JNull)"

definition at_index :: "json \<Rightarrow> nat \<Rightarrow> json" where
  "at_index v i = (case v of JArr xs \<Rightarrow> if i < length xs then xs ! i else JNull | _ \<Rightarrow> JNull)"

definition as_str :: "json \<Rightarrow> string option" where
  "as_str v = (case v of JStr s \<Rightarrow> Some s | _ \<Rightarrow> None)"

definition as_list :: "json \<Rightarrow> json list" where
  "as_list v = (case v of JArr xs \<Rightarrow> xs | _ \<Rightarrow> [])"

definition as_u64 :: "json \<Rightarrow> nat option" where
  "as_u64 v = (case v of JInt i \<Rightarrow> if 0 \<le> i \<and> i < 2 ^ 64 then Some (nat i) else None | _ \<Rightarrow> None)"

definition or_else :: "'a option \<Rightarrow> 'a \<Rightarrow> 'a" where
  "or_else v d = (case v of Some x \<Rightarrow> x | None \<Rightarrow> d)"

subsection \<open>Derived decoders\<close>

text \<open>
  The fields a struct finds in a value: of an object, by name, each of the struct's names at most once,
  others ignored unless the declaration says \<open>deny_unknown_fields\<close>; of an array, by position.
\<close>

definition struct_fields :: "bool \<Rightarrow> string list \<Rightarrow> json \<Rightarrow> (string \<rightharpoonup> json) option" where
  "struct_fields deny names v =
     (case v of
        JObj kvs \<Rightarrow>
          (if distinct (filter (\<lambda>k. k \<in> set names) (map fst kvs)) \<and> (deny \<longrightarrow> list_all (\<lambda>(k, _). k \<in> set names) kvs)
           then Some (map_of kvs) else None)
      | JArr xs \<Rightarrow> (if length xs \<le> length names then Some (map_of (zip names xs)) else None)
      | _ \<Rightarrow> None)"

text \<open>A field without a default, one with (\<open>#[serde(default = ...)]\<close>), and an \<open>Option\<close>.\<close>

definition required :: "(json \<Rightarrow> 'a option) \<Rightarrow> (string \<rightharpoonup> json) \<Rightarrow> string \<Rightarrow> 'a option" where
  "required dec f k = Option.bind (f k) dec"

definition defaulted :: "'a \<Rightarrow> (json \<Rightarrow> 'a option) \<Rightarrow> (string \<rightharpoonup> json) \<Rightarrow> string \<Rightarrow> 'a option" where
  "defaulted d dec f k = (case f k of None \<Rightarrow> Some d | Some v \<Rightarrow> dec v)"

definition dec_option :: "(json \<Rightarrow> 'a option) \<Rightarrow> json \<Rightarrow> 'a option option" where
  "dec_option dec v = (if v = JNull then Some None else map_option Some (dec v))"

definition optional :: "(json \<Rightarrow> 'a option) \<Rightarrow> (string \<rightharpoonup> json) \<Rightarrow> string \<Rightarrow> 'a option option" where
  "optional dec = defaulted None (dec_option dec)"

definition dec_str :: "json \<Rightarrow> string option" where
  "dec_str v = as_str v"

definition dec_bool :: "json \<Rightarrow> bool option" where
  "dec_bool v = (case v of JBool b \<Rightarrow> Some b | _ \<Rightarrow> None)"

definition dec_uint :: "json \<Rightarrow> 'a :: len word option" where
  "dec_uint v =
     (case v of JInt i \<Rightarrow> if 0 \<le> i \<and> i < 2 ^ LENGTH('a) then Some (word_of_int i) else None | _ \<Rightarrow> None)"

fun all_some :: "'a option list \<Rightarrow> 'a list option" where
  "all_some [] = Some []"
| "all_some (x # xs) = do { y \<leftarrow> x; ys \<leftarrow> all_some xs; Some (y # ys) }"

definition dec_list :: "(json \<Rightarrow> 'a option) \<Rightarrow> json \<Rightarrow> 'a list option" where
  "dec_list dec v = (case v of JArr xs \<Rightarrow> all_some (map dec xs) | _ \<Rightarrow> None)"

lemma struct_fields_unknown:
  "(k, v) \<in> set kvs \<Longrightarrow> k \<notin> set ns \<Longrightarrow> struct_fields True ns (JObj kvs) = None"
  by (auto simp: struct_fields_def list_all_iff)

subsection \<open>Decoding what was encoded\<close>

lemma dec_uint_enc [simp]: "dec_uint (JInt (uint w)) = Some w"
  by (simp add: dec_uint_def)

lemma dec_scalars [simp]: "dec_str (JStr s) = Some s" "dec_bool (JBool b) = Some b"
  by (simp_all add: dec_str_def as_str_def dec_bool_def)

lemma dec_list_enc: "(\<And>x. x \<in> set xs \<Longrightarrow> dec (enc x) = Some x) \<Longrightarrow> dec_list dec (JArr (map enc xs)) = Some xs"
  by (induction xs) (simp_all add: dec_list_def)

lemma field_simps [simp]:
  "f k = Some v \<Longrightarrow> required dec f k = dec v" "f k = Some v \<Longrightarrow> defaulted d dec f k = dec v"
  "f k = None \<Longrightarrow> required dec f k = None" "f k = None \<Longrightarrow> defaulted d dec f k = Some d"
  "f k = None \<Longrightarrow> optional dec f k = Some None"
  "f k = Some v \<Longrightarrow> optional dec f k = dec_option dec v"
  by (simp_all add: required_def defaulted_def optional_def)

end
