(* ===== verification/Router_Table.thy ===== *)
theory Router_Table
  imports Router_Conn Json
begin

text \<open>
  \<open>src/router.rs\<close>, the route table: how the apiserver's HTTPRoutes become a map from hostnames to
  backends, and the poll loop that refreshes the table, the apiserver's client and the connector for
  TLS backends, keeping what was last good.

  The apiserver, files, PEM and TLS libraries are parameters (\<open>api_env\<close>); within one poll they do not
  change.  JSON values are serde's, numbers being integers or anything else.
\<close>

subsection \<open>Errors, and what is outside\<close>

datatype api_trust = AnyPeer | SystemRoots | OnlyRoots "bytes list"

datatype poll_error =
    CaFile string string | NotPem string | NoCertificate string | ClientBuild string
  | TokenFile string string | EmptyToken string | SendFailed string | Refused u16 string bool
  | BadStatus u16 | BadBody string | NoBackendRef | NoClusterIp string string | BadProtocol string

record response =
  resp_status :: u16
  resp_json :: "(string, json) result"

record api_env =
  file_bytes :: "string \<Rightarrow> (string, bytes) result"
  file_text :: "string \<Rightarrow> (string, string) result"
  file_mtime :: "string \<Rightarrow> nat option"
  bundle_of :: "bytes \<Rightarrow> (string, bytes list) result"
  roots_in :: "string \<Rightarrow> (string, (string, bytes) result list) result"
  usable_root :: "bytes \<Rightarrow> (string, unit) result"
  client_builds :: "api_trust \<Rightarrow> (string, unit) result"
  api_send :: "api_trust \<Rightarrow> string \<Rightarrow> string option \<Rightarrow> (string, response) result"

subsection \<open>The apiserver's client and the token\<close>

definition api_client :: "api_env \<Rightarrow> router_cfg \<Rightarrow> (poll_error, api_trust) result" where
  "api_client env cfg =
     (let built = (\<lambda>t. rbind (map_err ClientBuild (client_builds env t)) (\<lambda>_. Inr t))
      in case api_ca_file cfg of
           Some p \<Rightarrow>
             rbind (map_err (CaFile p) (file_bytes env p)) (\<lambda>pem.
             rbind (map_err (\<lambda>_. NotPem p) (bundle_of env pem)) (\<lambda>cs.
             rbind (ensure (cs \<noteq> []) (NoCertificate p)) (\<lambda>_. built (OnlyRoots cs))))
         | None \<Rightarrow> built (if insecure cfg then AnyPeer else SystemRoots))"

record client_cache =
  cached :: "api_trust option"
  cached_stamp :: "nat option"

definition cached_client ::
  "api_env \<Rightarrow> router_cfg \<Rightarrow> client_cache \<Rightarrow> (poll_error, api_trust) result \<times> client_cache"
where
  "cached_client env cfg cc =
     (let now = Option.bind (api_ca_file cfg) (file_mtime env);
          rebuild = (case api_client env cfg of
                       Inl e \<Rightarrow> (Inl e, cc)
                     | Inr c \<Rightarrow> (Inr c, \<lparr>cached = Some c, cached_stamp = now\<rparr>))
      in case cached cc of
           Some c \<Rightarrow> (if now = cached_stamp cc then (Inr c, cc) else rebuild)
         | None \<Rightarrow> rebuild)"

definition read_token :: "api_env \<Rightarrow> router_cfg \<Rightarrow> (poll_error, string option) result" where
  "read_token env cfg =
     (case token_file cfg of
        None \<Rightarrow> Inr None
      | Some p \<Rightarrow>
          rbind (map_err (TokenFile p) (file_text env p)) (\<lambda>t.
          rbind (ensure (trim t \<noteq> []) (EmptyToken p)) (\<lambda>_. Inr (Some (trim t)))))"

text \<open>\<open>api_get\<close>; \<open>error_for_status\<close> refuses the 4xx and 5xx.\<close>

definition api_get :: "api_env \<Rightarrow> api_trust \<Rightarrow> string option \<Rightarrow> string \<Rightarrow> (poll_error, json) result" where
  "api_get env c token url =
     rbind (map_err SendFailed (api_send env c url token)) (\<lambda>resp.
     let s = resp_status resp
     in if s = 401 \<or> s = 403 then Inl (Refused s url (token \<noteq> None))
        else if 400 \<le> s \<and> s < 600 then Inl (BadStatus s)
        else map_err BadBody (resp_json resp))"

subsection \<open>A route's backend\<close>

definition annotation :: "json \<Rightarrow> string \<Rightarrow> string option" where
  "annotation r name = as_str (at_key (at_key (at_key r ''metadata'') ''annotations'') name)"

definition host_part :: "string \<Rightarrow> string" where
  "host_part adr =
     (let h = (case rsplit_once (CHR '':'') adr of Some (h, _) \<Rightarrow> h | None \<Rightarrow> adr)
      in rev (dropWhile (\<lambda>c. c = CHR '']'') (rev (dropWhile (\<lambda>c. c = CHR ''['') h))))"

definition with_protocol :: "json \<Rightarrow> string \<Rightarrow> (poll_error, route_backend) result" where
  "with_protocol r adr =
     (case map_option to_lower (annotation r ''storm.io/backend-protocol'') of
        None \<Rightarrow> Inr \<lparr>rb_addr = adr, rb_tls = None\<rparr>
      | Some p \<Rightarrow>
          (if p = ''http'' then Inr \<lparr>rb_addr = adr, rb_tls = None\<rparr>
           else if p = ''https''
           then Inr \<lparr>rb_addr = adr, rb_tls = Some (or_else (annotation r ''storm.io/backend-server-name'') (host_part adr))\<rparr>
           else Inl (BadProtocol p)))"

definition backend_of ::
  "(string \<Rightarrow> (poll_error, json) result) \<Rightarrow> string \<Rightarrow> string \<Rightarrow> json \<Rightarrow> (poll_error, string) result"
where
  "backend_of get api ns r =
     (case annotation r ''storm.io/backend'' of
        Some b \<Rightarrow> Inr b
      | None \<Rightarrow>
          (let bref = at_index (at_key (at_index (at_key (at_key r ''spec'') ''rules'') 0) ''backendRefs'') 0
           in case as_str (at_key bref ''name'') of
                None \<Rightarrow> Inl NoBackendRef
              | Some svc \<Rightarrow>
                  (let port = or_else (as_u64 (at_key bref ''port'')) 80;
                       sns = or_else (as_str (at_key bref ''namespace'')) ns
                   in rbind (get (api @ ''/api/v1/namespaces/'' @ sns @ ''/services/'' @ svc)) (\<lambda>s.
                      case as_str (at_key (at_key s ''spec'') ''clusterIP'') of
                        Some ip \<Rightarrow>
                          (if ip \<noteq> [] \<and> ip \<noteq> ''None'' then Inr (ip @ '':'' @ dec port)
                           else Inl (NoClusterIp sns svc))
                      | None \<Rightarrow> Inl (NoClusterIp sns svc)))))"

definition route_backend_of ::
  "(string \<Rightarrow> (poll_error, json) result) \<Rightarrow> string \<Rightarrow> json \<Rightarrow> (poll_error, route_backend) result"
where
  "route_backend_of get api r =
     rbind (backend_of get api (or_else (as_str (at_key (at_key r ''metadata'') ''namespace'')) ''default'') r)
       (with_protocol r)"

definition hostnames :: "json \<Rightarrow> json list" where
  "hostnames r = as_list (at_key (at_key r ''spec'') ''hostnames'')"

subsection \<open>The table\<close>

definition add_host :: "route_backend \<Rightarrow> (string \<rightharpoonup> route_backend) \<Rightarrow> json \<Rightarrow> (string \<rightharpoonup> route_backend)" where
  "add_host b t h = (case as_str h of Some s \<Rightarrow> t(to_lower s \<mapsto> b) | None \<Rightarrow> t)"

definition add_route ::
  "(string \<Rightarrow> (poll_error, json) result) \<Rightarrow> string \<Rightarrow> (string \<rightharpoonup> route_backend) \<Rightarrow> json \<Rightarrow> (string \<rightharpoonup> route_backend)"
where
  "add_route get api t r =
     (case route_backend_of get api r of Inl _ \<Rightarrow> t | Inr b \<Rightarrow> foldl (add_host b) t (hostnames r))"

definition fetch_table ::
  "(string \<Rightarrow> (poll_error, json) result) \<Rightarrow> string \<Rightarrow> (poll_error, string \<rightharpoonup> route_backend) result"
where
  "fetch_table get api =
     rbind (get (api @ ''/apis/gateway.networking.k8s.io/v1/httproutes'')) (\<lambda>l.
       Inr (foldl (add_route get api) Map.empty (as_list (at_key l ''items''))))"

subsection \<open>The connector for TLS backends\<close>

fun add_roots :: "api_env \<Rightarrow> string \<Rightarrow> (string, bytes) result list \<Rightarrow> (poll_error, bytes list) result" where
  "add_roots env p [] = Inr []"
| "add_roots env p (r # rs) =
     rbind (map_err (CaFile p) r) (\<lambda>c.
     rbind (map_err (CaFile p) (usable_root env c)) (\<lambda>_.
     rbind (add_roots env p rs) (\<lambda>cs. Inr (c # cs))))"

definition upstream_connector :: "api_env \<Rightarrow> string \<Rightarrow> (poll_error, bytes list) result" where
  "upstream_connector env p =
     rbind (map_err (CaFile p) (roots_in env p)) (\<lambda>rs.
     rbind (add_roots env p rs) (\<lambda>cs.
     rbind (ensure (cs \<noteq> []) (NoCertificate p)) (\<lambda>_. Inr cs)))"

record ca_state =
  ca_stamp :: "nat option"
  ca_loaded :: bool
  ca_error :: "poll_error option"

definition ca_reload :: "api_env \<Rightarrow> ca_state \<Rightarrow> string \<Rightarrow> bytes list option \<times> ca_state" where
  "ca_reload env ca p =
     (let now = file_mtime env p
      in if ca_loaded ca \<and> now = ca_stamp ca then (None, ca)
         else (case upstream_connector env p of
                 Inr c \<Rightarrow> (Some c, \<lparr>ca_stamp = now, ca_loaded = True, ca_error = None\<rparr>)
               | Inl e \<Rightarrow> (None, ca\<lparr>ca_error := Some e\<rparr>)))"

subsection \<open>One poll\<close>

record poller =
  p_ca :: ca_state
  p_client :: client_cache
  p_table :: "string \<rightharpoonup> route_backend"
  p_trusted :: "bytes list option"
  p_metrics :: metrics
  p_said :: "poll_error option"

definition poller_new :: "metrics \<Rightarrow> poller" where
  "poller_new m =
     \<lparr>p_ca = \<lparr>ca_stamp = None, ca_loaded = False, ca_error = None\<rparr>,
      p_client = \<lparr>cached = None, cached_stamp = None\<rparr>,
      p_table = Map.empty, p_trusted = None, p_metrics = m, p_said = None\<rparr>"

definition refresh_ca :: "api_env \<Rightarrow> router_cfg \<Rightarrow> poller \<Rightarrow> poller" where
  "refresh_ca env cfg p =
     (case backend_ca_file cfg of
        None \<Rightarrow> p
      | Some f \<Rightarrow>
          (case ca_reload env (p_ca p) f of
             (None, ca) \<Rightarrow> p\<lparr>p_ca := ca\<rparr>
           | (Some c, ca) \<Rightarrow> p\<lparr>p_ca := ca, p_trusted := Some c\<rparr>))"

definition fetched :: "api_env \<Rightarrow> router_cfg \<Rightarrow> (poll_error, api_trust) result \<Rightarrow> (poll_error, string \<rightharpoonup> route_backend) result" where
  "fetched env cfg cl =
     rbind cl (\<lambda>c. rbind (read_token env cfg) (\<lambda>token. fetch_table (api_get env c token) (apiserver cfg)))"

definition poll :: "api_env \<Rightarrow> router_cfg \<Rightarrow> poller \<Rightarrow> poller" where
  "poll env cfg p0 =
     (let p = refresh_ca env cfg p0
      in case cached_client env cfg (p_client p) of
           (cl, cc) \<Rightarrow>
             (let p1 = p\<lparr>p_client := cc\<rparr>
              in case fetched env cfg cl of
                   Inr new \<Rightarrow>
                     p1\<lparr>p_table := new, p_said := None,
                        p_metrics := gauge_set (inc (p_metrics p1) ''stormlb_router_route_refreshes_total'' [(''result'', ''ok'')])
                          ''stormlb_router_routes'' [] (word_of_nat (card (dom new)))\<rparr>
                 | Inl e \<Rightarrow>
                     p1\<lparr>p_said := Some e,
                        p_metrics := inc (p_metrics p1) ''stormlb_router_route_refreshes_total'' [(''result'', ''error'')]\<rparr>))"

definition poll_pause :: "router_cfg \<Rightarrow> nat" where
  "poll_pause cfg = unat (max (poll_secs cfg) 1)"

definition polls :: "router_cfg \<Rightarrow> metrics \<Rightarrow> api_env list \<Rightarrow> poller" where
  "polls cfg m envs = foldl (\<lambda>p env. poll env cfg p) (poller_new m) envs"

subsection \<open>Which route serves a host\<close>

definition serves ::
  "(string \<Rightarrow> (poll_error, json) result) \<Rightarrow> string \<Rightarrow> json \<Rightarrow> string \<Rightarrow> route_backend \<Rightarrow> bool"
where
  "serves get api r h b \<longleftrightarrow>
     route_backend_of get api r = Inr b \<and> (\<exists>s. JStr s \<in> set (hostnames r) \<and> to_lower s = h)"

lemma as_str_Some [simp]: "as_str v = Some s \<longleftrightarrow> v = JStr s"
  by (cases v) (simp_all add: as_str_def)

lemma as_str_simps [simp]: "as_str (JStr s) = Some s" "as_str JNull = None"
  by (simp_all add: as_str_def)

lemma foldl_add_host:
  "foldl (add_host b) t hs h = (if \<exists>s. JStr s \<in> set hs \<and> to_lower s = h then Some b else t h)"
proof (induction hs arbitrary: t)
  case (Cons v hs)
  have "add_host b t v h = (if \<exists>s. v = JStr s \<and> to_lower s = h then Some b else t h)" for t
    by (cases v) (auto simp: add_host_def as_str_def)
  then show ?case using Cons.IH by auto
qed simp

lemma add_route_at:
  "add_route get api t r h = Some b \<longleftrightarrow> serves get api r h b \<or> t h = Some b \<and> (\<forall>b'. \<not> serves get api r h b')"
  by (auto simp: add_route_def serves_def foldl_add_host split: sum.splits)

lemma foldl_add_route:
  "foldl (add_route get api) Map.empty rs h = Some b \<longleftrightarrow>
     (\<exists>before r after. rs = before @ r # after \<and> serves get api r h b \<and> (\<forall>r' \<in> set after. \<forall>b'. \<not> serves get api r' h b'))"
proof (induction rs arbitrary: b rule: rev_induct)
  case (snoc x rs)
  have "(\<exists>before r after. rs @ [x] = before @ r # after \<and> serves get api r h b
          \<and> (\<forall>r' \<in> set after. \<forall>b'. \<not> serves get api r' h b'))
    \<longleftrightarrow> serves get api x h b \<or> (\<forall>b'. \<not> serves get api x h b')
        \<and> (\<exists>before r after. rs = before @ r # after \<and> serves get api r h b
             \<and> (\<forall>r' \<in> set after. \<forall>b'. \<not> serves get api r' h b'))"
    (is "?all \<longleftrightarrow> ?last \<or> ?none \<and> ?earlier")
  proof
    assume ?all
    then obtain before r after where *: "rs @ [x] = before @ r # after" "serves get api r h b"
      "\<forall>r' \<in> set after. \<forall>b'. \<not> serves get api r' h b'" by blast
    then show "?last \<or> ?none \<and> ?earlier"
      by (cases after rule: rev_cases) auto
  next
    assume "?last \<or> ?none \<and> ?earlier"
    then show ?all
    proof
      assume ?last
      then show ?all by (intro exI [of _ rs] exI [of _ x] exI [of _ "[]"]) simp
    next
      assume "?none \<and> ?earlier"
      then obtain before r after where "rs = before @ r # after" "serves get api r h b"
        "\<forall>r' \<in> set after. \<forall>b'. \<not> serves get api r' h b'" and ?none by blast
      then show ?all by (intro exI [of _ before] exI [of _ r] exI [of _ "after @ [x]"]) auto
    qed
  qed
  then show ?case
    by (simp only: foldl_append foldl.simps add_route_at snoc) blast
qed simp

text \<open>C19: The route table is the routes' meaning: a host is in it exactly when a usable route lists it, in
  any case, and its backend is that of the last such route; a route whose backend cannot be found, or
  whose protocol annotation is neither http nor https, takes no part.\<close>

theorem last_usable_route_wins:
  assumes "get (api @ ''/apis/gateway.networking.k8s.io/v1/httproutes'') = Inr l" and "fetch_table get api = Inr t"
  shows "t h = Some b \<longleftrightarrow>
    (\<exists>before r after. as_list (at_key l ''items'') = before @ r # after
      \<and> route_backend_of get api r = Inr b \<and> (\<exists>s. JStr s \<in> set (hostnames r) \<and> to_lower s = h)
      \<and> (\<forall>r' \<in> set after. \<forall>b'. \<not> serves get api r' h b'))"
  using assms foldl_add_route [of get api "as_list (at_key l ''items'')" h b]
  by (auto simp: fetch_table_def serves_def)

subsection \<open>What the poll loop trusts\<close>

text \<open>A client as the configuration asks for it, from what the CA file held at one of the polls.\<close>

definition trust_from :: "router_cfg \<Rightarrow> api_env set \<Rightarrow> api_trust \<Rightarrow> bool" where
  "trust_from cfg envs c \<longleftrightarrow>
     (case api_ca_file cfg of
        None \<Rightarrow> c = (if insecure cfg then AnyPeer else SystemRoots)
      | Some f \<Rightarrow> (\<exists>env \<in> envs. \<exists>pem cs. file_bytes env f = Inr pem \<and> bundle_of env pem = Inr cs \<and> cs \<noteq> []
                  \<and> c = OnlyRoots cs))"

lemma trust_from_mono: "trust_from cfg envs c \<Longrightarrow> trust_from cfg (insert env envs) c"
  by (auto simp: trust_from_def split: option.splits)

lemma api_client_trust: "api_client env cfg = Inr c \<Longrightarrow> trust_from cfg (insert env envs) c"
  by (auto simp: api_client_def trust_from_def rbind_def ensure_def Let_def split: option.splits sum.splits if_splits)

lemma cached_client_trust:
  assumes "\<And>c. cached cc = Some c \<Longrightarrow> trust_from cfg envs c" and "cached_client env cfg cc = (r, cc')"
  shows "r = Inr c \<Longrightarrow> trust_from cfg (insert env envs) c"
    and "cached cc' = Some c \<Longrightarrow> trust_from cfg (insert env envs) c"
  using assms api_client_trust [of env cfg _ envs] trust_from_mono [of cfg envs _ env]
  by (auto simp: cached_client_def Let_def split: option.splits sum.splits if_splits)

definition poller_ok :: "router_cfg \<Rightarrow> api_env set \<Rightarrow> poller \<Rightarrow> bool" where
  "poller_ok cfg envs p \<longleftrightarrow>
     (\<forall>c. cached (p_client p) = Some c \<longrightarrow> trust_from cfg envs c)
   \<and> (p_table p \<noteq> Map.empty \<longrightarrow> (\<exists>env \<in> envs. \<exists>c token. trust_from cfg envs c \<and> read_token env cfg = Inr token
        \<and> fetch_table (api_get env c token) (apiserver cfg) = Inr (p_table p)))
   \<and> (\<forall>roots. p_trusted p = Some roots \<longrightarrow>
        (\<exists>env \<in> envs. \<exists>f. backend_ca_file cfg = Some f \<and> upstream_connector env f = Inr roots))"

lemma refresh_ca_ok:
  assumes "poller_ok cfg envs p"
  shows "poller_ok cfg (insert env envs) (refresh_ca env cfg p)"
  using assms trust_from_mono [of cfg envs _ env]
  unfolding poller_ok_def refresh_ca_def ca_reload_def Let_def
  by (fastforce split: option.splits sum.splits if_splits)

lemma poll_ok:
  assumes "poller_ok cfg envs p"
  shows "poller_ok cfg (insert env envs) (poll env cfg p)"
proof -
  let ?p = "refresh_ca env cfg p" and ?envs = "insert env envs"
  have p: "poller_ok cfg ?envs ?p" by (rule refresh_ca_ok [OF assms])
  obtain cl cc where c: "cached_client env cfg (p_client ?p) = (cl, cc)"
    by (rule prod.exhaust)
  have "\<And>c. cached (p_client ?p) = Some c \<Longrightarrow> trust_from cfg ?envs c"
    using p by (simp add: poller_ok_def)
  note trust = cached_client_trust [OF this c, simplified]
  show ?thesis
    using p trust
    by (auto simp: poll_def c poller_ok_def fetched_def rbind_def Let_def split: sum.splits)
qed

lemma polls_ok: "poller_ok cfg (set envs) (polls cfg m envs)"
proof (induction envs rule: rev_induct)
  case Nil
  then show ?case by (simp add: polls_def poller_new_def poller_ok_def)
next
  case (snoc env envs)
  from poll_ok [OF this, of env] show ?case by (simp add: polls_def)
qed

text \<open>The routes are the apiserver's word, and it is verified: with a CA file configured, after any
  number of polls (whatever the files and the network did in each) every route in the table was read,
  in one of these polls and with its token, from a peer verified against the certificates the CA file
  held at one of them; unverified peers are never asked.  Likewise the roots that TLS backends are
  verified against are what the backend CA file held at one of the polls.\<close>

theorem routes_come_from_the_verified_apiserver:
  assumes "api_ca_file cfg = Some f" and "p_table (polls cfg m envs) h = Some b"
  shows "\<exists>env \<in> set envs. \<exists>env' \<in> set envs. \<exists>pem cs token.
      file_bytes env' f = Inr pem \<and> bundle_of env' pem = Inr cs \<and> cs \<noteq> [] \<and> read_token env cfg = Inr token
    \<and> fetch_table (api_get env (OnlyRoots cs) token) (apiserver cfg) = Inr (p_table (polls cfg m envs))
    \<and> (\<forall>roots. p_trusted (polls cfg m envs) = Some roots \<longrightarrow>
         (\<exists>env \<in> set envs. \<exists>g. backend_ca_file cfg = Some g \<and> upstream_connector env g = Inr roots))"
proof -
  have "p_table (polls cfg m envs) \<noteq> Map.empty" using assms(2) by auto
  with polls_ok [of cfg envs m] obtain env c token where
    "env \<in> set envs" "trust_from cfg (set envs) c" "read_token env cfg = Inr token"
    "fetch_table (api_get env c token) (apiserver cfg) = Inr (p_table (polls cfg m envs))"
    unfolding poller_ok_def by blast
  then show ?thesis
    using assms(1) polls_ok [of cfg envs m] unfolding trust_from_def poller_ok_def by fastforce
qed

text \<open>A poll that fails takes nothing down: the table stays as it was, and so do the roots for TLS
  backends once they are loaded, whatever happens to their file.\<close>

theorem failed_poll_keeps_serving:
  assumes "fetched env cfg (fst (cached_client env cfg (p_client p))) = Inl e"
  shows "p_table (poll env cfg p) = p_table p
    \<and> (p_trusted p \<noteq> None \<longrightarrow> p_trusted (poll env cfg p) \<noteq> None)
    \<and> (\<forall>f. backend_ca_file cfg = Some f \<and> upstream_connector env f = Inl e' \<longrightarrow>
         p_trusted (poll env cfg p) = p_trusted p)"
proof -
  have same: "p_client (refresh_ca env cfg p) = p_client p" "p_table (refresh_ca env cfg p) = p_table p"
    by (auto simp: refresh_ca_def split: option.splits prod.splits)
  obtain cl cc where c: "cached_client env cfg (p_client p) = (cl, cc)"
    by (rule prod.exhaust)
  have "p_trusted (poll env cfg p) = p_trusted (refresh_ca env cfg p)" "p_table (poll env cfg p) = p_table p"
    using assms by (simp_all add: poll_def same c Let_def)
  then show ?thesis
    by (auto simp: refresh_ca_def ca_reload_def Let_def split: option.splits sum.splits if_splits)
qed

subsection \<open>Witnesses\<close>

definition demo_route :: "string \<Rightarrow> string \<Rightarrow> json" where
  "demo_route host backend =
     JObj [(''metadata'', JObj [(''annotations'', JObj [(''storm.io/backend'', JStr backend)])]),
           (''spec'', JObj [(''hostnames'', JArr [JStr host])])]"

definition demo_list :: json where
  "demo_list = JObj [(''items'', JArr [demo_route ''App.test'' ''127.0.0.1:1'', demo_route ''app.test'' ''127.0.0.1:2''])]"

definition demo_cfg :: router_cfg where
  "demo_cfg = \<lparr>router_listen = ''auto:80'', apiserver = ''https://127.0.0.1:6443'', poll_secs = 5, insecure = True,
     api_ca_file = Some ''ca.crt'', token_file = None, router_tls = None, backend_ca_file = Some ''ca.crt''\<rparr>"

definition demo_api :: "bool \<Rightarrow> api_env" where
  "demo_api up =
     \<lparr>file_bytes = (\<lambda>f. if up then Inr [7] else Inl ''gone''), file_text = (\<lambda>_. Inl ''gone''), file_mtime = (\<lambda>_. Some 1),
      bundle_of = (\<lambda>b. Inr [b]), roots_in = (\<lambda>_. if up then Inr [Inr [7]] else Inl ''gone''), usable_root = (\<lambda>_. Inr ()),
      client_builds = (\<lambda>_. Inr ()),
      api_send = (\<lambda>t _ _. if up \<and> t = OnlyRoots [[7]] then Inr \<lparr>resp_status = 200, resp_json = Inr demo_list\<rparr> else Inl ''refused'')\<rparr>"

lemma demo_api [simp]:
  "file_bytes (demo_api True) f = Inr [7]" "file_mtime (demo_api up) f = Some 1"
  "bundle_of (demo_api up) b = Inr [b]" "roots_in (demo_api True) f = Inr [Inr [7]]"
  "usable_root (demo_api up) b = Inr ()" "client_builds (demo_api up) t = Inr ()"
  by (simp_all add: demo_api_def)

lemma demo_backend: "route_backend_of get api (demo_route h b) = Inr \<lparr>rb_addr = b, rb_tls = None\<rparr>"
  by (simp add: route_backend_of_def backend_of_def with_protocol_def annotation_def at_key_def demo_route_def)

lemma demo_hostnames: "hostnames (demo_route h b) = [JStr h]"
  by (simp add: hostnames_def at_key_def as_list_def demo_route_def)

lemma demo_items: "as_list (at_key demo_list ''items'') = [demo_route ''App.test'' ''127.0.0.1:1'', demo_route ''app.test'' ''127.0.0.1:2'']"
  by (simp add: at_key_def as_list_def demo_list_def)

lemma demo_lower: "to_lower ''App.test'' = ''app.test''" "to_lower ''app.test'' = ''app.test''"
  by code_simp+

lemma demo_fetch:
  "get (api @ ''/apis/gateway.networking.k8s.io/v1/httproutes'') = Inr demo_list \<Longrightarrow>
     fetch_table get api = Inr [''app.test'' \<mapsto> \<lparr>rb_addr = ''127.0.0.1:2'', rb_tls = None\<rparr>]"
  by (simp add: fetch_table_def demo_items add_route_def demo_backend demo_hostnames add_host_def demo_lower)

lemma last_usable_route_wins_witness:
  "the (projr (fetch_table (\<lambda>_. Inr demo_list) ''x'') ''app.test'') = \<lparr>rb_addr = ''127.0.0.1:2'', rb_tls = None\<rparr>"
proof -
  let ?b = "\<lparr>rb_addr = ''127.0.0.1:2'', rb_tls = None\<rparr>"
  have "(\<lambda>_. Inr demo_list) (''x'' @ ''/apis/gateway.networking.k8s.io/v1/httproutes'') = Inr demo_list" by simp
  note wins = last_usable_route_wins [OF this demo_fetch [OF this], of "''app.test''" ?b]
  have "[''app.test'' \<mapsto> ?b] ''app.test'' = Some ?b"
    by (rule wins [THEN iffD2], intro exI [of _ "[demo_route ''App.test'' ''127.0.0.1:1'']"]
          exI [of _ "demo_route ''app.test'' ''127.0.0.1:2''"] exI [of _ "[]"])
       (simp add: demo_items demo_backend demo_hostnames demo_lower)
  then show ?thesis by (simp add: demo_fetch)
qed

lemma demo_table: "p_table (polls demo_cfg m [demo_api True]) ''app.test'' = Some \<lparr>rb_addr = ''127.0.0.1:2'', rb_tls = None\<rparr>"
proof -
  have "api_get (demo_api True) (OnlyRoots [[7]]) None url = Inr demo_list" for url
    by (simp add: api_get_def demo_api_def map_err_def)
  then have "fetch_table (api_get (demo_api True) (OnlyRoots [[7]]) None) ''https://127.0.0.1:6443''
      = Inr [''app.test'' \<mapsto> \<lparr>rb_addr = ''127.0.0.1:2'', rb_tls = None\<rparr>]"
    by (rule demo_fetch)
  then show ?thesis
    by (simp add: polls_def poller_new_def poll_def refresh_ca_def demo_cfg_def ca_reload_def cached_client_def
        fetched_def api_client_def read_token_def map_err_def upstream_connector_def ensure_def Let_def)
qed

lemma routes_come_from_the_verified_apiserver_witness:
  "\<exists>cs. fetch_table (api_get (demo_api True) (OnlyRoots cs) None) ''https://127.0.0.1:6443''
     = Inr (p_table (polls demo_cfg metrics_empty [demo_api True]))"
proof -
  have "api_ca_file demo_cfg = Some ''ca.crt''" by (simp add: demo_cfg_def)
  from routes_come_from_the_verified_apiserver [OF this demo_table] obtain cs token where
    "read_token (demo_api True) demo_cfg = Inr token"
    "fetch_table (api_get (demo_api True) (OnlyRoots cs) token) (apiserver demo_cfg)
       = Inr (p_table (polls demo_cfg metrics_empty [demo_api True]))"
    by fastforce
  then show ?thesis by (auto simp: read_token_def demo_cfg_def)
qed

lemma failed_poll_keeps_serving_witness:
  "p_table (poll (demo_api False) demo_cfg (polls demo_cfg metrics_empty [demo_api True])) ''app.test''
     = Some \<lparr>rb_addr = ''127.0.0.1:2'', rb_tls = None\<rparr>"
proof -
  let ?p = "polls demo_cfg metrics_empty [demo_api True]"
  obtain cl cc where c: "cached_client (demo_api False) demo_cfg (p_client ?p) = (cl, cc)"
    by (rule prod.exhaust)
  have "\<exists>e. fetched (demo_api False) demo_cfg cl = Inl e"
    by (cases cl) (auto simp: fetched_def read_token_def demo_cfg_def fetch_table_def api_get_def demo_api_def map_err_def)
  then obtain e where "fetched (demo_api False) demo_cfg (fst (cached_client (demo_api False) demo_cfg (p_client ?p))) = Inl e"
    by (auto simp: c)
  from failed_poll_keeps_serving [OF this] show ?thesis by (simp add: demo_table)
qed

end
