(* ===== verification/Router_Listen.thy ===== *)
theory Router_Listen
  imports Router_Conn
begin

text \<open>
  \<open>src/router.rs\<close>, what \<open>run\<close> listens on: the addresses that \<open>auto\<close> stands for, binding them, and the
  front each listener serves.  The address the routing table answers and the binding of a listener
  are parameters; a listener is the address it is bound to.  The table and the backend roots are
  shared by all fronts, so a front is given for what they hold at the time.
\<close>

subsection \<open>Addresses\<close>

record net_world =
  route_ip :: "string option"
  binds :: "string \<Rightarrow> (string, unit) result"

text \<open>\<open>listen.rsplit(':').next()\<close>.\<close>

definition after_colon :: "string \<Rightarrow> string" where
  "after_colon s = (case rsplit_once (CHR '':'') s of None \<Rightarrow> s | Some (_, p) \<Rightarrow> p)"

definition begins :: "string \<Rightarrow> string \<Rightarrow> bool" where
  "begins p s \<longleftrightarrow> strip_prefix p s \<noteq> None"

text \<open>Loopback, link-local and no address are not the node's.\<close>

definition not_ours :: "string \<Rightarrow> bool" where
  "not_ours ip \<longleftrightarrow> begins ''127.'' ip \<or> begins ''169.254.'' ip \<or> ip = ''0.0.0.0''"

definition bind_addrs :: "net_world \<Rightarrow> string \<Rightarrow> string list option" where
  "bind_addrs w listen =
     (if \<not> begins ''auto'' listen then None
      else (case route_ip w of
              None \<Rightarrow> None
            | Some ip \<Rightarrow>
                (if not_ours ip then None
                 else Some [ip @ '':'' @ after_colon listen, ''127.0.0.1:'' @ after_colon listen])))"

text \<open>All the addresses that can be bound; the last error when there is none.\<close>

fun bind_all :: "net_world \<Rightarrow> string list \<Rightarrow> string list \<Rightarrow> string option \<Rightarrow> (string, string list) result option" where
  "bind_all w [] ls err =
     (if ls \<noteq> [] then Some (Inr ls) else map_option Inl err)"
| "bind_all w (a # as) ls err =
     (case binds w a of
        Inr _ \<Rightarrow> bind_all w as (ls @ [a]) err
      | Inl e \<Rightarrow> bind_all w as ls (Some e))"

definition bind_one :: "net_world \<Rightarrow> string \<Rightarrow> (string, string list) result" where
  "bind_one w a = rbind (binds w a) (\<lambda>_. Inr [a])"

text \<open>\<open>None\<close> is the panic of \<open>last.expect\<close>.\<close>

definition bind_listeners :: "net_world \<Rightarrow> string \<Rightarrow> (string, string list) result option" where
  "bind_listeners w listen =
     (case bind_addrs w listen of
        Some addrs \<Rightarrow> bind_all w addrs [] None
      | None \<Rightarrow>
          (if begins ''auto'' listen then Some (bind_one w (''0.0.0.0:'' @ after_colon listen))
           else Some (bind_one w listen)))"

subsection \<open>The fronts\<close>

datatype served = Plain string front | Tls string front

definition redirect_to :: "string \<Rightarrow> u16" where
  "redirect_to listen =
     (case parse_uint (2 ^ 16) (after_colon listen) of Some p \<Rightarrow> word_of_nat p | None \<Rightarrow> 443)"

text \<open>The TLS side: its listeners, and whether plain clients are sent to it.\<close>

definition serve_tls ::
  "net_world \<Rightarrow> certs \<Rightarrow> (string \<rightharpoonup> route_backend) \<Rightarrow> bytes list option \<Rightarrow> tls_cfg
     \<Rightarrow> (served list \<times> (certs \<times> u16) option) option"
where
  "serve_tls w cs tbl roots t =
     (case bind_listeners w (tls_listen t) of
        None \<Rightarrow> None
      | Some (Inl _) \<Rightarrow> Some ([], None)
      | Some (Inr ls) \<Rightarrow>
          Some (map (\<lambda>a. Tls a \<lparr>table = tbl, trusted = roots, redirect = None\<rparr>) ls,
                if tls_redirect t then Some (cs, redirect_to (tls_listen t)) else None))"

text \<open>\<open>run\<close>, up to serving: the plain listeners must bind, the TLS ones need not.  \<open>None\<close> is a panic,
  here or at \<open>plain.remove(0)\<close>.\<close>

definition router_run ::
  "net_world \<Rightarrow> router_cfg \<Rightarrow> certs \<Rightarrow> (string \<rightharpoonup> route_backend) \<Rightarrow> bytes list option
     \<Rightarrow> (string, served list) result option"
where
  "router_run w cfg cs tbl roots =
     (case bind_listeners w (router_listen cfg) of
        None \<Rightarrow> None
      | Some (Inl e) \<Rightarrow> Some (Inl e)
      | Some (Inr plain) \<Rightarrow>
          (case (case router_tls cfg of None \<Rightarrow> Some ([], None) | Some t \<Rightarrow> serve_tls w cs tbl roots t) of
             None \<Rightarrow> None
           | Some (tls, red) \<Rightarrow>
               (if plain = [] then None
                else Some (Inr (tls
                   @ map (\<lambda>a. Plain a \<lparr>table = tbl, trusted = roots, redirect = red\<rparr>) plain)))))"

subsection \<open>What is bound\<close>

lemma after_colon_auto: "CHR '':'' \<notin> set p \<Longrightarrow> after_colon (h @ CHR '':'' # p) = p"
  using rsplit_once_Some [of "CHR '':''" "h @ CHR '':'' # p" h p] by (simp add: after_colon_def)

lemma bind_all_binds:
  assumes "bind_all w as ls err = Some (Inr ls')" and "\<forall>a \<in> set ls. binds w a = Inr ()"
  shows "ls' \<noteq> [] \<and> set ls' \<subseteq> set ls \<union> set as \<and> (\<forall>a \<in> set ls'. binds w a = Inr ())"
  using assms
proof (induction w "as" ls err rule: bind_all.induct)
  case (1 w ls err)
  then show ?case by (cases err) (auto split: if_splits)
next
  case (2 w a "as" ls err)
  show ?case
  proof (cases "binds w a")
    case (Inl e)
    with "2.IH"(1) [OF Inl] "2.prems" show ?thesis by auto
  next
    case (Inr u)
    with "2.IH"(2) [OF Inr] "2.prems" show ?thesis by auto
  qed
qed

lemma bind_all_returns: "as \<noteq> [] \<or> ls \<noteq> [] \<or> err \<noteq> None \<Longrightarrow> bind_all w as ls err \<noteq> None"
  by (induction w "as" ls err rule: bind_all.induct) (auto split: sum.split)

lemma bind_all_error: "bind_all w as ls err = Some (Inl e) \<Longrightarrow> err = Some e \<or> (\<exists>a \<in> set as. binds w a = Inl e)"
  by (induction w "as" ls err rule: bind_all.induct) (auto split: sum.splits if_splits)

lemma bind_listeners_returns: "bind_listeners w listen \<noteq> None"
  unfolding bind_listeners_def
proof (cases "bind_addrs w listen")
  case (Some addrs)
  then have "addrs \<noteq> []" by (auto simp: bind_addrs_def split: if_splits option.splits)
  then show "(case bind_addrs w listen of
      None \<Rightarrow> if begins ''auto'' listen then Some (bind_one w (''0.0.0.0:'' @ after_colon listen))
        else Some (bind_one w listen)
    | Some addrs \<Rightarrow> bind_all w addrs [] None) \<noteq> None"
    using Some bind_all_returns [of addrs "[]" None w] by simp
qed simp

text \<open>
  A door for \<open>listen\<close>: bound, and where \<open>listen\<close> says; with \<open>auto:port\<close> at that port on loopback, on the
  wildcard or on the address the routing table answers, which is not link-local.
\<close>

definition door_at :: "net_world \<Rightarrow> string \<Rightarrow> string \<Rightarrow> bool" where
  "door_at w listen a \<longleftrightarrow> binds w a = Inr ()
     \<and> (if begins ''auto'' listen
        then (\<exists>h. a = h @ '':'' @ after_colon listen \<and> \<not> begins ''169.254.'' h
                \<and> h \<in> {''127.0.0.1'', ''0.0.0.0''} \<union> set_option (route_ip w))
        else a = listen)"

lemma no_link_local [simp]:
  "\<not> begins ''169.254.'' ''127.0.0.1''" "\<not> begins ''169.254.'' ''0.0.0.0''"
  by (simp_all add: begins_def)

lemma bind_listeners_doors:
  assumes "bind_listeners w listen = Some (Inr ls)"
  shows "ls \<noteq> [] \<and> (\<forall>a \<in> set ls. door_at w listen a)"
proof (cases "bind_addrs w listen")
  case None
  show ?thesis
  proof (cases "begins ''auto'' listen")
    case True
    with assms None have "ls = [''0.0.0.0'' @ '':'' @ after_colon listen] \<and> binds w (hd ls) = Inr ()"
      by (auto simp: bind_listeners_def bind_one_def rbind_eq_Inr)
    then show ?thesis using True no_link_local(2) unfolding door_at_def by fastforce
  next
    case False
    with assms None show ?thesis
      by (auto simp: bind_listeners_def bind_one_def rbind_eq_Inr door_at_def)
  qed
next
  case (Some addrs)
  then have "bind_all w addrs [] None = Some (Inr ls)"
    using assms by (simp add: bind_listeners_def)
  from bind_all_binds [OF this] have bound: "ls \<noteq> []" "set ls \<subseteq> set addrs" "\<forall>a \<in> set ls. binds w a = Inr ()"
    by simp_all
  obtain ip where ip: "begins ''auto'' listen" "route_ip w = Some ip" "\<not> begins ''169.254.'' ip"
    and addrs: "addrs = [ip @ '':'' @ after_colon listen, ''127.0.0.1'' @ '':'' @ after_colon listen]"
    using Some by (auto simp: bind_addrs_def not_ours_def split: if_splits option.splits)
  have "door_at w listen a" if "a \<in> set ls" for a
  proof -
    have "binds w a = Inr ()" using bound(3) that by blast
    moreover have "\<exists>h \<in> {ip, ''127.0.0.1''}. a = h @ '':'' @ after_colon listen"
      using bound(2) that addrs by auto
    ultimately show ?thesis
      using ip no_link_local(1) unfolding door_at_def by (simp only: if_True) blast
  qed
  with bound(1) show ?thesis by blast
qed

subsection \<open>The property\<close>

definition door_ok :: "net_world \<Rightarrow> router_cfg \<Rightarrow> served list \<Rightarrow> served \<Rightarrow> bool" where
  "door_ok w cfg ds d \<longleftrightarrow>
     (case d of
        Plain a f \<Rightarrow> door_at w (router_listen cfg) a \<and> (redirect f = None \<or> (\<exists>b g. Tls b g \<in> set ds))
      | Tls a f \<Rightarrow> redirect f = None
          \<and> (case router_tls cfg of None \<Rightarrow> False | Some t \<Rightarrow> door_at w (tls_listen t) a))"

lemma serve_tls_returns: "\<exists>tls red. serve_tls w cs tbl roots t = Some (tls, red)"
proof -
  obtain r where "bind_listeners w (tls_listen t) = Some r"
    using bind_listeners_returns by blast
  then show ?thesis by (cases r) (simp_all add: serve_tls_def)
qed

lemma serve_tls_doors:
  assumes "serve_tls w cs tbl roots t = Some (tls, red)" and "router_tls cfg = Some t"
  shows "(red = None \<or> tls \<noteq> []) \<and> (\<forall>d \<in> set tls. (\<exists>b g. d = Tls b g) \<and> door_ok w cfg ds d)"
  using assms bind_listeners_doors [of w "tls_listen t"]
  by (auto simp: serve_tls_def door_ok_def split: option.splits sum.splits)

text \<open>C36: The router's front doors.  Starting it never panics and fails only when no plain listener can be
  bound, whatever becomes of TLS.  When it serves, it has a plain door, every door is bound and where
  the configuration says (with \<open>auto:port\<close> never at a link-local address nor at the word itself),
  a TLS door never redirects, and a plain one only when there is a TLS door.\<close>

theorem router_front_doors:
  "case router_run w cfg cs tbl roots of
     None \<Rightarrow> False
   | Some (Inl e) \<Rightarrow> bind_listeners w (router_listen cfg) = Some (Inl e)
   | Some (Inr ds) \<Rightarrow> (\<exists>a f. Plain a f \<in> set ds) \<and> list_all (door_ok w cfg ds) ds"
proof -
  obtain r where r: "bind_listeners w (router_listen cfg) = Some r"
    using bind_listeners_returns by blast
  show ?thesis
  proof (cases r)
    case (Inl e)
    with r show ?thesis by (simp add: router_run_def)
  next
    case (Inr plain)
    note doors = bind_listeners_doors [OF r [unfolded Inr]]
    obtain tls red where tls: "(case router_tls cfg of None \<Rightarrow> Some ([], None)
        | Some t \<Rightarrow> serve_tls w cs tbl roots t) = Some (tls, red)"
    proof (cases "router_tls cfg")
      case (Some t)
      then show ?thesis using that serve_tls_returns [of w cs tbl roots t] by force
    qed (use that in simp)
    let ?ds = "tls @ map (\<lambda>a. Plain a \<lparr>table = tbl, trusted = roots, redirect = red\<rparr>) plain"
    have run: "router_run w cfg cs tbl roots = Some (Inr ?ds)"
      using r Inr doors tls by (simp add: router_run_def)
    have side: "(red = None \<or> (\<exists>b g. Tls b g \<in> set ?ds)) \<and> (\<forall>d \<in> set tls. door_ok w cfg ?ds d)"
    proof (cases "router_tls cfg")
      case None
      with tls show ?thesis by simp
    next
      case (Some t)
      with tls have "serve_tls w cs tbl roots t = Some (tls, red)" by simp
      from serve_tls_doors [OF this Some, of ?ds] show ?thesis by (cases tls) auto
    qed
    have "list_all (door_ok w cfg ?ds) ?ds"
      using side doors by (auto simp: list_all_iff door_ok_def)
    then show ?thesis
      using doors run by (cases plain) auto
  qed
qed

end
