(* ===== verification/Router_System.thy ===== *)
theory Router_System
  imports Router_Table Router_Listen
begin

text \<open>
  The running router: what \<open>run\<close> of \<open>src/router.rs\<close> starts, the loop that polls the routes, the one that
  reloads the certificates (\<open>src/tls.rs\<close>) and the tasks of the connections, shares the route table, the
  roots for TLS backends and the certificates.  A connection reads each of these once, at its own time,
  and the others move between: it may be decided by one poll's table and verify its backend against
  roots that a later poll has loaded.  The steps are a relation; the properties hold of every run.

  The metrics are not threaded through: no decision of the router reads them.
\<close>

subsection \<open>State and steps\<close>

text \<open>How far a connection is: a client is there; \<open>front.table.read()\<close> has answered; \<open>certs.count()\<close> has
  been compared, too.  The connector for TLS backends is taken last.\<close>

datatype stage =
  Taken | LookedUp "string \<rightharpoonup> route_backend" | Decided "string \<rightharpoonup> route_backend" "(certs \<times> u16) option"

record router_sys =
  s_poller :: poller
  s_certs :: certs
  s_conns :: "(nat \<times> served \<times> stage) list"
  s_next :: nat

datatype router_event =
    Polled api_env | Reloaded tls_files | Opened nat served | Handshaken "string option" chain_key
  | Served nat served upstream_world "read list" "conn_action list" | Silent

definition opened :: "router_sys \<Rightarrow> served \<Rightarrow> router_sys" where
  "opened s d = s\<lparr>s_conns := s_conns s @ [(s_next s, d, Taken)], s_next := s_next s + 1\<rparr>"

fun front_of :: "served \<Rightarrow> front" where
  "front_of (Plain a f) = f"
| "front_of (Tls a f) = f"

text \<open>A front redirects by the certificates as they are now, to the port it was given.\<close>

definition redirect_now :: "router_sys \<Rightarrow> served \<Rightarrow> (certs \<times> u16) option" where
  "redirect_now s d = map_option (\<lambda>(_, port). (s_certs s, port)) (redirect (front_of d))"

fun serve_at :: "served \<Rightarrow> upstream_world \<Rightarrow> front \<Rightarrow> read list \<Rightarrow> metrics \<Rightarrow> conn_result" where
  "serve_at (Plain a g) w f input m = serve_http w f input m"
| "serve_at (Tls a g) w f input m = serve_https w f True input m"

inductive router_step ::
  "tls_lib \<Rightarrow> router_cfg \<Rightarrow> served list \<Rightarrow> router_sys \<Rightarrow> router_event \<Rightarrow> router_sys \<Rightarrow> bool"
  for lib cfg doors
where
  poll: "router_step lib cfg doors s (Polled env) (s\<lparr>s_poller := poll env cfg (s_poller s)\<rparr>)"
| reload: "reload lib fs (s_certs s) m = (k, c, m') \<Longrightarrow> router_step lib cfg doors s (Reloaded fs) (s\<lparr>s_certs := c\<rparr>)"
| plain: "Plain a f \<in> set doors \<Longrightarrow> router_step lib cfg doors s (Opened (s_next s) (Plain a f)) (opened s (Plain a f))"
| secure: "Tls a f \<in> set doors \<Longrightarrow> pick_pair lib (s_certs s) sni = Some key \<Longrightarrow>
     router_step lib cfg doors s (Handshaken sni key) (opened s (Tls a f))"
| look_up: "s_conns s = xs @ (n, d, Taken) # ys \<Longrightarrow>
     router_step lib cfg doors s Silent (s\<lparr>s_conns := xs @ (n, d, LookedUp (p_table (s_poller s))) # ys\<rparr>)"
| decide: "s_conns s = xs @ (n, d, LookedUp t) # ys \<Longrightarrow>
     router_step lib cfg doors s Silent (s\<lparr>s_conns := xs @ (n, d, Decided t (redirect_now s d)) # ys\<rparr>)"
| serve: "s_conns s = xs @ (n, d, Decided t r) # ys \<Longrightarrow>
     serve_at d w \<lparr>table = t, trusted = p_trusted (s_poller s), redirect = r\<rparr> input m = (acts, m', e) \<Longrightarrow>
     router_step lib cfg doors s (Served n d w input acts) (s\<lparr>s_conns := xs @ ys\<rparr>)"

text \<open>Runs, the newest event first.\<close>

inductive router_runs ::
  "tls_lib \<Rightarrow> router_cfg \<Rightarrow> served list \<Rightarrow> router_sys \<Rightarrow> router_event list \<Rightarrow> router_sys \<Rightarrow> bool"
  for lib cfg doors s\<^sub>0
where
  started: "router_runs lib cfg doors s\<^sub>0 [] s\<^sub>0"
| stepped: "router_runs lib cfg doors s\<^sub>0 es s \<Longrightarrow> router_step lib cfg doors s e t \<Longrightarrow>
     router_runs lib cfg doors s\<^sub>0 (e # es) t"

text \<open>\<open>run\<close> starts with no routes and no roots, and with what the certificates' files hold.\<close>

definition router_start :: "tls_lib \<Rightarrow> router_cfg \<Rightarrow> tls_files \<Rightarrow> metrics \<Rightarrow> router_sys" where
  "router_start lib cfg fs m =
     \<lparr>s_poller = poller_new m,
      s_certs = fst (certs_new lib fs (case router_tls cfg of None \<Rightarrow> [] | Some t \<Rightarrow> tls_certs t) m),
      s_conns = [], s_next = 0\<rparr>"

subsection \<open>Where the tables come from\<close>

definition polled :: "router_event list \<Rightarrow> api_env set" where
  "polled es = {env. Polled env \<in> set es}"

lemma polled_simps [simp]:
  "polled [] = {}" "polled (Polled env # es) = insert env (polled es)" "polled (Reloaded fs # es) = polled es"
  "polled (Opened n d # es) = polled es" "polled (Handshaken sni key # es) = polled es"
  "polled (Served n d w input acts # es) = polled es" "polled (Silent # es) = polled es"
  by (auto simp: polled_def)

text \<open>A table is empty or was fetched at one of the polls, with a client the configuration asks for.\<close>

definition table_from :: "router_cfg \<Rightarrow> api_env set \<Rightarrow> (string \<rightharpoonup> route_backend) \<Rightarrow> bool" where
  "table_from cfg envs t \<longleftrightarrow> t = Map.empty \<or> (\<exists>env \<in> envs. \<exists>c token. trust_from cfg envs c
     \<and> read_token env cfg = Inr token \<and> fetch_table (api_get env c token) (apiserver cfg) = Inr t)"

definition roots_from :: "router_cfg \<Rightarrow> api_env set \<Rightarrow> bytes list option \<Rightarrow> bool" where
  "roots_from cfg envs roots \<longleftrightarrow> (case roots of None \<Rightarrow> True
     | Some rs \<Rightarrow> \<exists>env \<in> envs. \<exists>f. backend_ca_file cfg = Some f \<and> upstream_connector env f = Inr rs)"

lemma poller_from:
  "poller_ok cfg envs p \<Longrightarrow> table_from cfg envs (p_table p) \<and> roots_from cfg envs (p_trusted p)"
  by (cases "p_trusted p") (auto simp: poller_ok_def table_from_def roots_from_def)

lemma table_from_mono: "table_from cfg envs t \<Longrightarrow> table_from cfg (insert env envs) t"
  using trust_from_mono unfolding table_from_def by blast

fun stage_from :: "router_cfg \<Rightarrow> api_env set \<Rightarrow> stage \<Rightarrow> bool" where
  "stage_from cfg envs Taken = True"
| "stage_from cfg envs (LookedUp t) = table_from cfg envs t"
| "stage_from cfg envs (Decided t r) = table_from cfg envs t"

lemma stage_from_mono: "stage_from cfg envs st \<Longrightarrow> stage_from cfg (insert env envs) st"
  by (cases st) (simp_all add: table_from_mono)

definition sources_ok :: "router_cfg \<Rightarrow> router_event list \<Rightarrow> router_sys \<Rightarrow> bool" where
  "sources_ok cfg es s \<longleftrightarrow> poller_ok cfg (polled es) (s_poller s)
     \<and> (\<forall>(n, d, st) \<in> set (s_conns s). stage_from cfg (polled es) st)"

text \<open>A request that reached a backend was routed by such a table, and over TLS by such roots.\<close>

definition routed_ok :: "router_cfg \<Rightarrow> api_env set \<Rightarrow> upstream_world \<Rightarrow> read list \<Rightarrow> conn_action list \<Rightarrow> bool" where
  "routed_ok cfg envs w input acts \<longleftrightarrow> (\<exists>head e rest host t b.
     read_head [] input = Head head e rest \<and> host_of (take e head) = Some host \<and> t host = Some b
   \<and> table_from cfg envs t \<and> Dial (rb_addr b) \<in> set acts
   \<and> (case rb_tls b of None \<Rightarrow> True
      | Some name \<Rightarrow> \<exists>rs. roots_from cfg envs (Some rs) \<and> verifies w rs name (rb_addr b)))"

fun plain_door :: "served \<Rightarrow> bool" where
  "plain_door (Plain a f) = True"
| "plain_door (Tls a f) = False"

lemma serve_at_conn:
  assumes "serve_at d w f input m = (acts, m1, e)"
  obtains m' m2 e' where "serve_conn w f (\<not> plain_door d) input m' = (acts, m2, e')"
proof -
  have task: "\<exists>m'. fst (listener_task name task m) = fst (task m')" for name task
    by (auto simp: listener_task_def Let_def split: prod.split) (metis fst_conv)
  have "\<exists>m'. fst (serve_at d w f input m) = fst (serve_conn w f (\<not> plain_door d) input m')"
    using task [of _ "serve_conn w f False input"] task [of _ "serve_conn w f True input"]
    by (cases d) (simp_all add: serve_http_def serve_https_def)
  then show ?thesis using that assms by (metis fst_conv prod.collapse)
qed

text \<open>Only the proxy sends to a backend; it was admitted to the route's.\<close>

lemma sent_was_admitted:
  assumes "serve_conn w f tls input m = (acts, m', e)" and "to_backend acts"
  obtains head n rest host b where "read_head [] input = Head head n rest" "host_of (take n head) = Some host"
    "table f host = Some b" "admitted_to w f b" "Dial (rb_addr b) \<in> set acts"
    "redirect_port f tls = None \<or> request_path (take n head) = Some ''/healthz''"
  using assms(1)
proof (cases rule: serve_conn_cases)
  case (proxied head n rest host b)
  then show ?thesis using proxy_streams [OF proxied(5)] assms(2) that by (auto split: if_splits)
qed (use assms(2) in \<open>auto simp: to_backend_def\<close>)

lemma served_routed:
  assumes "serve_at d w \<lparr>table = t, trusted = roots, redirect = r\<rparr> input m = (acts, m', e)" and "to_backend acts"
    and "table_from cfg envs t" and "roots_from cfg envs roots"
  shows "routed_ok cfg envs w input acts"
proof -
  obtain m1 m2 e' where "serve_conn w \<lparr>table = t, trusted = roots, redirect = r\<rparr> (\<not> plain_door d) input m1 = (acts, m2, e')"
    by (rule serve_at_conn [OF assms(1)])
  then obtain head n rest host b where "read_head [] input = Head head n rest" "host_of (take n head) = Some host"
    "t host = Some b" "admitted_to w \<lparr>table = t, trusted = roots, redirect = r\<rparr> b" "Dial (rb_addr b) \<in> set acts"
    by (rule sent_was_admitted [OF _ assms(2)]) simp
  then show ?thesis
    unfolding routed_ok_def admitted_to_def
    by (intro exI [of _ head] exI [of _ n] exI [of _ rest] exI [of _ host] exI [of _ t] exI [of _ b])
       (use assms(3,4) in \<open>auto split: option.split\<close>)
qed

lemma sources_step:
  assumes "router_step lib cfg doors s e s'" and "sources_ok cfg es s"
  shows "sources_ok cfg (e # es) s'"
  using assms(1)
proof cases
  case (poll env)
  then show ?thesis
    using assms(2) poll_ok [of cfg "polled es" "s_poller s" env]
    by (auto simp: sources_ok_def intro: stage_from_mono)
next
  case (look_up xs n d ys)
  then show ?thesis
    using assms(2) poller_from [of cfg "polled es" "s_poller s"] by (simp add: sources_ok_def)
qed (use assms(2) in \<open>auto simp: sources_ok_def opened_def\<close>)

subsection \<open>Plain connections once TLS serves\<close>

text \<open>The connection was taken from its listener after a handshake got a certificate.\<close>

fun after_handshake :: "nat \<Rightarrow> router_event list \<Rightarrow> bool" where
  "after_handshake n [] = False"
| "after_handshake n (Opened k d # es) =
     (if k = n then \<exists>sni key. Handshaken sni key \<in> set es else after_handshake n es)"
| "after_handshake n (e # es) = after_handshake n es"

lemma after_handshakeD: "after_handshake n es \<Longrightarrow> \<exists>sni key. Handshaken sni key \<in> set es"
  by (induction n es rule: after_handshake.induct) (auto split: if_splits)

fun redirected :: "served \<Rightarrow> stage \<Rightarrow> bool" where
  "redirected (Plain a f) (Decided t r) = (redirect f = None \<or> (\<exists>c port. r = Some (c, port) \<and> 0 < count c))"
| "redirected d st = True"

lemma redirected_looked_up [simp]: "redirected d (LookedUp t)"
  by (cases d) simp_all

definition doors_ok :: "served list \<Rightarrow> router_event list \<Rightarrow> router_sys \<Rightarrow> bool" where
  "doors_ok doors es s \<longleftrightarrow> certs_ok (s_certs s)
     \<and> ((\<exists>sni key. Handshaken sni key \<in> set es) \<longrightarrow> 0 < count (s_certs s) \<and> (\<exists>a f. Tls a f \<in> set doors))
     \<and> (\<forall>(n, d, st) \<in> set (s_conns s). n < s_next s \<and> d \<in> set doors \<and> (after_handshake n es \<longrightarrow> redirected d st))"

lemma count_reload:
  assumes "certs_ok c" and "reload lib fs c m = (n, c', m')" and "0 < count c"
  shows "0 < count c'"
proof -
  obtain l where "Some l \<in> set (loaded c)"
    using assms(3) by (auto simp: count_def List.map_filter_def filter_empty_conv)
  then obtain i where i: "i < length (loaded c)" "loaded c ! i = Some l" by (auto simp: in_set_conv_nth)
  then have "loaded c' ! i \<noteq> None" "i < length (loaded c')"
    using loaded_reload [OF assms(1,2)] assms(1) by (auto simp: certs_ok_def renewed_def split: sum.splits)
  then have "\<exists>l. Some l \<in> set (loaded c')" by (metis not_None_eq nth_mem)
  then show ?thesis by (auto simp: count_def List.map_filter_def filter_empty_conv)
qed

lemma doors_step:
  assumes "router_step lib cfg doors s e s'" and "doors_ok doors es s"
  shows "doors_ok doors (e # es) s'"
  using assms(1)
proof cases
  case (reload fs m k c m')
  then show ?thesis
    using assms(2) count_reload [OF _ reload(3)] loaded_reload(2) [OF _ reload(3)] by (auto simp: doors_ok_def)
next
  case (plain a f)
  then show ?thesis using assms(2) by (fastforce simp: doors_ok_def opened_def)
next
  case (secure a f sni key)
  then have "0 < count (s_certs s)" using pick_pair_None [of lib "s_certs s" sni] by simp
  then show ?thesis using assms(2) secure by (fastforce simp: doors_ok_def opened_def)
next
  case (decide xs n d t ys)
  have "redirected d (Decided t (redirect_now s d))" if "after_handshake n es"
    using after_handshakeD [OF that] assms(2)
    by (cases d; cases "redirect (front_of d)") (auto simp: doors_ok_def redirect_now_def)
  then show ?thesis using assms(2) decide by (auto simp: doors_ok_def)
qed (use assms(2) in \<open>auto simp: doors_ok_def\<close>)

subsection \<open>Every served connection\<close>

definition serve_ok :: "router_cfg \<Rightarrow> served list \<Rightarrow> router_event list \<Rightarrow> router_event \<Rightarrow> bool" where
  "serve_ok cfg doors es e \<longleftrightarrow> (case e of
     Served n d w input acts \<Rightarrow> to_backend acts \<longrightarrow> routed_ok cfg (polled es) w input acts
       \<and> (after_handshake n es \<and> plain_door d \<longrightarrow> d \<in> set doors \<and> (\<exists>b g. Tls b g \<in> set doors)
          \<and> (redirect (front_of d) \<noteq> None \<longrightarrow>
               (\<exists>head k rest. read_head [] input = Head head k rest \<and> request_path (take k head) = Some ''/healthz'')))
   | _ \<Rightarrow> True)"

fun serves_ok :: "router_cfg \<Rightarrow> served list \<Rightarrow> router_event list \<Rightarrow> bool" where
  "serves_ok cfg doors [] = True"
| "serves_ok cfg doors (e # es) = (serve_ok cfg doors es e \<and> serves_ok cfg doors es)"

lemma serves_okD: "serves_ok cfg doors (later @ e # earlier) \<Longrightarrow> serve_ok cfg doors earlier e"
  by (induction later) simp_all

lemma serve_step:
  assumes "router_step lib cfg doors s e s'" and "sources_ok cfg es s" and "doors_ok doors es s"
  shows "serve_ok cfg doors es e"
  using assms(1)
proof cases
  case (serve xs n d t r ys w input m acts m' e')
  have t: "table_from cfg (polled es) t" and roots: "roots_from cfg (polled es) (p_trusted (s_poller s))"
    and red: "after_handshake n es \<Longrightarrow> redirected d (Decided t r) \<and> (\<exists>b g. Tls b g \<in> set doors)"
    and d: "d \<in> set doors"
    using assms(2,3) serve(3) after_handshakeD poller_from [of cfg "polled es" "s_poller s"] by (fastforce simp: sources_ok_def doors_ok_def)+
  let ?f = "\<lparr>table = t, trusted = p_trusted (s_poller s), redirect = r\<rparr>"
  have "\<exists>head k rest. read_head [] input = Head head k rest \<and> request_path (take k head) = Some ''/healthz''"
    if sent: "to_backend acts" and door: "after_handshake n es" "plain_door d" "redirect (front_of d) \<noteq> None"
  proof -
    obtain m1 m2 e1 where "serve_conn w ?f (\<not> plain_door d) input m1 = (acts, m2, e1)"
      by (rule serve_at_conn [OF serve(4)])
    moreover have "redirect_port ?f (\<not> plain_door d) \<noteq> None"
      using red [OF door(1)] door(2,3) by (cases d) (auto simp: redirect_port_def)
    ultimately show ?thesis by (auto elim!: sent_was_admitted [OF _ sent])
  qed
  then show ?thesis
    using served_routed [OF serve(4) _ t roots] serve(1) red d by (simp add: serve_ok_def)
qed (simp_all add: serve_ok_def)

lemma router_start_ok: "sources_ok cfg [] (router_start lib cfg fs m) \<and> doors_ok doors [] (router_start lib cfg fs m)"
  using polls_ok [of cfg "[]" m] by (simp add: sources_ok_def doors_ok_def router_start_def certs_ok_new polls_def)

lemma router_runs_ok:
  "router_runs lib cfg doors (router_start lib cfg fs m) es s \<Longrightarrow>
     sources_ok cfg es s \<and> doors_ok doors es s \<and> serves_ok cfg doors es"
proof (induction rule: router_runs.induct)
  case started
  show ?case by (simp add: router_start_ok)
next
  case (stepped es s e t)
  then show ?case using sources_step doors_step serve_step by auto
qed

lemma runs_serve_ok:
  "router_runs lib cfg doors (router_start lib cfg fs m) (later @ e # earlier) s \<Longrightarrow> serve_ok cfg doors earlier e"
  using router_runs_ok serves_okD by blast

subsection \<open>Properties\<close>

text \<open>C3: The router as a whole lets through only what a verified apiserver routed.  With a CA file configured, in
  every run, however polls, reloads and connections interleave, a request that reaches a backend names
  a host that a table fetched at an earlier poll maps to this backend; that table came, with the poll's
  token, from a peer verified against certificates the CA file held at an earlier poll; and a TLS
  backend was verified, by the route's name, against roots the backend CA file held at an earlier poll.\<close>

theorem router_passes_only_verified_routes:
  assumes "router_runs lib cfg doors (router_start lib cfg fs m) es s"
    and "es = later @ Served n d w input acts # earlier" and "to_backend acts" and "api_ca_file cfg = Some f"
  shows "\<exists>head k rest host t b env env' pem cs token.
      read_head [] input = Head head k rest \<and> host_of (take k head) = Some host
    \<and> t host = Some b \<and> Dial (rb_addr b) \<in> set acts
    \<and> Polled env \<in> set earlier \<and> Polled env' \<in> set earlier
    \<and> file_bytes env' f = Inr pem \<and> bundle_of env' pem = Inr cs \<and> cs \<noteq> []
    \<and> read_token env cfg = Inr token \<and> fetch_table (api_get env (OnlyRoots cs) token) (apiserver cfg) = Inr t
    \<and> (\<forall>name. rb_tls b = Some name \<longrightarrow> (\<exists>env'' g roots. Polled env'' \<in> set earlier
         \<and> backend_ca_file cfg = Some g \<and> upstream_connector env'' g = Inr roots \<and> verifies w roots name (rb_addr b)))"
proof -
  have "routed_ok cfg (polled earlier) w input acts"
    using runs_serve_ok [OF assms(1) [unfolded assms(2)]] assms(3) by (simp add: serve_ok_def)
  then obtain head k rest host t b where r: "read_head [] input = Head head k rest" "host_of (take k head) = Some host"
    "t host = Some b" "table_from cfg (polled earlier) t" "Dial (rb_addr b) \<in> set acts"
    "case rb_tls b of None \<Rightarrow> True
      | Some name \<Rightarrow> \<exists>rs. roots_from cfg (polled earlier) (Some rs) \<and> verifies w rs name (rb_addr b)"
    unfolding routed_ok_def by blast
  then obtain env env' pem cs token where a: "env \<in> polled earlier" "env' \<in> polled earlier" "file_bytes env' f = Inr pem"
    "bundle_of env' pem = Inr cs" "cs \<noteq> []" "read_token env cfg = Inr token"
    "fetch_table (api_get env (OnlyRoots cs) token) (apiserver cfg) = Inr t"
    using assms(4) by (auto simp: table_from_def trust_from_def)
  have roots: "\<exists>env'' g roots. Polled env'' \<in> set earlier \<and> backend_ca_file cfg = Some g
      \<and> upstream_connector env'' g = Inr roots \<and> verifies w roots name (rb_addr b)" if "rb_tls b = Some name" for name
    using r(6) that by (auto simp: roots_from_def polled_def)
  show ?thesis
    by (intro exI [of _ head] exI [of _ k] exI [of _ rest] exI [of _ host] exI [of _ t] exI [of _ b]
        exI [of _ env] exI [of _ env'] exI [of _ pem] exI [of _ cs] exI [of _ token])
      (use r a roots in \<open>simp add: polled_def\<close>)
qed

lemma doors_redirect:
  assumes "router_run nw cfg cs tbl roots = Some (Inr doors)" and "router_tls cfg = Some t" and "tls_redirect t"
    and "Tls b g \<in> set doors" and "d \<in> set doors" and "plain_door d"
  shows "redirect (front_of d) \<noteq> None"
  using assms by (auto simp: router_run_def serve_tls_def split: option.splits sum.splits if_splits)

text \<open>C4: Once TLS serves, plain HTTP is over.  With \<open>redirect\<close> on, once any TLS handshake has been given a
  certificate, a plain connection accepted after it reaches a backend only for the health path,
  whatever becomes of the certificates' files and however reloads and polls interleave with it.\<close>

theorem plain_is_over_once_tls_serves:
  assumes "router_run nw cfg (s_certs (router_start lib cfg fs m)) Map.empty None = Some (Inr doors)"
    and "router_tls cfg = Some t" and "tls_redirect t"
    and "router_runs lib cfg doors (router_start lib cfg fs m) (later @ Served n (Plain a f) w input acts # earlier) s"
    and "after_handshake n earlier" and "to_backend acts"
  shows "\<exists>head k rest. read_head [] input = Head head k rest \<and> request_path (take k head) = Some ''/healthz''"
proof -
  have served: "Plain a f \<in> set doors \<and> (\<exists>b g. Tls b g \<in> set doors) \<and> (redirect f \<noteq> None \<longrightarrow>
      (\<exists>head k rest. read_head [] input = Head head k rest \<and> request_path (take k head) = Some ''/healthz''))"
    using runs_serve_ok [OF assms(4)] assms(5,6) by (simp add: serve_ok_def)
  then have "redirect f \<noteq> None"
    using doors_redirect [OF assms(1-3), of _ _ "Plain a f"] by auto
  with served show ?thesis by blast
qed

subsection \<open>Witnesses\<close>

definition demo_router_cfg :: router_cfg where
  "demo_router_cfg = demo_cfg\<lparr>router_listen := ''0.0.0.0:80'',
     router_tls := Some \<lparr>tls_listen = ''0.0.0.0:443'', tls_certs = demo_pairs, tls_redirect = True, tls_reload_secs = 30\<rparr>\<rparr>"

definition demo_router :: router_sys where
  "demo_router = router_start demo_lib demo_router_cfg (demo_files 1 True) metrics_empty"

abbreviation "demo_plain \<equiv> Plain ''0.0.0.0:80'' \<lparr>table = Map.empty, trusted = None, redirect = Some (demo_certs, redirect_to ''0.0.0.0:443'')\<rparr>"

abbreviation "demo_doors \<equiv> [Tls ''0.0.0.0:443'' \<lparr>table = Map.empty, trusted = None, redirect = None\<rparr>, demo_plain]"

definition demo_probe :: string where
  "demo_probe = http_head ''GET'' ''/healthz'' [(''Host'', ''app.test'')]"

lemma demo_probe:
  "find_head_end demo_probe = Some (length demo_probe)" "host_of demo_probe = Some ''app.test''"
  "request_path demo_probe = Some ''/healthz''" "demo_probe \<noteq> []"
  by code_simp+

lemma demo_router: "demo_router = \<lparr>s_poller = poller_new metrics_empty, s_certs = demo_certs, s_conns = [], s_next = 0\<rparr>"
  using demo_certs by (simp add: demo_router_def router_start_def demo_router_cfg_def)

lemma demo_doors:
  "router_run \<lparr>route_ip = None, binds = \<lambda>_. Inr ()\<rparr> demo_router_cfg demo_certs Map.empty None = Some (Inr demo_doors)"
proof -
  have "\<not> begins ''auto'' ''0.0.0.0:80''" "\<not> begins ''auto'' ''0.0.0.0:443''"
    by (simp_all add: begins_def)
  then show ?thesis
    by (simp add: router_run_def serve_tls_def bind_listeners_def bind_addrs_def bind_one_def demo_router_cfg_def)
qed

lemma demo_polled:
  "p_table (poll (demo_api True) demo_router_cfg (poller_new m)) = [''app.test'' \<mapsto> \<lparr>rb_addr = ''127.0.0.1:2'', rb_tls = None\<rparr>]"
proof -
  have "api_get (demo_api True) (OnlyRoots [[7]]) None url = Inr demo_list" for url
    by (simp add: api_get_def demo_api_def map_err_def)
  then have "fetch_table (api_get (demo_api True) (OnlyRoots [[7]]) None) ''https://127.0.0.1:6443''
      = Inr [''app.test'' \<mapsto> \<lparr>rb_addr = ''127.0.0.1:2'', rb_tls = None\<rparr>]"
    by (rule demo_fetch)
  then show ?thesis
    by (simp add: poller_new_def poll_def refresh_ca_def demo_router_cfg_def demo_cfg_def ca_reload_def cached_client_def
        fetched_def api_client_def read_token_def map_err_def upstream_connector_def ensure_def Let_def)
qed

text \<open>A handshake, a poll, and then a plain health probe of a routed host.\<close>

lemma demo_router_run:
  obtains s acts where "router_runs demo_lib demo_router_cfg demo_doors demo_router
      [Served 1 demo_plain demo_world [Read demo_probe] acts, Silent, Silent, Opened 1 demo_plain,
       Polled (demo_api True), Handshaken None ([[1]], [1])] s" "to_backend acts"
proof -
  let ?run = "router_runs demo_lib demo_router_cfg demo_doors demo_router"
  let ?p = "poll (demo_api True) demo_router_cfg (poller_new metrics_empty)"
  let ?t = "[''app.test'' \<mapsto> \<lparr>rb_addr = ''127.0.0.1:2'', rb_tls = None\<rparr>]"
  let ?r = "Some (demo_certs, redirect_to ''0.0.0.0:443'')"
  let ?tls = "(0, hd demo_doors, Taken)"
  let ?s = "\<lambda>cs n. \<lparr>s_poller = ?p, s_certs = demo_certs, s_conns = ?tls # cs, s_next = n\<rparr>"
  have key: "pick_pair demo_lib demo_certs None = Some ([[1]], [1])"
    by (simp add: pick_pair_def demo_certs_def)
  have "?run [Handshaken None ([[1]], [1])] \<lparr>s_poller = poller_new metrics_empty, s_certs = demo_certs, s_conns = [?tls], s_next = 1\<rparr>"
    using router_runs.stepped [OF router_runs.started router_step.secure, of "''0.0.0.0:443''" _ demo_doors demo_lib demo_router]
      key by (simp add: demo_router opened_def)
  from router_runs.stepped [OF this router_step.poll, of "demo_api True"]
  have "?run [Polled (demo_api True), Handshaken None ([[1]], [1])] (?s [] 1)" by simp
  from router_runs.stepped [OF this router_step.plain, of "''0.0.0.0:80''"]
  have "?run [Opened 1 demo_plain, Polled (demo_api True), Handshaken None ([[1]], [1])] (?s [(1, demo_plain, Taken)] 2)"
    by (simp add: opened_def numeral_2_eq_2)
  from router_runs.stepped [OF this router_step.look_up, of "[?tls]"]
  have "?run [Silent, Opened 1 demo_plain, Polled (demo_api True), Handshaken None ([[1]], [1])]
      (?s [(1, demo_plain, LookedUp ?t)] 2)"
    by (simp add: demo_polled)
  from router_runs.stepped [OF this router_step.decide, of "[?tls]"]
  have run: "?run [Silent, Silent, Opened 1 demo_plain, Polled (demo_api True), Handshaken None ([[1]], [1])]
      (?s [(1, demo_plain, Decided ?t (Some (demo_certs, redirect_to ''0.0.0.0:443'')))] 2)"
    by (simp add: redirect_now_def)
  let ?f = "\<lparr>table = ?t, trusted = p_trusted ?p, redirect = Some (demo_certs, redirect_to ''0.0.0.0:443'')\<rparr>"
  obtain acts m' e where served: "serve_at demo_plain demo_world ?f [Read demo_probe] metrics_empty = (acts, m', e)"
    by (metis prod.exhaust)
  have sent: "to_backend (fst (serve_conn demo_world ?f False [Read demo_probe] m))" for m
    by (simp add: serve_conn_def route_def demo_probe proxy_def demo_world_def before_def forward_def
        splice_def Let_def to_backend_def) blast
  obtain m1 m2 e' where "serve_conn demo_world ?f (\<not> plain_door demo_plain) [Read demo_probe] m1 = (acts, m2, e')"
    by (rule serve_at_conn [OF served])
  with sent [of m1] have "to_backend acts" by simp
  moreover have "s_conns (?s [(1, demo_plain, Decided ?t ?r)] 2) = [?tls] @ (1, demo_plain, Decided ?t ?r) # []"
    by simp
  note router_step.serve [OF this, of demo_world "[Read demo_probe]" metrics_empty acts m' e]
  then have "router_step demo_lib demo_router_cfg demo_doors (?s [(1, demo_plain, Decided ?t ?r)] 2)
      (Served 1 demo_plain demo_world [Read demo_probe] acts) ((?s [(1, demo_plain, Decided ?t ?r)] 2)\<lparr>s_conns := [?tls] @ []\<rparr>)"
    using served by simp
  note router_runs.stepped [OF run this]
  ultimately show ?thesis using that by blast
qed

lemma router_passes_only_verified_routes_witness:
  "\<exists>t b. fetch_table (api_get (demo_api True) (OnlyRoots [[7]]) None) ''https://127.0.0.1:6443'' = Inr t
     \<and> t ''app.test'' = Some b"
proof -
  obtain s acts where run: "router_runs demo_lib demo_router_cfg demo_doors demo_router
      [Served 1 demo_plain demo_world [Read demo_probe] acts, Silent, Silent, Opened 1 demo_plain,
       Polled (demo_api True), Handshaken None ([[1]], [1])] s" and sent: "to_backend acts"
    by (rule demo_router_run)
  have ca: "api_ca_file demo_router_cfg = Some ''ca.crt''" by (simp add: demo_router_cfg_def demo_cfg_def)
  from router_passes_only_verified_routes [OF run [unfolded demo_router_def] append_Nil [symmetric] sent ca]
  obtain head k rest host t b env env' pem cs token where
    "read_head [] [Read demo_probe] = Head head k rest" "host_of (take k head) = Some host" "t host = Some b"
    "env = demo_api True" "env' = demo_api True" "file_bytes env' ''ca.crt'' = Inr pem" "bundle_of env' pem = Inr cs"
    "read_token env demo_router_cfg = Inr token"
    "fetch_table (api_get env (OnlyRoots cs) token) (apiserver demo_router_cfg) = Inr t"
    by auto
  then show ?thesis
    by (auto simp: demo_probe read_token_def demo_router_cfg_def demo_cfg_def)
qed

lemma plain_is_over_once_tls_serves_witness:
  "request_path demo_probe = Some ''/healthz''"
proof -
  obtain s acts where run: "router_runs demo_lib demo_router_cfg demo_doors demo_router
      ([] @ Served 1 demo_plain demo_world [Read demo_probe] acts # [Silent, Silent, Opened 1 demo_plain,
       Polled (demo_api True), Handshaken None ([[1]], [1])]) s" and sent: "to_backend acts"
    by (rule demo_router_run) simp
  have doors: "router_run \<lparr>route_ip = None, binds = \<lambda>_. Inr ()\<rparr> demo_router_cfg (s_certs demo_router) Map.empty None
      = Some (Inr demo_doors)"
    using demo_doors by (simp add: demo_router)
  have tls: "router_tls demo_router_cfg =
      Some \<lparr>tls_listen = ''0.0.0.0:443'', tls_certs = demo_pairs, tls_redirect = True, tls_reload_secs = 30\<rparr>"
    by (simp add: demo_router_cfg_def)
  obtain head k rest where "read_head [] [Read demo_probe] = Head head k rest"
    "request_path (take k head) = Some ''/healthz''"
    using plain_is_over_once_tls_serves [OF doors [unfolded demo_router_def] tls _ run [unfolded demo_router_def] _ sent] by auto
  then show ?thesis by (simp add: demo_probe)
qed

end
