(* ===== verification/Api.thy ===== *)
theory Api
  imports Vips_Proofs Rust_Text
begin

text \<open>
  \<open>src/api.rs\<close>: the HTTP API over the registry: reading a request, authorising it, the routes, the
  answers.

  A connection is a function of what its reads answer; no result means that they have not brought a
  whole request (the code gives up after 30 seconds) or that the task panicked, in both cases no answer.
  Messages are constructors; JSON in and out is serde's, a parameter.
\<close>

subsection \<open>Requests, answers and what is outside\<close>

definition MAX_HEAD :: nat where "MAX_HEAD = 16 * 1024"
definition MAX_BODY :: nat where "MAX_BODY = 1024 * 1024"

record request =
  rq_method :: string
  rq_path :: string
  rq_authorization :: "string option"
  rq_body :: string

datatype complaint =
    HeadTooBig | ReadFailed string | ClosedInHead | HeadNotUtf8 | NoRequestLine | BadLength string
  | NotChunked | BodyTooBig | ClosedInBody | NoSuchPath string | NoSuchVip string | BadSpec string
  | MethodNotAllowed | TokenUnreadable | TokenEmpty | BadToken | Because reason

datatype answer =
    Fine | Complaint complaint | TheVips "vip_view list" | TheVip "vip_view option" | Deleted string

record api_world =
  aw_node :: node
  aw_token :: "string \<Rightarrow> (string, string) result"
  aw_spec :: "string \<Rightarrow> (string, vip_spec) result"
  aw_json :: "answer \<Rightarrow> string"

type_synonym refusal = "u16 \<times> complaint"

subsection \<open>Reading a request\<close>

definition head_end :: "string \<Rightarrow> (refusal, nat) result option" where
  "head_end buf =
     (case window (crlf @ crlf) buf of
        Some i \<Rightarrow> Some (Inr (i + 4))
      | None \<Rightarrow> (if MAX_HEAD < length buf then Some (Inl (431, HeadTooBig)) else None))"

fun read_api_head :: "string \<Rightarrow> read list \<Rightarrow> (refusal, string \<times> nat \<times> read list) result option" where
  "read_api_head buf input =
     (case head_end buf of
        Some (Inl e) \<Rightarrow> Some (Inl e)
      | Some (Inr i) \<Rightarrow> Some (Inr (buf, i, input))
      | None \<Rightarrow>
          (case input of
             [] \<Rightarrow> None
           | ReadError e # _ \<Rightarrow> Some (Inl (400, ReadFailed e))
           | Read c # cs \<Rightarrow>
               (if c = [] then Some (Inl (400, ClosedInHead)) else read_api_head (buf @ c) cs)))"

declare read_api_head.simps [simp del]

text \<open>\<open>head.split("\r\n")\<close>.\<close>

function split_crlf :: "string \<Rightarrow> string list" where
  "split_crlf s =
     (case s of
        [] \<Rightarrow> [[]]
      | x # t \<Rightarrow>
          (if x = CR \<and> t \<noteq> [] \<and> hd t = LF then [] # split_crlf (tl t)
           else (case split_crlf t of [] \<Rightarrow> [[x]] | p # ps \<Rightarrow> (x # p) # ps)))"
  by pat_completeness auto
termination
  by (relation "measure length") auto

declare split_crlf.simps [simp del]

fun api_fields :: "string list \<Rightarrow> nat \<times> string option \<Rightarrow> (refusal, nat \<times> string option) result" where
  "api_fields [] acc = Inr acc"
| "api_fields (l # ls) (len, auth) =
     (case split_once (CHR '':'') l of
        None \<Rightarrow> api_fields ls (len, auth)
      | Some (k, v) \<Rightarrow>
          (if eq_ignore_case k ''content-length''
           then (case parse_uint (2 ^ 64) (trim v) of
                   None \<Rightarrow> Inl (400, BadLength (trim v))
                 | Some n \<Rightarrow> api_fields ls (n, auth))
           else if eq_ignore_case k ''authorization'' then api_fields ls (len, Some (trim v))
           else if eq_ignore_case k ''transfer-encoding'' then Inl (411, NotChunked)
           else api_fields ls (len, auth)))"

fun read_api_body :: "nat \<Rightarrow> string \<Rightarrow> read list \<Rightarrow> (refusal, string) result option" where
  "read_api_body len body input =
     (if len \<le> length body then Some (Inr (take len body))
      else (case input of
              [] \<Rightarrow> None
            | ReadError e # _ \<Rightarrow> Some (Inl (400, ReadFailed e))
            | Read c # cs \<Rightarrow>
                (if c = [] then Some (Inl (400, ClosedInBody)) else read_api_body len (body @ c) cs)))"

declare read_api_body.simps [simp del]

definition request_line_of :: "string \<Rightarrow> (refusal, string \<times> string) result" where
  "request_line_of l =
     (case split_on SP l of
        m # p # _ \<Rightarrow> (if m \<noteq> [] then Inr (m, p) else Inl (400, NoRequestLine))
      | _ \<Rightarrow> Inl (400, NoRequestLine))"

text \<open>The head, parsed: method, path, body length, authorization.\<close>

definition parse_api_head :: "string \<Rightarrow> (refusal, string \<times> string \<times> nat \<times> string option) result" where
  "parse_api_head head =
     (if \<not> utf8_ok head then Inl (400, HeadNotUtf8)
      else (let ls = split_crlf head
            in rbind (request_line_of (hd ls)) (\<lambda>(m, p).
               rbind (api_fields (tl ls) (0, None)) (\<lambda>(len, auth).
               rbind (ensure (len \<le> MAX_BODY) (413, BodyTooBig)) (\<lambda>_. Inr (m, p, len, auth))))))"

definition read_request :: "read list \<Rightarrow> (refusal, request) result option" where
  "read_request input =
     (case read_api_head [] input of
        None \<Rightarrow> None
      | Some (Inl e) \<Rightarrow> Some (Inl e)
      | Some (Inr (buf, i, rest)) \<Rightarrow>
          (case parse_api_head (take i buf) of
             Inl e \<Rightarrow> Some (Inl e)
           | Inr (m, p, len, auth) \<Rightarrow>
               (case read_api_body len (drop i buf) rest of
                  None \<Rightarrow> None
                | Some (Inl e) \<Rightarrow> Some (Inl e)
                | Some (Inr body) \<Rightarrow>
                    Some (Inr \<lparr>rq_method = m, rq_path = p, rq_authorization = auth, rq_body = body\<rparr>))))"

subsection \<open>Authorisation\<close>

definition byte_of :: "char \<Rightarrow> u8" where
  "byte_of c = word_of_nat (byte c)"

text \<open>The comparison that takes the same time wherever the strings differ.\<close>

definition same_bytes :: "string \<Rightarrow> string \<Rightarrow> bool" where
  "same_bytes got want \<longleftrightarrow> length got = length want
     \<and> foldl (\<lambda>a (x, y). a OR (byte_of x XOR byte_of y)) 0 (zip got want) = 0"

definition authorize :: "api_world \<Rightarrow> string \<Rightarrow> string option \<Rightarrow> (refusal, unit) result" where
  "authorize w tf header =
     (case aw_token w tf of
        Inl _ \<Rightarrow> Inl (500, TokenUnreadable)
      | Inr text \<Rightarrow>
          (let want = trim text;
               got = (case Option.bind header (strip_prefix ''Bearer '') of Some g \<Rightarrow> trim g | None \<Rightarrow> [])
           in if want = [] then Inl (500, TokenEmpty)
              else if same_bytes got want then Inr () else Inl (401, BadToken)))"

subsection \<open>The routes\<close>

definition error :: "apply_error \<Rightarrow> refusal" where
  "error e = (case e of Invalid r \<Rightarrow> (400, Because r) | NotFound r \<Rightarrow> (404, Because r)
                | Conflict r \<Rightarrow> (409, Because r) | NotSaved r \<Rightarrow> (500, Because r))"

definition refused :: "refusal \<Rightarrow> u16 \<times> answer" where
  "refused e = (fst e, Complaint (snd e))"

definition on_vip :: "api_world \<Rightarrow> registry \<Rightarrow> request \<Rightarrow> string \<Rightarrow> (u16 \<times> answer) \<times> registry" where
  "on_vip w reg rq name =
     (if rq_method rq = ''GET''
      then (case get_vip reg name of
              Some v \<Rightarrow> ((200, TheVip (Some v)), reg)
            | None \<Rightarrow> (refused (404, NoSuchVip name), reg))
      else if rq_method rq = ''PUT''
      then (case aw_spec w (rq_body rq) of
              Inl e \<Rightarrow> (refused (400, BadSpec e), reg)
            | Inr s \<Rightarrow>
                (case apply_vip (aw_node w) reg name s of
                   (Inr created, reg') \<Rightarrow> ((if created then 201 else 200, TheVip (get_vip reg' name)), reg')
                 | (Inl e, reg') \<Rightarrow> (refused (error e), reg')))
      else if rq_method rq = ''DELETE''
      then (case remove_vip (aw_node w) reg name of
              (Inr _, reg') \<Rightarrow> ((200, Deleted name), reg')
            | (Inl e, reg') \<Rightarrow> (refused (error e), reg'))
      else (refused (405, MethodNotAllowed), reg))"

text \<open>\<open>&name[1..]\<close> panics where the first character is not one byte: then there is no answer.\<close>

definition on_vips :: "api_world \<Rightarrow> registry \<Rightarrow> request \<Rightarrow> string \<Rightarrow> string \<Rightarrow> ((u16 \<times> answer) \<times> registry) option" where
  "on_vips w reg rq pth rest =
     (if rest = [] \<or> rest = ''/''
      then Some (if rq_method rq = ''GET'' then (200, TheVips (list_vips reg)) else refused (405, MethodNotAllowed), reg)
      else if 128 \<le> byte (hd rest) then None
      else (let name = tl rest
            in if CHR ''/'' \<in> set name \<or> name = [] then Some (refused (404, NoSuchPath pth), reg)
               else Some (on_vip w reg rq name)))"

definition handle :: "api_world \<Rightarrow> registry \<Rightarrow> string option \<Rightarrow> request \<Rightarrow> ((u16 \<times> answer) \<times> registry) option" where
  "handle w reg tf rq =
     (let pth = hd (split_on (CHR ''?'') (rq_path rq))
      in if pth = ''/healthz''
         then Some (if rq_method rq = ''GET'' then (200, Fine) else refused (405, MethodNotAllowed), reg)
         else (case strip_prefix ''/api/v1/vips'' pth of
                 None \<Rightarrow> Some (refused (404, NoSuchPath pth), reg)
               | Some rest \<Rightarrow>
                   (case (case tf of None \<Rightarrow> Inr () | Some f \<Rightarrow> authorize w f (rq_authorization rq)) of
                      Inl e \<Rightarrow> Some (refused e, reg)
                    | Inr _ \<Rightarrow> on_vips w reg rq pth rest)))"

definition reason_of :: "u16 \<Rightarrow> string" where
  "reason_of s =
     (if s = 200 then ''OK'' else if s = 201 then ''Created'' else if s = 400 then ''Bad Request''
      else if s = 401 then ''Unauthorized'' else if s = 404 then ''Not Found''
      else if s = 405 then ''Method Not Allowed'' else if s = 409 then ''Conflict''
      else if s = 411 then ''Length Required'' else if s = 413 then ''Payload Too Large''
      else if s = 431 then ''Request Header Fields Too Large'' else ''Internal Server Error'')"

definition response_text :: "api_world \<Rightarrow> u16 \<times> answer \<Rightarrow> string" where
  "response_text w a =
     (let text = aw_json w (snd a) @ [LF]
      in ''HTTP/1.1 '' @ dec (unat (fst a)) @ '' '' @ reason_of (fst a) @ crlf
         @ ''content-type: application/json'' @ crlf @ ''content-length: '' @ dec (length text) @ crlf
         @ ''connection: close'' @ crlf @ crlf @ text)"

definition conn_task :: "api_world \<Rightarrow> registry \<Rightarrow> string option \<Rightarrow> read list \<Rightarrow> (string \<times> registry) option" where
  "conn_task w reg tf input =
     (case read_request input of
        None \<Rightarrow> None
      | Some (Inl e) \<Rightarrow> Some (response_text w (refused e), reg)
      | Some (Inr rq) \<Rightarrow>
          map_option (\<lambda>(a, reg'). (response_text w a, reg')) (handle w reg tf rq))"

subsection \<open>Where the API may listen\<close>

definition parse_port :: "string \<Rightarrow> u16 option" where
  "parse_port p =
     (if p \<noteq> [] \<and> list_all is_digit p \<and> digits_val p < 65536 then Some (word_of_nat (digits_val p)) else None)"

definition is_loopback :: "ip_addr \<Rightarrow> bool" where
  "is_loopback a = (case a of V4 v \<Rightarrow> oct0 v = 127 | V6 gs \<Rightarrow> gs = [0, 0, 0, 0, 0, 0, 0, 1])"

text \<open>\<open>SocketAddr::from_str\<close>: \<open>ip:port\<close>, an IPv6 address in brackets, perhaps with a scope (which the
  model drops).\<close>

definition scope_ok :: "string \<Rightarrow> bool" where
  "scope_ok s \<longleftrightarrow> s \<noteq> [] \<and> list_all is_digit s \<and> digits_val s < 2 ^ 32"

definition bracketed :: "string \<Rightarrow> u16 list option" where
  "bracketed h =
     (if 2 \<le> length h \<and> hd h = CHR ''['' \<and> last h = CHR '']''
      then (let t = butlast (tl h)
            in case split_once (CHR ''%'') t of
                 None \<Rightarrow> parse_ipv6 t
               | Some (g, sc) \<Rightarrow> (if scope_ok sc then parse_ipv6 g else None))
      else None)"

definition parse_sock_addr :: "string \<Rightarrow> sock_addr option" where
  "parse_sock_addr s =
     (case rsplit_once (CHR '':'') s of
        None \<Rightarrow> None
      | Some (h, p) \<Rightarrow>
          Option.bind (parse_port p) (\<lambda>port.
            map_option (\<lambda>a. SockAddr a port)
              (case parse_ipv4 h of Some a \<Rightarrow> Some (V4 a) | None \<Rightarrow> map_option V6 (bracketed h))))"

text \<open>\<open>run\<close>'s check of the configuration.\<close>

datatype api_refusal = BadListen string | NeedsToken sock_addr

definition api_preflight :: "api_cfg \<Rightarrow> (api_refusal, sock_addr) result" where
  "api_preflight cfg =
     (case parse_sock_addr (api_listen cfg) of
        None \<Rightarrow> Inl (BadListen (api_listen cfg))
      | Some a \<Rightarrow>
          (if api_token_file cfg = None \<and> \<not> is_loopback (sa_ip a) then Inl (NeedsToken a) else Inr a))"

end
