(* ===== verification/Api_Props.thy ===== *)
theory Api_Props
  imports Api Router_Http Vips_Props
begin

text \<open>
  The properties of the VIP API: a request is read the same however it arrives, only the token opens the
  API, a refusal changes nothing, and the two places where the path is taken for less than it is.
\<close>

subsection \<open>Reading in pieces\<close>

lemma window_prefix:
  "window p (xs @ ys) = Some i \<Longrightarrow> i + length p \<le> length xs \<Longrightarrow> window p xs = Some i"
proof (induction xs arbitrary: i)
  case Nil
  then show ?case by (cases ys) (auto split: if_splits)
next
  case (Cons x xs)
  show ?case
  proof (cases i)
    case 0
    then have "length p \<le> length (x # xs)" using Cons.prems(2) by simp
    then have "take (length p) (x # xs @ ys) = take (length p) (x # xs)"
      by (metis append_Cons take_append append_Nil2 diff_is_0_eq take_0)
    then show ?thesis using 0 Cons.prems(1) by (auto split: if_splits)
  next
    case (Suc j)
    then have "length p \<le> length (x # xs)" using Cons.prems(2) by simp
    then have same: "take (length p) (x # xs @ ys) = take (length p) (x # xs)"
      by (metis append_Cons take_append append_Nil2 diff_is_0_eq take_0)
    then show ?thesis using Suc Cons by (auto split: if_splits)
  qed
qed

lemma head_end_part:
  assumes "window (crlf @ crlf) whole = Some i" and "i + 4 \<le> MAX_HEAD" and "whole = buf @ rest"
  shows "head_end buf = (if i + 4 \<le> length buf then Some (Inr (i + 4)) else None)"
proof (cases "window (crlf @ crlf) buf")
  case None
  then have "length buf < i + 4"
    using window_prefix [of "crlf @ crlf" buf rest i] assms by force
  then show ?thesis using None assms(2) by (simp add: head_end_def)
next
  case (Some j)
  then have "j = i" using window_append [OF Some, of rest] assms by simp
  then show ?thesis using Some window_bound [OF Some] by (simp add: head_end_def)
qed

lemma read_api_head_chunks:
  assumes "window (crlf @ crlf) whole = Some i" and "i + 4 \<le> MAX_HEAD"
    and "whole = buf @ concat cs" and "[] \<notin> set cs"
  obtains buf' rest where "read_api_head buf (map Read cs) = Some (Inr (buf', i + 4, map Read rest))"
    "whole = buf' @ concat rest" "i + 4 \<le> length buf'" "[] \<notin> set rest"
  using assms(3,4)
proof (induction cs arbitrary: buf thesis)
  case Nil
  have "i + 4 \<le> length buf" using window_bound [OF assms(1)] Nil by simp
  then have "read_api_head buf [] = Some (Inr (buf, i + 4, []))"
    using head_end_part [OF assms(1,2) Nil(2)] by (simp add: read_api_head.simps)
  then show ?case using Nil \<open>i + 4 \<le> length buf\<close> by (intro Nil(1) [of buf "[]"]) auto
next
  case (Cons c cs)
  show ?case
  proof (cases "i + 4 \<le> length buf")
    case True
    then show ?thesis
      using head_end_part [OF assms(1,2) Cons.prems(2)] Cons.prems
      by (intro Cons.prems(1) [of buf "c # cs"]) (auto simp: read_api_head.simps)
  next
    case False
    have "whole = (buf @ c) @ concat cs" "[] \<notin> set cs"
      using Cons.prems by simp_all
    from Cons.IH [OF _ this] obtain buf' rest where *:
      "read_api_head (buf @ c) (map Read cs) = Some (Inr (buf', i + 4, map Read rest))"
      "whole = buf' @ concat rest" "i + 4 \<le> length buf'" "[] \<notin> set rest" by blast
    then have "read_api_head buf (map Read (c # cs)) = Some (Inr (buf', i + 4, map Read rest))"
      using False head_end_part [OF assms(1,2) Cons.prems(2)] Cons.prems(3)
      by (auto simp: read_api_head.simps [of buf])
    then show ?thesis using * by (intro Cons.prems(1)) auto
  qed
qed

lemma read_api_body_chunks:
  assumes "len \<le> length (body @ concat cs)" and "[] \<notin> set cs"
  shows "read_api_body len body (map Read cs) = Some (Inr (take len (body @ concat cs)))"
  using assms
proof (induction cs arbitrary: body)
  case Nil
  then show ?case by (simp add: read_api_body.simps)
next
  case (Cons c cs)
  show ?case
  proof (cases "len \<le> length body")
    case True
    then show ?thesis by (simp add: read_api_body.simps)
  next
    case False
    then show ?thesis using Cons.IH [of "body @ c"] Cons.prems by (auto simp: read_api_body.simps [of len body])
  qed
qed

subsection \<open>The head of a request\<close>

lemma split_crlf_line: "LF \<notin> set l \<Longrightarrow> split_crlf (l @ crlf @ r) = l # split_crlf r"
proof (induction l)
  case Nil
  then show ?case by (simp add: split_crlf.simps [of "CR # _"])
next
  case (Cons x l)
  then have "\<not> (l @ crlf @ r \<noteq> [] \<and> hd (l @ crlf @ r) = LF)" by (cases l) auto
  then show ?case using Cons by (auto simp: split_crlf.simps [of "x # _"])
qed

lemma split_crlf_fields:
  assumes "list_all field_ok fs"
  shows "split_crlf (concat (map field fs) @ crlf) = map (\<lambda>f. fst f @ '': '' @ snd f) fs @ [[], []]"
  using assms
proof (induction fs)
  case Nil
  show ?case using split_crlf_line [of "[]" "[]"] by (simp add: split_crlf.simps [of "[]"])
next
  case (Cons f fs)
  then have "LF \<notin> set (fst f @ '': '' @ snd f)" using field_okD by auto
  from split_crlf_line [OF this, of "concat (map field fs) @ crlf"] Cons show ?case
    by (simp add: field_def [of f])
qed

definition plain_field :: "string \<times> string \<Rightarrow> bool" where
  "plain_field f \<longleftrightarrow> field_ok f \<and> \<not> named ''content-length'' f \<and> \<not> named ''authorization'' f
     \<and> \<not> named ''transfer-encoding'' f"

lemma api_fields_one:
  assumes "field_ok f"
  shows "api_fields ((fst f @ '': '' @ snd f) # ls) (len, auth) =
    (if named ''content-length'' f
     then (case parse_uint (2 ^ 64) (snd f) of None \<Rightarrow> Inl (400, BadLength (snd f)) | Some n \<Rightarrow> api_fields ls (n, auth))
     else if named ''authorization'' f then api_fields ls (len, Some (snd f))
     else if named ''transfer-encoding'' f then Inl (411, NotChunked) else api_fields ls (len, auth))"
proof -
  have "trim (SP # snd f) = snd f"
    using trim_bare_blanks(1) [OF field_okD(6) [OF assms], of SP] by simp
  then show ?thesis using split_field [OF assms] by (simp add: named_def cong: option.case_cong)
qed

lemma api_fields_plain:
  "list_all plain_field fs \<Longrightarrow>
     api_fields (map (\<lambda>f. fst f @ '': '' @ snd f) fs @ ls) acc = api_fields ls acc"
proof (induction fs)
  case (Cons f fs)
  then show ?case
    using api_fields_one [of f _ "fst acc" "snd acc"] by (simp add: plain_field_def)
qed simp

text \<open>A request of the API as a client writes it.\<close>

definition api_head :: "string \<Rightarrow> string \<Rightarrow> (string \<times> string) list \<Rightarrow> string \<Rightarrow> nat \<Rightarrow> string" where
  "api_head meth target fs auth len =
     http_head meth target (fs @ [(''Authorization'', auth), (''Content-Length'', dec len)])"

definition api_head_ok :: "string \<Rightarrow> string \<Rightarrow> (string \<times> string) list \<Rightarrow> string \<Rightarrow> bool" where
  "api_head_ok meth target fs auth \<longleftrightarrow> word meth \<and> word target \<and> list_all plain_field fs
     \<and> bare auth \<and> ascii auth \<and> LF \<notin> set auth"

lemma digit_plain: "is_digit c \<Longrightarrow> byte c < 128 \<and> \<not> is_ws c \<and> c \<noteq> LF"
  by (auto simp: is_digit_def is_ws_def byte_def)

lemma dec_plain: "bare (dec n)" "ascii (dec n)" "LF \<notin> set (dec n)"
proof -
  have d: "\<And>c. c \<in> set (dec n) \<Longrightarrow> byte c < 128 \<and> \<not> is_ws c \<and> c \<noteq> LF"
    using dec_set digit_plain by blast
  then show "bare (dec n)" by (simp add: bare_def)
  show "ascii (dec n)" "LF \<notin> set (dec n)" using d by (auto simp: ascii_def list_all_iff)
qed

lemma own_fields:
  "field_ok (''Authorization'', auth) \<longleftrightarrow> bare auth \<and> ascii auth \<and> LF \<notin> set auth"
  "field_ok (''Content-Length'', dec n)"
  "named ''authorization'' (''Authorization'', a)" "\<not> named ''content-length'' (''Authorization'', a)"
  "named ''content-length'' (''Content-Length'', a)"
proof -
  have "word ''Authorization''" "word ''Content-Length''" by code_simp+
  then show "field_ok (''Authorization'', auth) \<longleftrightarrow> bare auth \<and> ascii auth \<and> LF \<notin> set auth"
    and "field_ok (''Content-Length'', dec n)"
    by (simp_all add: field_ok_def dec_plain)
  have "eq_ignore_case ''Authorization'' ''authorization''" "\<not> eq_ignore_case ''Authorization'' ''content-length''"
    "eq_ignore_case ''Content-Length'' ''content-length''" by code_simp+
  then show "named ''authorization'' (''Authorization'', a)" "\<not> named ''content-length'' (''Authorization'', a)"
    "named ''content-length'' (''Content-Length'', a)"
    by (simp_all only: named_def fst_conv not_False_eq_True)
qed

lemma utf8_http_head:
  assumes "head_ok meth target fs"
  shows "utf8_ok (http_head meth target fs)"
proof (rule ascii_utf8_ok)
  have "ascii (concat (map field fs))" if "list_all field_ok fs"
    using that by (induction fs) (simp_all add: field_def field_okD byte_def)
  then show "ascii (http_head meth target fs)"
    using assms word_plain(5) by (simp add: head_ok_def http_head_def request_line_def byte_def)
qed

lemma parse_own_head:
  assumes "api_head_ok meth target fs auth" and "len \<le> MAX_BODY"
  shows "parse_api_head (api_head meth target fs auth len) = Inr (meth, target, len, Some auth)"
proof -
  let ?fs = "fs @ [(''Authorization'', auth), (''Content-Length'', dec len)]"
  have fs: "list_all field_ok ?fs"
    using assms(1) by (auto simp: api_head_ok_def own_fields plain_field_def list_all_iff)
  then have ok: "head_ok meth target ?fs"
    using assms(1) by (simp add: head_ok_def api_head_ok_def)
  have w: "word meth" "word target" using ok by (simp_all add: head_ok_def)
  have "LF \<notin> set (meth @ SP # target @ '' HTTP/1.1'')"
    using word_plain(2) [OF w(1)] word_plain(2) [OF w(2)] by simp
  from split_crlf_line [OF this, of "concat (map field ?fs) @ crlf"]
  have lines: "split_crlf (api_head meth target fs auth len) =
      (meth @ SP # target @ '' HTTP/1.1'') # map (\<lambda>f. fst f @ '': '' @ snd f) ?fs @ [[], []]"
    using split_crlf_fields [OF fs] by (simp add: api_head_def http_head_def request_line_def)
  have "split_on SP (meth @ SP # target @ SP # ''HTTP/1.1'') = [meth, target, ''HTTP/1.1'']"
    using word_plain(4) [OF w(1)] word_plain(4) [OF w(2)] by (simp add: split_on_sep)
  then have req: "request_line_of (meth @ SP # target @ '' HTTP/1.1'') = Inr (meth, target)"
    using word_plain(1) [OF w(1)] by (simp add: request_line_of_def)
  have "len < 2 ^ 64" using assms(2) by (simp add: MAX_BODY_def)
  then have "parse_uint (2 ^ 64) (dec len) = Some len" by (rule parse_uint_dec)
  moreover have "api_fields (map (\<lambda>f. fst f @ '': '' @ snd f) ?fs @ [[], []]) (0, None) =
      api_fields ((''Authorization'' @ '': '' @ auth) # (''Content-Length'' @ '': '' @ dec len) # [[], []]) (0, None)"
    using assms(1) api_fields_plain [of fs] by (simp add: api_head_ok_def)
  moreover have "field_ok (''Authorization'', auth)"
    using assms(1) by (simp add: own_fields api_head_ok_def)
  ultimately have fields: "api_fields (map (\<lambda>f. fst f @ '': '' @ snd f) ?fs @ [[], []]) (0, None) = Inr (len, Some auth)"
    using api_fields_one [of "(''Authorization'', auth)"] api_fields_one [of "(''Content-Length'', dec len)"] own_fields
    by simp
  show ?thesis
    using utf8_http_head [OF ok, folded api_head_def] assms(2) req fields
    by (simp add: parse_api_head_def lines ensure_def)
qed

text \<open>C30: A request is what the client wrote, however the network cuts it: from the head of a request with
  an Authorization and a Content-Length field among any others (but no Transfer-Encoding), and a body
  of that length, cut into pieces anywhere, the API reads the method, the path, the authorisation and
  exactly that body.\<close>

theorem request_read_in_any_pieces:
  assumes "api_head_ok meth target fs auth" and "length (api_head meth target fs auth (length body)) \<le> MAX_HEAD"
    and "length body \<le> MAX_BODY"
    and "concat cs = api_head meth target fs auth (length body) @ body" and "[] \<notin> set cs"
  shows "read_request (map Read cs) = Some (Inr \<lparr>rq_method = meth, rq_path = target,
    rq_authorization = Some auth, rq_body = body\<rparr>)"
proof -
  let ?head = "api_head meth target fs auth (length body)"
  have ok: "head_ok meth target (fs @ [(''Authorization'', auth), (''Content-Length'', dec (length body))])"
    using assms(1) by (auto simp: head_ok_def api_head_ok_def own_fields plain_field_def list_all_iff)
  from find_http_head [OF this, of body]
  obtain i where i: "window (crlf @ crlf) (?head @ body) = Some i" "i + 4 = length ?head"
    by (auto simp: find_head_end_def api_head_def)
  obtain buf rest where b: "read_api_head [] (map Read cs) = Some (Inr (buf, i + 4, map Read rest))"
    "?head @ body = buf @ concat rest" "i + 4 \<le> length buf" "[] \<notin> set rest"
  proof (rule read_api_head_chunks [OF i(1)])
    show "i + 4 \<le> MAX_HEAD" using assms(2) i(2) by simp
    show "?head @ body = [] @ concat cs" using assms(4) by simp
  qed (use assms(5) in auto)
  have "take (i + 4) buf = ?head" and d: "drop (i + 4) buf @ concat rest = body"
    using b(2,3) i(2) by (auto simp: append_eq_append_conv_if split: if_splits)
  then show ?thesis
    using parse_own_head [OF assms(1,3)] read_api_body_chunks [OF _ b(4), of "length body" "drop (i + 4) buf"]
    by (simp add: read_request_def b(1))
qed

subsection \<open>The token\<close>

lemma byte_of_inj: "byte_of x = byte_of y \<longleftrightarrow> x = y"
proof
  assume "byte_of x = byte_of y"
  then have "unat (byte_of x) = unat (byte_of y)" by simp
  then show "x = y"
    using byte_less [of x] byte_less [of y] by (simp add: byte_of_def unat_of_nat byte_inj)
qed simp

lemma xor_zero: "(a :: u8) XOR b = 0 \<longleftrightarrow> a = b"
  by (metis xor.assoc xor.left_neutral xor.right_neutral xor_self_eq)

lemma foldl_differences:
  "foldl (\<lambda>a (x, y). a OR (byte_of x XOR byte_of y)) a ps = 0 \<longleftrightarrow> a = 0 \<and> (\<forall>(x, y) \<in> set ps. x = y)"
proof (induction ps arbitrary: a)
  case (Cons p ps)
  then show ?case by (cases p) (auto simp: or_eq_0_iff xor_zero byte_of_inj)
qed simp

lemma same_bytes_eq: "same_bytes got want \<longleftrightarrow> got = want"
  unfolding same_bytes_def foldl_differences list_eq_iff_zip_eq by simp

lemma authorize_ok:
  "authorize w tf header = Inr () \<longleftrightarrow>
     (\<exists>text. aw_token w tf = Inr text \<and> trim text \<noteq> []
        \<and> (\<exists>g. Option.bind header (strip_prefix ''Bearer '') = Some g \<and> trim g = trim text))"
  by (auto simp: authorize_def same_bytes_eq Let_def split: sum.splits option.splits)

text \<open>C14: Only the token opens the API.  With a token file, a request that does not carry exactly the
  token the file holds now (blanks around it aside) is answered without looking at or changing any VIP: on
  a path of the API with 401 and a complaint about the token, or with 500 when the file cannot be read or
  holds nothing.  Only the health path answers without the token (a GET of it with 200), and a path the
  API does not have is a 404.\<close>

theorem only_the_token_opens_the_api:
  assumes "handle w reg (Some tf) rq = Some (a, reg')"
    and "\<not> (\<exists>text g. aw_token w tf = Inr text \<and> trim text \<noteq> [] \<and> trim g = trim text
            \<and> rq_authorization rq = Some (''Bearer '' @ g))"
  shows "reg' = reg
    \<and> (let pth = hd (split_on (CHR ''?'') (rq_path rq)) in
        if pth = ''/healthz''
        then a = (if rq_method rq = ''GET'' then (200, Fine) else (405, Complaint MethodNotAllowed))
        else if \<nexists>rest. pth = ''/api/v1/vips'' @ rest then a = (404, Complaint (NoSuchPath pth))
        else (case aw_token w tf of
                Inl _ \<Rightarrow> a = (500, Complaint TokenUnreadable)
              | Inr text \<Rightarrow> if trim text = [] then a = (500, Complaint TokenEmpty)
                            else a = (401, Complaint BadToken)))"
proof -
  define pth where "pth = hd (split_on (CHR ''?'') (rq_path rq))"
  have "authorize w tf (rq_authorization rq) \<noteq> Inr ()"
    using assms(2) by (auto simp: authorize_ok strip_prefix_Some bind_eq_Some_conv)
  then obtain e where e: "authorize w tf (rq_authorization rq) = Inl e"
    by (cases "authorize w tf (rq_authorization rq)") auto
  have refusal: "case aw_token w tf of Inl _ \<Rightarrow> e = (500, TokenUnreadable)
      | Inr text \<Rightarrow> if trim text = [] then e = (500, TokenEmpty) else e = (401, BadToken)"
    using e by (auto simp: authorize_def Let_def split: sum.splits if_splits)
  have "(a, reg') =
      (if pth = ''/healthz''
       then (if rq_method rq = ''GET'' then (200, Fine) else refused (405, MethodNotAllowed), reg)
       else (case strip_prefix ''/api/v1/vips'' pth of
               None \<Rightarrow> (refused (404, NoSuchPath pth), reg) | Some _ \<Rightarrow> (refused e, reg)))"
    using assms(1) e by (simp add: handle_def pth_def [symmetric] split: if_splits option.splits)
  then show ?thesis
    using refusal unfolding Let_def pth_def [symmetric]
    by (auto simp: refused_def strip_prefix_None strip_prefix_Some split: if_splits option.splits sum.splits)
qed

subsection \<open>Refusals and successes\<close>

lemma save_error: "save nd reg = (Inl e, reg') \<Longrightarrow> (\<exists>r. e = NotSaved r)"
  by (auto simp: save_def split: option.splits sum.splits)

lemma check_backends_error: "check_backends bs = Inl e \<Longrightarrow> \<exists>r. e = Invalid r"
  by (induction bs) (auto simp: ok_or_def ensure_def rbind_def split: option.splits if_splits sum.splits)

lemma check_health_error: "Vips.check_health h = Inl e \<Longrightarrow> \<exists>r. e = Invalid r"
  by (auto simp: check_health_def rbind_def ensure_def split: if_splits)

lemma check_vrrp_error: "check_vrrp vip v = Inl e \<Longrightarrow> \<exists>r. e = Invalid r"
  by (auto simp: check_vrrp_def rbind_def ensure_def split: if_splits option.splits ip_addr.splits)

lemma check_spec_error: "check_spec s = Inl e \<Longrightarrow> \<exists>r. e = Invalid r"
  by (auto simp: check_spec_def rbind_def ensure_def ok_or_def
      dest: check_backends_error check_health_error check_vrrp_error
      split: if_splits option.splits sum.splits)

lemma put_error:
  assumes "put nd reg name s fc = (Inl e, reg')"
  shows "\<exists>r. e = Invalid r \<or> e = Conflict r"
proof (cases "check_spec s")
  case (Inl err)
  then show ?thesis using assms check_spec_error by (auto simp: put_def)
next
  case (Inr c)
  then show ?thesis
    using assms
    by (auto simp: put_def update_vip_def create_vip_def health_ok_def bind_listener_def map_err_def
        rbind_def Let_def split: sum.splits option.splits if_splits prod.splits)
qed

text \<open>What an accepted change of a VIP has done.\<close>

lemma apply_accepted:
  assumes "registry_ok reg" and "apply_vip nd reg name s = (Inr created, reg')"
  obtains e where "map_of (vips reg') name = Some e" "e_spec e = s" "\<not> e_from_config e"
    "created \<longleftrightarrow> map_of (vips reg) name = None" "valid_name name = Inr ()"
    "\<And>f. state_file reg' = Some f \<Longrightarrow> \<exists>d. disk reg' = Some d \<and> map_of d name = Some s"
proof -
  obtain reg1 where name: "valid_name name = Inr ()" "\<not> is_config_vip reg name"
    and put: "put nd reg name s False = (Inr created, reg1)"
    and save: "save nd (reg1\<lparr>pending := bt_remove name (pending reg1)\<rparr>) = (Inr (), reg')"
    using assms(2) by (auto simp: apply_vip_def split: sum.splits if_splits prod.splits)
  let ?r = "reg1\<lparr>pending := bt_remove name (pending reg1)\<rparr>"
  obtain e where e: "vips reg1 = bt_insert name e (vips reg)" "e_spec e = s" "pending reg1 = pending reg"
    "created \<longleftrightarrow> map_of (vips reg) name = None"
    "case map_of (vips reg) name of None \<Rightarrow> e_from_config e = False
      | Some e0 \<Rightarrow> e_from_config e = e_from_config e0"
    by (rule put_accepted [OF registry_okD(1) [OF assms(1)] put]) (force split: option.splits)
  have api: "\<not> e_from_config e"
    using e(5) name(2) by (auto simp: is_config_vip_def split: option.splits)
  have vips: "vips reg' = vips reg1" "state_file reg' = state_file reg1"
    using save by (auto simp: save_def split: option.splits sum.splits)
  have ok: "bt_ok (vips ?r)" "bt_ok (pending ?r)"
    using registry_okD [OF assms(1)] e(1,3) by simp_all
  have at: "map_of (vips reg1) name = Some e"
    using e(1) registry_okD(1) [OF assms(1)] by simp
  have "\<exists>d. disk reg' = Some d \<and> map_of d name = Some s" if "state_file reg' = Some f" for f
    using save_writes [OF save] that vips(2) saved_vips [OF ok, of name] at api e(2) by simp
  then show ?thesis
    using that [of e] at vips(1) api e(2,4) name(1) by simp
qed

lemma on_vip_refused:
  assumes "files_again (aw_node w) = files (aw_node w)"
    and "on_vip w reg rq name = ((status, a), reg')" and "status \<notin> {200, 201, 500}"
  shows "reg' = reg"
proof -
  have "reg1 = reg" if "apply_vip (aw_node w) reg name s = (Inl e, reg1)" "fst (error e) \<noteq> 500" for s e reg1
  proof -
    have "\<not> (\<exists>r. e = NotSaved r)" using that(2) by (auto simp: error_def)
    then show ?thesis
      using that(1) put_refused [OF assms(1)] by (auto simp: apply_vip_def dest: save_error split: sum.splits if_splits prod.splits)
  qed
  moreover have "reg1 = reg" if "remove_vip (aw_node w) reg name = (Inl e, reg1)" "fst (error e) \<noteq> 500" for e reg1
  proof -
    have "\<not> (\<exists>r. e = NotSaved r)" using that(2) by (auto simp: error_def)
    then show ?thesis
      using that(1) by (auto simp: remove_vip_def dest: save_error split: option.splits if_splits)
  qed
  ultimately show ?thesis
    using assms(2,3)
    by (auto simp: on_vip_def refused_def split: if_splits sum.splits option.splits prod.splits)
qed

lemma handle_at:
  assumes "handle w reg tf rq = Some ((status, a), reg')"
  obtains "reg' = reg" | name where "((status, a), reg') = on_vip w reg rq name"
    "\<exists>c. hd (split_on (CHR ''?'') (rq_path rq)) = ''/api/v1/vips'' @ c # name"
proof (cases "strip_prefix ''/api/v1/vips'' (hd (split_on (CHR ''?'') (rq_path rq)))")
  case None
  then show ?thesis using assms that(1) by (auto simp: handle_def Let_def split: if_splits)
next
  case (Some rest)
  show ?thesis
  proof (cases "reg' = reg")
    case False
    then have "on_vips w reg rq (hd (split_on (CHR ''?'') (rq_path rq))) rest = Some ((status, a), reg')"
      using assms Some by (simp add: handle_def Let_def split: if_splits sum.splits)
    then have "rest \<noteq> []" "on_vip w reg rq (tl rest) = ((status, a), reg')"
      using False by (auto simp: on_vips_def Let_def split: if_splits)
    then show ?thesis
      using Some that(2) [of "tl rest"] by (cases rest) (auto simp: strip_prefix_Some)
  qed (rule that(1))
qed

text \<open>A request that is answered with an error has changed nothing: whatever the method, path, body and
  registry, an answer of 4xx leaves the registry as it was (as long as the health client's files read
  the same twice); only a 500 may report a change that was made and not saved.\<close>

theorem client_error_changes_nothing:
  assumes "handle w reg tf rq = Some ((status, a), reg')"
    and "files_again (aw_node w) = files (aw_node w)" and "400 \<le> status" and "status < 500"
  shows "reg' = reg"
  using assms(1)
proof (cases rule: handle_at)
  case (2 name)
  have "status \<noteq> 200" "status \<noteq> 201" "status \<noteq> 500" using assms(3,4) by auto
  then show ?thesis using on_vip_refused [OF assms(2) 2(1) [symmetric]] by simp
qed

text \<open>C29: A PUT that is answered with 200 or 201 has done what it says: the VIP of that name runs with the
  spec of the body, the answer is its view, the status says whether it is new, and the state file, when
  there is one, holds the spec.\<close>

theorem accepted_put_runs_and_is_saved:
  assumes "registry_ok reg" and "rq_method rq = ''PUT''"
    and "rq_path rq = ''/api/v1/vips/'' @ name" and "name \<noteq> []" and "CHR ''?'' \<notin> set name"
    and "handle w reg tf rq = Some ((status, a), reg')" and "status = 200 \<or> status = 201"
  shows "\<exists>s e. aw_spec w (rq_body rq) = Inr s \<and> map_of (vips reg') name = Some e \<and> e_spec e = s
    \<and> a = TheVip (get_vip reg' name) \<and> (status = 201 \<longleftrightarrow> map_of (vips reg) name = None)
    \<and> (\<forall>f. state_file reg' = Some f \<longrightarrow> (\<exists>d. disk reg' = Some d \<and> map_of d name = Some s))"
proof -
  let ?path = "''/api/v1/vips/'' @ name"
  have path: "hd (split_on (CHR ''?'') (rq_path rq)) = ?path"
    using assms(3,5) by simp
  have rest: "strip_prefix ''/api/v1/vips'' ?path = Some (CHR ''/'' # name)"
    by (simp add: strip_prefix_Some)
  have "on_vips w reg rq ?path (CHR ''/'' # name) = Some ((status, a), reg')"
    using assms(6,7) path rest by (auto simp: handle_def refused_def authorize_def Let_def
        split: if_splits sum.splits option.splits)
  then have "on_vip w reg rq name = ((status, a), reg')"
    using assms(4,7) by (auto simp: on_vips_def refused_def byte_def split: if_splits)
  then obtain s created where "aw_spec w (rq_body rq) = Inr s"
    and "apply_vip (aw_node w) reg name s = (Inr created, reg')"
    and "a = TheVip (get_vip reg' name)" and "status = (if created then 201 else 200)"
    using assms(2,7) by (auto simp: on_vip_def refused_def error_def split: sum.splits prod.splits apply_error.splits)
  then show ?thesis
    by (elim apply_accepted [OF assms(1)]) auto
qed

subsection \<open>What the path stands for\<close>

text \<open>The character after \<open>/api/v1/vips\<close> is taken for the slash whatever it is: a path the API does not
  have, such as \<open>/api/v1/vips-kube\<close>, reads, changes and removes the VIP that \<open>/api/v1/vips/kube\<close> does.\<close>

theorem any_character_is_the_slash:
  assumes "byte c < 128" and "c \<noteq> CHR ''?''" and "CHR ''?'' \<notin> set name" and "CHR ''/'' \<notin> set name" and "name \<noteq> []"
  shows "handle w reg tf (rq\<lparr>rq_path := ''/api/v1/vips'' @ c # name\<rparr>) =
         handle w reg tf (rq\<lparr>rq_path := ''/api/v1/vips/'' @ name\<rparr>)"
proof -
  have one: "handle w reg tf (rq\<lparr>rq_path := ''/api/v1/vips'' @ d # name\<rparr>) =
      (case (case tf of None \<Rightarrow> Inr () | Some f \<Rightarrow> authorize w f (rq_authorization rq)) of
         Inl e \<Rightarrow> Some (refused e, reg) | Inr _ \<Rightarrow> Some (on_vip w reg rq name))"
    if "byte d < 128" "d \<noteq> CHR ''?''" for d
  proof -
    let ?path = "''/api/v1/vips'' @ d # name"
    have path: "hd (split_on (CHR ''?'') ?path) = ?path"
      using that(2) assms(3) by simp
    have "strip_prefix ''/api/v1/vips'' ?path = Some (d # name)"
      by (simp add: strip_prefix_Some)
    moreover have "on_vip w reg (rq\<lparr>rq_path := ?path\<rparr>) name = on_vip w reg rq name"
      by (simp add: on_vip_def)
    then have "on_vips w reg (rq\<lparr>rq_path := ?path\<rparr>) ?path (d # name) = Some (on_vip w reg rq name)"
      using that(1) assms(4,5) by (simp add: on_vips_def)
    moreover have "?path \<noteq> ''/healthz''" by simp
    ultimately show ?thesis
      using path by (cases tf) (auto simp: handle_def Let_def simp del: append_Cons split: sum.splits)
  qed
  from one [OF assms(1,2)] one [of "CHR ''/''"] show ?thesis by (simp add: byte_def)
qed

text \<open>When that character is not one byte the task panics, and the client gets no answer at all.\<close>

theorem multibyte_name_is_not_answered:
  "\<exists>rq. utf8_ok (rq_path rq) \<and> rq_method rq = ''GET'' \<and> (\<forall>w reg. handle w reg None rq = None)"
proof -
  let ?path = "''/api/v1/vips'' @ [CHR 0xC3, CHR 0xA9]"
  let ?rq = "\<lparr>rq_method = ''GET'', rq_path = ?path, rq_authorization = None, rq_body = []\<rparr>"
  have "utf8_ok ?path" by code_simp
  moreover have "hd (split_on (CHR ''?'') ?path) = ?path" by simp
  then have "handle w reg None ?rq = None" for w reg
    by (simp add: handle_def on_vips_def byte_def)
  ultimately show ?thesis by (intro exI [of _ ?rq]) simp
qed

subsection \<open>Witnesses\<close>

definition demo_aw :: api_world where
  "demo_aw = \<lparr>aw_node = demo_node, aw_token = (\<lambda>_. Inr (''s3cret'' @ [LF])), aw_spec = (\<lambda>_. Inr (demo_spec 50)),
     aw_json = (\<lambda>_. [])\<rparr>"

definition demo_rq :: "string \<Rightarrow> string \<Rightarrow> request" where
  "demo_rq m p = \<lparr>rq_method = m, rq_path = p, rq_authorization = None, rq_body = []\<rparr>"

lemma request_read_in_any_pieces_witness:
  "read_request (map Read [api_head ''PUT'' ''/x'' [] ''Bearer s'' 2, ''h'', ''i'']) =
     Some (Inr \<lparr>rq_method = ''PUT'', rq_path = ''/x'', rq_authorization = Some ''Bearer s'', rq_body = ''hi''\<rparr>)"
proof -
  have ok: "api_head_ok ''PUT'' ''/x'' [] ''Bearer s''" by code_simp
  have len: "length (api_head ''PUT'' ''/x'' [] ''Bearer s'' (length ''hi'')) \<le> MAX_HEAD"
    and body: "length ''hi'' \<le> MAX_BODY"
    by (simp_all add: api_head_def http_head_def request_line_def field_def MAX_HEAD_def MAX_BODY_def dec.simps)
  have "api_head ''PUT'' ''/x'' [] ''Bearer s'' 2 \<noteq> []"
    by (simp add: api_head_def http_head_def request_line_def)
  then show ?thesis
    using request_read_in_any_pieces [OF ok len body, of "[api_head ''PUT'' ''/x'' [] ''Bearer s'' 2, ''h'', ''i'']"]
    by (simp add: numeral_2_eq_2)
qed

lemma only_the_token_opens_the_api_witness:
  "handle demo_aw demo_registry (Some ''token'') (demo_rq ''DELETE'' ''/api/v1/vips/kube'')
     = Some ((401, Complaint BadToken), demo_registry)"
proof -
  let ?rq = "demo_rq ''DELETE'' ''/api/v1/vips/kube''"
  have path: "hd (split_on (CHR ''?'') (rq_path ?rq)) = ''/api/v1/vips/kube''" by (simp add: demo_rq_def)
  have token: "trim (''s3cret'' @ [LF]) = ''s3cret''" by code_simp
  then have "authorize demo_aw ''token'' (rq_authorization ?rq) = Inl (401, BadToken)"
    by (simp add: authorize_def demo_aw_def demo_rq_def same_bytes_eq)
  then obtain a reg' where h: "handle demo_aw demo_registry (Some ''token'') ?rq = Some (a, reg')"
    by (auto simp: handle_def path)
  have "\<not> (\<exists>text g. aw_token demo_aw ''token'' = Inr text \<and> trim text \<noteq> [] \<and> trim g = trim text
      \<and> rq_authorization ?rq = Some (''Bearer '' @ g))"
    by (simp add: demo_rq_def)
  from only_the_token_opens_the_api [OF h this] show ?thesis
    unfolding h path Let_def using token by (simp add: demo_aw_def)
qed

lemma client_error_changes_nothing_witness:
  "snd (the (handle demo_aw demo_registry None (demo_rq ''DELETE'' ''/api/v1/vips/none''))) = demo_registry"
proof -
  let ?rq = "demo_rq ''DELETE'' ''/api/v1/vips/none''"
  have path: "hd (split_on (CHR ''?'') (rq_path ?rq)) = ''/api/v1/vips/none''" by (simp add: demo_rq_def)
  have h: "handle demo_aw demo_registry None ?rq = Some ((404, Complaint (Because (NoVip ''none''))), demo_registry)"
    by (simp add: handle_def path on_vips_def on_vip_def demo_rq_def remove_vip_def demo_registry error_def refused_def byte_def)
  have "files_again (aw_node demo_aw) = files (aw_node demo_aw)" by (simp add: demo_aw_def demo_node_def)
  from client_error_changes_nothing [OF h this] show ?thesis by (simp add: h)
qed

lemma accepted_put_runs_and_is_saved_witness:
  "\<exists>e. map_of (vips (snd (the (handle demo_aw demo_registry None (demo_rq ''PUT'' ''/api/v1/vips/kube''))))) ''kube'' = Some e
     \<and> e_spec e = demo_spec 50"
proof -
  let ?rq = "demo_rq ''PUT'' (''/api/v1/vips/'' @ ''kube'')"
  have path: "hd (split_on (CHR ''?'') (rq_path ?rq)) = ''/api/v1/vips/kube''" by (simp add: demo_rq_def)
  have "valid_name ''kube'' = Inr ()" by (rule valid_kube)
  then have "\<exists>reg'. apply_vip demo_node demo_registry ''kube'' (demo_spec 50) = (Inr False, reg')"
    using put_demo_again by (auto simp: apply_vip_def is_config_vip_def demo_registry demo_entry_def save_def demo_node_def
        split: option.splits)
  then obtain reg' where app: "apply_vip demo_node demo_registry ''kube'' (demo_spec 50) = (Inr False, reg')" by blast
  then have h: "handle demo_aw demo_registry None ?rq = Some ((200, TheVip (get_vip reg' ''kube'')), reg')"
    by (simp add: handle_def path on_vips_def on_vip_def demo_aw_def byte_def) (simp add: demo_rq_def on_vips_def on_vip_def byte_def Let_def)
  have "rq_method ?rq = ''PUT''" "rq_path ?rq = ''/api/v1/vips/'' @ ''kube''" "aw_spec demo_aw (rq_body ?rq) = Inr (demo_spec 50)"
    by (simp_all add: demo_rq_def demo_aw_def)
  from accepted_put_runs_and_is_saved [OF demo_registry_ok this(1,2) _ _ h] this(3) show ?thesis
    by (auto simp: h [simplified])
qed

lemma any_character_is_the_slash_witness:
  "handle demo_aw demo_registry None (demo_rq ''GET'' ''/api/v1/vips-kube'') =
     handle demo_aw demo_registry None (demo_rq ''GET'' ''/api/v1/vips/kube'')"
  using any_character_is_the_slash [of "CHR ''-''" "''kube''" demo_aw demo_registry None "demo_rq ''GET'' []"]
  by (simp add: demo_rq_def byte_def)

subsection \<open>Reading ends\<close>

lemma nonempty_read: "c \<noteq> [] \<Longrightarrow> length c = Suc (length (tl c))"
  by (cases c) simp_all

lemma head_end_small: "head_end buf = None \<Longrightarrow> length buf \<le> MAX_HEAD"
  by (auto simp: head_end_def split: option.splits if_splits)

lemma read_api_head_ends: "MAX_HEAD < length buf + length input \<Longrightarrow> read_api_head buf input \<noteq> None"
proof (induction buf input rule: read_api_head.induct)
  case (1 buf input)
  show ?case
  proof (cases "head_end buf")
    case None
    from head_end_small [OF None] obtain r rs where input: "input = r # rs"
      using "1.prems" by (cases input) auto
    show ?thesis
    proof (cases "\<exists>c. r = Read c \<and> c \<noteq> []")
      case True
      then obtain c where c: "r = Read c" "c \<noteq> []" by auto
      have "MAX_HEAD < length (buf @ c) + length rs"
        using "1.prems" nonempty_read [OF c(2)] by (simp add: input)
      from "1.IH" [OF None input c this] None c show ?thesis
        by (simp add: read_api_head.simps [of buf] input)
    next
      case False
      with None show ?thesis
        by (cases r) (simp_all add: read_api_head.simps [of buf] input)
    qed
  next
    case (Some x)
    then show ?thesis
      by (cases x) (simp_all add: read_api_head.simps [of buf])
  qed
qed

text \<open>Each read before the last one brought a byte, and the head was not too long before it.\<close>

lemma read_api_head_more:
  assumes "head_end buf = None" and "read_api_head buf input = Some (Inr y)"
  obtains c rs where "input = Read c # rs" and "c \<noteq> []" and "read_api_head (buf @ c) rs = Some (Inr y)"
proof (cases input)
  case (Cons r rs)
  with assms that show ?thesis
    by (cases r) (simp_all add: read_api_head.simps [of buf] split: if_splits)
qed (use assms in \<open>simp add: read_api_head.simps [of buf]\<close>)

lemma read_api_head_reads:
  "read_api_head buf input = Some (Inr (b, i, rest)) \<Longrightarrow>
     length input \<le> length rest + (MAX_HEAD + 1 - length buf)"
proof (induction buf input rule: read_api_head.induct)
  case (1 buf input)
  have step: "Suc n \<le> m + (k + 1 - l)" if "n \<le> m + (k + 1 - (l + Suc t))" "l \<le> k" for n m k l t :: nat
    using that by arith
  show ?case
  proof (cases "head_end buf")
    case None
    from read_api_head_more [OF None "1.prems"] obtain c rs where input: "input = Read c # rs"
      and c: "c \<noteq> []" and more: "read_api_head (buf @ c) rs = Some (Inr (b, i, rest))" .
    have "length rs \<le> length rest + (MAX_HEAD + 1 - (length buf + Suc (length (tl c))))"
      using "1.IH" [OF None input refl c more] unfolding length_append nonempty_read [OF c] .
    from step [OF this head_end_small [OF None]] show ?thesis
      by (simp only: input list.size)
  next
    case (Some x)
    then have "\<exists>j. read_api_head buf input = Some (Inr (buf, j, input)) \<or> (\<exists>e. read_api_head buf input = Some (Inl e))"
      by (cases x) (simp_all add: read_api_head.simps [of buf])
    with "1.prems" have "rest = input" by auto
    then show ?thesis by simp
  qed
qed

lemma read_api_body_ends:
  "len - length body \<le> length input \<Longrightarrow> \<exists>r. read_api_body len body input = Some r"
proof (induction len body input rule: read_api_body.induct)
  case (1 len body input)
  show ?case
  proof (cases "len \<le> length body")
    case False
    then obtain r rs where input: "input = r # rs"
      using "1.prems" by (cases input) auto
    show ?thesis
    proof (cases "\<exists>c. r = Read c \<and> c \<noteq> []")
      case True
      then obtain c where c: "r = Read c" "c \<noteq> []" and grows: "length c = Suc (length (tl c))" by auto
      have "len - length (body @ c) \<le> length rs"
        using "1.prems" grows input by simp
      from "1.IH" [OF False input c this] c False show ?thesis
        by (simp add: read_api_body.simps [of len body] input)
    next
      case no: False
      with False show ?thesis
        by (cases r) (simp_all add: read_api_body.simps [of len body] input)
    qed
  qed (simp add: read_api_body.simps [of len body])
qed

text \<open>No client keeps the API reading for ever: whatever it sends, in pieces as small as it likes,
  the reading of its request ends, with the request or with a refusal, after at most one read for each
  byte that a head and a body may have, and one.\<close>

theorem request_reading_ends:
  assumes "MAX_HEAD + 1 + MAX_BODY \<le> length input"
  shows "\<exists>r. read_request input = Some r"
proof -
  have "MAX_HEAD < length [] + length input" using assms by simp
  from read_api_head_ends [OF this] obtain r where r: "read_api_head [] input = Some r" by blast
  show ?thesis
  proof (cases r)
    case (Inl e)
    with r show ?thesis by (simp add: read_request_def)
  next
    case (Inr y)
    obtain buf i reads where y: "y = (buf, i, reads)" by (metis prod.exhaust)
    show ?thesis
    proof (cases "parse_api_head (take i buf)")
      case (Inl e)
      with r Inr y show ?thesis by (simp add: read_request_def)
    next
      case ok: (Inr q)
      obtain m p len auth where q: "q = (m, p, len, auth)" by (metis prod.exhaust)
      have "len \<le> MAX_BODY"
        using ok q by (auto simp: parse_api_head_def Let_def rbind_eq_Inr split: if_splits)
      then have "len - length (drop i buf) \<le> length reads"
        using read_api_head_reads [of "[]" input buf i reads] r Inr y assms by simp
      from read_api_body_ends [OF this] obtain z where "read_api_body len (drop i buf) reads = Some z" ..
      with r Inr y ok q show ?thesis
        by (cases z) (simp_all add: read_request_def)
    qed
  qed
qed

lemma request_reading_ends_witness:
  "\<exists>r. read_request (replicate (MAX_HEAD + 1 + MAX_BODY) (Read ''x'')) = Some r"
  by (rule request_reading_ends) simp

end
