(* ===== verification/Metrics_Page.thy ===== *)
theory Metrics_Page
  imports Metrics Vips_Props Rust_Text "HOL-Library.Product_Lexorder"
begin

text \<open>
  \<open>src/metrics.rs\<close>, the page: the catalog, \<open>render\<close>, the series computed at scrape time and the answer
  to a request read in pieces.  A registry's maps are given here as the lists of their entries in key
  order, which is how \<open>render\<close> goes through them.  What \<open>f64\<close> makes of a counter, a gauge and a sum,
  and how it prints, is a record of parameters; what \<open>process_series\<close> adds is an argument here and the subject of
  \<open>Metrics_Process\<close>.
\<close>

subsection \<open>The catalog\<close>

definition catalog :: "(string \<times> string \<times> string) list" where
  "catalog = [
     (''stormlb_build_info'', ''gauge'',
      ''Always 1; the version is the label.''),
     (''stormlb_router_connections_total'', ''counter'',
      ''Connections accepted by the router, by listener (http, https).''),
     (''stormlb_router_connections_active'', ''gauge'',
      ''Router connections open now, by listener.''),
     (''stormlb_router_requests_total'', ''counter'',
      ''Requests by route host (or unrouted) and status code: the first request of each connection, which is what the router routes. code=error: the backend gave no response.''),
     (''stormlb_router_request_duration_seconds'', ''histogram'',
      ''From the request being sent to the backend to its first response byte, by route host.''),
     (''stormlb_router_upstream_errors_total'', ''counter'',
      ''Backend failures by route host and kind (connect, no_response).''),
     (''stormlb_router_tls_handshake_errors_total'', ''counter'',
      ''TLS handshakes that failed or timed out.''),
     (''stormlb_router_routes'', ''gauge'',
      ''Hostnames in the route table.''),
     (''stormlb_router_route_refreshes_total'', ''counter'',
      ''Route-table refreshes from the apiserver, by result (ok, error).''),
     (''stormlb_router_tls_certificates_loaded'', ''gauge'',
      ''Certificate/key pairs loaded for the TLS listener.''),
     (''stormlb_router_tls_reloads_total'', ''counter'',
      ''Certificate pairs (re)loaded from changed files, by result (ok, error).''),
     (''stormlb_vip_connections_total'', ''counter'',
      ''Connections accepted on a VIP's L4 listener.''),
     (''stormlb_vip_connections_active'', ''gauge'',
      ''Connections open through a VIP now.''),
     (''stormlb_vip_no_healthy_backend_total'', ''counter'',
      ''Connections dropped because a VIP had no healthy backend.''),
     (''stormlb_vip_upstream_connect_errors_total'', ''counter'',
      ''Connections dropped because the chosen backend refused or failed.''),
     (''stormlb_vip_backend_healthy'', ''gauge'',
      ''1 if a VIP's backend passes its health check, else 0.''),
     (''stormlb_vip_vrrp_master'', ''gauge'',
      ''1 while this node is the VRRP Master for the VIP, else 0 (absent without VRRP).''),
     (''process_resident_memory_bytes'', ''gauge'',
      ''Resident memory of this stormlb process.''),
     (''process_open_fds'', ''gauge'',
      ''Open file descriptors of this stormlb process.''),
     (''process_max_fds'', ''gauge'',
      ''This process's open-file limit.''),
     (''process_cpu_seconds_total'', ''counter'',
      ''User and system CPU time of this stormlb process.''),
     (''process_start_time_seconds'', ''gauge'',
      ''When this process started, in seconds since the Unix epoch.'')]"

definition is_counter :: "string \<Rightarrow> bool" where
  "is_counter n \<longleftrightarrow> list_ex (\<lambda>(c, t, _). c = n \<and> t = ''counter'') catalog"

subsection \<open>The text exposition\<close>

record 'f floats =
  of_u64 :: "u64 \<Rightarrow> 'f"
  of_i64 :: "64 word \<Rightarrow> 'f"
  of_secs :: "nat \<Rightarrow> 'f"
  show_float :: "'f \<Rightarrow> string"

type_synonym 'v entries = "(key \<times> 'v) list"

type_synonym 'f extra = "string \<times> string \<times> 'f"

text \<open>The extra series go over the recorded ones, by the kind the catalog gives them.\<close>

definition add_extra :: "'f entries \<times> 'f entries \<Rightarrow> 'f extra \<Rightarrow> 'f entries \<times> 'f entries" where
  "add_extra cg x =
     (case (cg, x) of
        ((cs, gs), (n, l, v)) \<Rightarrow>
          (if is_counter n then (bt_insert (n, l) v cs, gs) else (cs, bt_insert (n, l) v gs)))"

definition of_name :: "string \<Rightarrow> 'v entries \<Rightarrow> 'v entries" where
  "of_name name es = filter (\<lambda>((n, _), _). n = name) es"

definition sample :: "'f floats \<Rightarrow> string \<Rightarrow> string \<Rightarrow> 'f \<Rightarrow> string" where
  "sample fl n l v = n @ l @ '' '' @ show_float fl v"

definition sample_lines :: "'f floats \<Rightarrow> string \<Rightarrow> 'f entries \<Rightarrow> string list" where
  "sample_lines fl name es = map (\<lambda>((n, l), v). sample fl n l v) (of_name name es)"

text \<open>\<open>le\<close> joins the series' own labels.\<close>

definition with_le :: "string \<Rightarrow> string \<Rightarrow> string" where
  "with_le l le =
     (if l = [] then ''{le='' @ [quote] @ le @ [quote] @ ''}''
      else butlast l @ '',le='' @ [quote] @ le @ [quote] @ ''}'')"

definition bucket_names :: "string list" where
  "bucket_names = [''0.005'', ''0.01'', ''0.025'', ''0.05'', ''0.1'', ''0.25'', ''0.5'', ''1'', ''2.5'', ''5'', ''10'']"

definition hist_lines :: "'f floats \<Rightarrow> string \<Rightarrow> string \<Rightarrow> hist \<Rightarrow> string list" where
  "hist_lines fl n l h =
     map2 (\<lambda>b c. n @ ''_bucket'' @ with_le l b @ '' '' @ dec (unat c)) bucket_names (bucket_counts h)
     @ [n @ ''_bucket'' @ with_le l ''+Inf'' @ '' '' @ dec (unat (hist_count h)),
        n @ ''_sum'' @ l @ '' '' @ show_float fl (of_secs fl (hist_sum h)),
        n @ ''_count'' @ l @ '' '' @ dec (unat (hist_count h))]"

definition section_lines ::
  "'f floats \<Rightarrow> 'f entries \<Rightarrow> 'f entries \<Rightarrow> hist entries \<Rightarrow> string \<times> string \<times> string \<Rightarrow> string list"
where
  "section_lines fl cs gs hs c =
     (case c of (name, ty, help) \<Rightarrow>
        let body =
          (if ty = ''counter'' then sample_lines fl name cs
           else if ty = ''gauge'' then sample_lines fl name gs
           else concat (map (\<lambda>((n, l), h). hist_lines fl n l h) (of_name name hs)))
        in if body = [] then []
           else [''# HELP '' @ name @ '' '' @ help, ''# TYPE '' @ name @ '' '' @ ty] @ body)"

definition page_lines ::
  "'f floats \<Rightarrow> u64 entries \<Rightarrow> 64 word entries \<Rightarrow> hist entries \<Rightarrow> 'f extra list \<Rightarrow> string list"
where
  "page_lines fl cs gs hs xs =
     (case foldl add_extra (map (\<lambda>(k, v). (k, of_u64 fl v)) cs, map (\<lambda>(k, v). (k, of_i64 fl v)) gs) xs of
        (cs', gs') \<Rightarrow> concat (map (section_lines fl cs' gs' hs) catalog))"

definition render ::
  "'f floats \<Rightarrow> u64 entries \<Rightarrow> 64 word entries \<Rightarrow> hist entries \<Rightarrow> 'f extra list \<Rightarrow> string"
where
  "render fl cs gs hs xs = concat (map (\<lambda>l. l @ [newline]) (page_lines fl cs gs hs xs))"

subsection \<open>Series of a scrape\<close>

definition vip_series :: "'f floats \<Rightarrow> vip_view \<Rightarrow> 'f extra list" where
  "vip_series fl v =
     map (\<lambda>(a, p, healthy). (''stormlb_vip_backend_healthy'',
            labels [(''vip'', w_name v), (''backend'', a @ '':'' @ dec (unat p))],
            of_i64 fl (if healthy then 1 else 0))) (w_backends v)
     @ (case w_vrrp v of
          None \<Rightarrow> []
        | Some s \<Rightarrow> [(''stormlb_vip_vrrp_master'', labels [(''vip'', w_name v)],
                      of_i64 fl (if s = ''master'' then 1 else 0))])"

definition scrape_series :: "'f floats \<Rightarrow> string \<Rightarrow> 'f extra list \<Rightarrow> registry option \<Rightarrow> 'f extra list" where
  "scrape_series fl version process reg =
     [(''stormlb_build_info'', labels [(''version'', version)], of_u64 fl 1)] @ process
     @ concat (map (vip_series fl) (case reg of None \<Rightarrow> [] | Some r \<Rightarrow> list_vips r))"

subsection \<open>A request to the metrics listener\<close>

text \<open>The bytes of the head, as they come: \<open>None\<close> while it waits (the code gives up after 10 s),
  \<open>Some None\<close> when the connection ended before.\<close>

fun metrics_head :: "string \<Rightarrow> read list \<Rightarrow> string option option" where
  "metrics_head h rs =
     (if window (crlf @ crlf) h \<noteq> None \<or> 8192 \<le> length h then Some (Some h)
      else (case rs of
              [] \<Rightarrow> None
            | ReadError _ # _ \<Rightarrow> Some None
            | Read c # cs \<Rightarrow> (if c = [] then Some None else metrics_head (h @ c) cs)))"

declare metrics_head.simps [simp del]

definition metrics_response :: "string \<times> string \<times> string \<Rightarrow> string" where
  "metrics_response a =
     (case a of (status, ctype, body) \<Rightarrow>
        ''HTTP/1.1 '' @ status @ crlf @ ''content-type: '' @ ctype @ crlf @ ''content-length: ''
        @ dec (length body) @ crlf @ ''connection: close'' @ crlf @ crlf @ body)"

definition metrics_task :: "string \<Rightarrow> read list \<Rightarrow> string option" where
  "metrics_task page rs =
     (case metrics_head [] rs of
        Some (Some h) \<Rightarrow> Some (metrics_response (metrics_answer page h))
      | _ \<Rightarrow> None)"

subsection \<open>What a page holds\<close>

text \<open>The entries of a registry, in key order.\<close>

definition lists :: "metrics \<Rightarrow> u64 entries \<Rightarrow> 64 word entries \<Rightarrow> hist entries \<Rightarrow> bool" where
  "lists m cs gs hs \<longleftrightarrow> bt_ok cs \<and> bt_ok gs \<and> bt_ok hs
     \<and> map_of cs = counters m \<and> map_of gs = gauges m \<and> map_of hs = hists m"

lemma bt_ok_map_values: "bt_ok (map (\<lambda>(k, v). (k, f v)) es) \<longleftrightarrow> bt_ok es"
  by (simp add: bt_ok_def comp_def case_prod_beta)

lemma map_of_map_values: "map_of (map (\<lambda>(k, v). (k, f v)) es) k = map_option f (map_of es k)"
  by (induction es) auto

text \<open>The extra series of a name that no other extra has end up with their value; other names' entries
  stay as they were.\<close>

lemma extras_ok:
  "bt_ok cs \<Longrightarrow> bt_ok gs \<Longrightarrow> foldl add_extra (cs, gs) xs = (cs', gs') \<Longrightarrow> bt_ok cs' \<and> bt_ok gs'"
proof (induction xs arbitrary: cs gs)
  case (Cons x xs)
  obtain n l v where x: "x = (n, l, v)" by (metis prod.exhaust)
  from Cons.IH [of "fst (add_extra (cs, gs) x)" "snd (add_extra (cs, gs) x)"] Cons.prems show ?case
    by (auto simp: add_extra_def x split: if_splits)
qed simp

lemma extras_keep:
  assumes "bt_ok cs" and "bt_ok gs" and "foldl add_extra (cs, gs) xs = (cs', gs')" and "\<forall>x \<in> set xs. fst x \<noteq> n"
  shows "map_of cs' (n, l) = map_of cs (n, l) \<and> map_of gs' (n, l) = map_of gs (n, l)"
  using assms
proof (induction xs arbitrary: cs gs)
  case (Cons x xs)
  obtain k lb v where x: "x = (k, lb, v)" by (metis prod.exhaust)
  have "k \<noteq> n" using Cons.prems(4) x by simp
  with Cons.IH [of "fst (add_extra (cs, gs) x)" "snd (add_extra (cs, gs) x)"] Cons.prems show ?case
    by (auto simp: add_extra_def x split: if_splits)
qed simp

lemma extras_set:
  assumes "bt_ok cs" and "bt_ok gs" and "foldl add_extra (cs, gs) xs = (cs', gs')" and "\<not> is_counter n"
    and "(n, l, v) \<in> set xs" and "\<forall>v'. (n, l, v') \<in> set xs \<longrightarrow> v' = v"
  shows "map_of gs' (n, l) = Some v"
  using assms(3,5,6)
proof (induction xs arbitrary: cs' gs' rule: rev_induct)
  case (snoc x xs)
  obtain c1 g1 where before: "foldl add_extra (cs, gs) xs = (c1, g1)" by (rule prod.exhaust)
  note ok = extras_ok [OF assms(1,2) before]
  obtain k lb u where x: "x = (k, lb, u)" by (metis prod.exhaust)
  have last: "(cs', gs') = add_extra (c1, g1) x" using snoc.prems(1) before by simp
  show ?case
  proof (cases "k = n \<and> lb = l")
    case True
    then have "u = v" using snoc.prems(3) x by simp
    with True last x assms(4) ok show ?thesis by (simp add: add_extra_def)
  next
    case False
    with snoc.prems(2,3) x have "(n, l, v) \<in> set xs" "\<forall>v'. (n, l, v') \<in> set xs \<longrightarrow> v' = v" by auto
    from snoc.IH [OF before this] False last x ok show ?thesis
      by (auto simp: add_extra_def split: if_splits)
  qed
qed simp

lemma sample_in_section:
  "((n, l), v) \<in> set es \<Longrightarrow> sample fl n l v \<in> set (sample_lines fl n es)"
  by (force simp: sample_lines_def of_name_def)

lemma section_counter:
  "sample fl n l v \<in> set (sample_lines fl n cs) \<Longrightarrow>
     sample fl n l v \<in> set (section_lines fl cs gs hs (n, ''counter'', help))"
  by (auto simp: section_lines_def Let_def)

lemma section_gauge:
  "sample fl n l v \<in> set (sample_lines fl n gs) \<Longrightarrow>
     sample fl n l v \<in> set (section_lines fl cs gs hs (n, ''gauge'', help))"
  by (auto simp: section_lines_def Let_def)

text \<open>The kinds of the names that are recorded.\<close>

lemma master_kind:
  "\<not> is_counter ''stormlb_vip_vrrp_master''"
  "\<exists>help. (''stormlb_vip_vrrp_master'', ''gauge'', help) \<in> set catalog"
  by (simp_all add: is_counter_def catalog_def)

lemma vrrp_series:
  fixes fl :: "'f floats"
  assumes "bt_ok (vips reg)" and "map_of (vips reg) n = Some e" and "e_vrrp e = Some i"
    and "\<forall>x \<in> set process. fst x \<noteq> ''stormlb_vip_vrrp_master''"
  defines "v \<equiv> of_i64 fl (if handle_name (vi_state (instances reg ! i)) = ''master'' then 1 else 0)"
  shows "(''stormlb_vip_vrrp_master'', labels [(''vip'', n)], v) \<in> set (scrape_series fl version process (Some reg))"
    and "(''stormlb_vip_vrrp_master'', labels [(''vip'', n)], v') \<in> set (scrape_series fl version process (Some reg))
      \<Longrightarrow> v' = v"
proof -
  have e: "(n, e) \<in> set (vips reg)" using assms(2) by (rule map_of_SomeD)
  have "(''stormlb_vip_vrrp_master'', labels [(''vip'', n)], v) \<in> set (vip_series fl (view reg n e))"
    using assms(3) by (simp add: vip_series_def view_def Let_def v_def)
  then show "(''stormlb_vip_vrrp_master'', labels [(''vip'', n)], v) \<in> set (scrape_series fl version process (Some reg))"
    using e by (auto simp: scrape_series_def list_vips_def intro!: bexI [of _ "(n, e)"])
  assume "(''stormlb_vip_vrrp_master'', labels [(''vip'', n)], v') \<in> set (scrape_series fl version process (Some reg))"
  then obtain k e' where k: "(k, e') \<in> set (vips reg)"
    and s: "(''stormlb_vip_vrrp_master'', labels [(''vip'', n)], v') \<in> set (vip_series fl (view reg k e'))"
    using assms(4) by (fastforce simp: scrape_series_def list_vips_def)
  from s have "labels [(''vip'', n)] = labels [(''vip'', k)]"
    by (auto simp: vip_series_def view_def Let_def split: option.splits)
  then have "k = n"
    using labels_inj [of "[(''vip'', n)]" "[(''vip'', k)]"] by (simp add: key_ok_def)
  then have "e' = e"
    using k e bt_ok_distinct [OF assms(1)] by (metis map_of_eq_Some_iff option.inject)
  with s \<open>k = n\<close> assms(3) show "v' = v"
    by (auto simp: vip_series_def view_def Let_def v_def)
qed

text \<open>The names of the series from \<open>/proc\<close>, and those no scrape adds.\<close>

definition process_name :: "string \<Rightarrow> bool" where
  "process_name n \<longleftrightarrow> take 8 n = ''process_''"

lemma counter_names:
  "(name, ''counter'', help) \<in> set catalog \<Longrightarrow> name \<notin> {''stormlb_build_info'',
     ''stormlb_vip_backend_healthy'', ''stormlb_vip_vrrp_master''}"
  by (auto simp: catalog_def)

lemma scraped_names:
  assumes "(n, l, v) \<in> set (scrape_series fl version process reg)"
  shows "n \<in> {''stormlb_build_info'', ''stormlb_vip_backend_healthy'', ''stormlb_vip_vrrp_master''}
    \<or> (n, l, v) \<in> set process"
  using assms by (auto simp: scrape_series_def vip_series_def split: option.splits)

subsection \<open>The page\<close>

text \<open>Whatever series of the process go with it, a scrape shows what was counted and who is Master.\<close>

lemma page_shows_counters:
  assumes "lists m cs gs hs" and "\<forall>x \<in> set process. process_name (fst x)"
    and "counters m (name, l) = Some c" and "(name, ''counter'', help) \<in> set catalog" and "\<not> process_name name"
  shows "sample fl name l (of_u64 fl c) \<in> set (page_lines fl cs gs hs (scrape_series fl version process reg))"
proof -
  let ?xs = "scrape_series fl version process reg"
  let ?cs = "map (\<lambda>(k, v). (k, of_u64 fl v)) cs" and ?gs = "map (\<lambda>(k, v). (k, of_i64 fl v)) gs"
  obtain cs' gs' where xs: "foldl add_extra (?cs, ?gs) ?xs = (cs', gs')" by (rule prod.exhaust)
  have ok: "bt_ok ?cs" "bt_ok ?gs"
    using assms(1) by (simp_all add: lists_def bt_ok_map_values)
  have page: "page_lines fl cs gs hs ?xs = concat (map (section_lines fl cs' gs' hs) catalog)"
    by (simp add: page_lines_def xs)
  have "\<forall>x \<in> set ?xs. fst x \<noteq> name"
  proof
    fix x assume "x \<in> set ?xs"
    moreover obtain k lb v where x: "x = (k, lb, v)" by (metis prod.exhaust)
    ultimately show "fst x \<noteq> name"
      using scraped_names [of k lb v] counter_names [OF assms(4)] assms(2,5) by fastforce
  qed
  from extras_keep [OF ok xs this, of l] have "map_of cs' (name, l) = Some (of_u64 fl c)"
    using assms(1,3) by (simp add: map_of_map_values lists_def)
  then have "sample fl name l (of_u64 fl c) \<in> set (section_lines fl cs' gs' hs (name, ''counter'', help))"
    by (intro section_counter sample_in_section map_of_SomeD)
  then show ?thesis
    unfolding page set_concat set_map using assms(4) by blast
qed

lemma page_shows_masters:
  assumes "lists m cs gs hs" and "bt_ok (vips reg)" and "\<forall>x \<in> set process. process_name (fst x)"
    and "map_of (vips reg) n = Some e" and "e_vrrp e = Some i"
  shows "sample fl ''stormlb_vip_vrrp_master'' (labels [(''vip'', n)])
      (of_i64 fl (if handle_name (vi_state (instances reg ! i)) = ''master'' then 1 else 0))
    \<in> set (page_lines fl cs gs hs (scrape_series fl version process (Some reg)))"
proof -
  let ?xs = "scrape_series fl version process (Some reg)"
  let ?cs = "map (\<lambda>(k, v). (k, of_u64 fl v)) cs" and ?gs = "map (\<lambda>(k, v). (k, of_i64 fl v)) gs"
  obtain cs' gs' where xs: "foldl add_extra (?cs, ?gs) ?xs = (cs', gs')" by (rule prod.exhaust)
  have ok: "bt_ok ?cs" "bt_ok ?gs"
    using assms(1) by (simp_all add: lists_def bt_ok_map_values)
  have page: "page_lines fl cs gs hs ?xs = concat (map (section_lines fl cs' gs' hs) catalog)"
    by (simp add: page_lines_def xs)
  let ?v = "of_i64 fl (if handle_name (vi_state (instances reg ! i)) = ''master'' then 1 else 0)"
  have free: "\<forall>x \<in> set process. fst x \<noteq> ''stormlb_vip_vrrp_master''"
    using assms(3) by (auto simp: process_name_def)
  note vrrp = vrrp_series [OF assms(2,4,5) free]
  have "map_of gs' (''stormlb_vip_vrrp_master'', labels [(''vip'', n)]) = Some ?v"
    using extras_set [OF ok xs master_kind(1) vrrp(1)] vrrp(2) by blast
  then have "sample fl ''stormlb_vip_vrrp_master'' (labels [(''vip'', n)]) ?v
      \<in> set (section_lines fl cs' gs' hs (''stormlb_vip_vrrp_master'', ''gauge'', h))" for h
    by (intro section_gauge sample_in_section map_of_SomeD)
  then show ?thesis
    unfolding page set_concat set_map using master_kind(2) by blast
qed

definition demo_floats :: "int floats" where
  "demo_floats = \<lparr>of_u64 = uint, of_i64 = sint, of_secs = int, show_float = (\<lambda>x. dec (nat x))\<rparr>"

definition demo_vrrp_registry :: registry where
  "demo_vrrp_registry = \<lparr>vips = [(''kube'', (demo_entry 50 False)\<lparr>e_vrrp := Some 0\<rparr>)], pending = [],
     state_file = None, instances = [\<lparr>vi_params = vrrp_params \<lparr>vs_interface = ''eth0'', vs_vrid = 51,
       vs_priority = 100, vs_preempt = True, vs_advert_interval_secs = 1\<rparr> (Ipv4 192 168 8 50),
       vi_stop = False, vi_state = 2\<rparr>], disk = None\<rparr>"

end
