(* ===== verification/Serving.thy ===== *)
theory Serving
  imports Api_Props Metrics_Page Router_Listen
begin

text \<open>
  Serving HTTP on a listener: \<open>run\<close> and \<open>serve\<close> of \<open>src/api.rs\<close> and of \<open>src/metrics.rs\<close>, with what a
  connection's task does under its time limit.

  A client is the instants (in nanoseconds after the connection was accepted) at which its reads
  answer, and how much of the answer it takes before it goes away or the limit ends the task.  A
  listener is the sequence of what \<open>accept\<close> answers, for the API in the order in which the requests are
  handled; tasks that handle requests in parallel are the subject of \<open>Vips_Concurrent\<close>.
\<close>

subsection \<open>Clients and limits\<close>

record visitor =
  c_reads :: "(nat \<times> read) list"
  c_takes :: nat

datatype accepted = Connected visitor | NotAccepted

definition API_LIMIT :: nat where "API_LIMIT = 30 * 10 ^ 9"
definition HEAD_LIMIT :: nat where "HEAD_LIMIT = 10 * 10 ^ 9"

text \<open>The reads that answer before the limit: the task sees no others.\<close>

definition in_time :: "nat \<Rightarrow> (nat \<times> read) list \<Rightarrow> read list" where
  "in_time limit rs = map snd (takeWhile (\<lambda>(t, _). t < limit) rs)"

subsection \<open>The API\<close>

text \<open>The limit is around the whole task: reading, handling and writing.\<close>

definition api_conn :: "api_world \<Rightarrow> registry \<Rightarrow> string option \<Rightarrow> visitor \<Rightarrow> string option \<times> registry" where
  "api_conn w reg tf c =
     (case conn_task w reg tf (in_time API_LIMIT (c_reads c)) of
        None \<Rightarrow> (None, reg)
      | Some (text, reg') \<Rightarrow> (Some (take (c_takes c) text), reg'))"

type_synonym visits = "(api_world \<times> accepted) list"

fun api_serve :: "string option \<Rightarrow> registry \<Rightarrow> visits \<Rightarrow> string option list \<times> registry" where
  "api_serve tf reg [] = ([], reg)"
| "api_serve tf reg ((w, NotAccepted) # vs) =
     (case api_serve tf reg vs of (as, reg') \<Rightarrow> (None # as, reg'))"
| "api_serve tf reg ((w, Connected c) # vs) =
     (case api_conn w reg tf c of
        (a, reg1) \<Rightarrow> (case api_serve tf reg1 vs of (as, reg') \<Rightarrow> (a # as, reg')))"

datatype api_stop = Refused api_refusal | Unbound sock_addr string

text \<open>\<open>bound\<close> is what binding an address answers.\<close>

definition api_run ::
  "(sock_addr \<Rightarrow> (string, unit) result) \<Rightarrow> api_cfg \<Rightarrow> registry \<Rightarrow> visits
     \<Rightarrow> (api_stop, string option list \<times> registry) result"
where
  "api_run bound cfg reg vs =
     (case api_preflight cfg of
        Inl e \<Rightarrow> Inl (Refused e)
      | Inr listen \<Rightarrow>
          (case bound listen of
             Inl e \<Rightarrow> Inl (Unbound listen e)
           | Inr _ \<Rightarrow> Inr (api_serve (api_token_file cfg) reg vs)))"

subsection \<open>The metrics page\<close>

text \<open>Here the limit is around the head alone; \<open>page\<close> is what \<open>render\<close> answers at the time.\<close>

definition metrics_conn :: "string \<Rightarrow> visitor \<Rightarrow> string option" where
  "metrics_conn page c =
     map_option (take (c_takes c)) (metrics_task page (in_time HEAD_LIMIT (c_reads c)))"

definition metrics_serve :: "(string \<times> accepted) list \<Rightarrow> string option list" where
  "metrics_serve vs =
     map (\<lambda>(page, a). case a of NotAccepted \<Rightarrow> None | Connected c \<Rightarrow> metrics_conn page c) vs"

text \<open>One task for each listener; \<open>visits\<close> is what happens on it.\<close>

definition metrics_run ::
  "net_world \<Rightarrow> metrics_cfg \<Rightarrow> (string \<Rightarrow> (string \<times> accepted) list)
     \<Rightarrow> (string, (string \<times> string option list) list) result option"
where
  "metrics_run nw cfg visits =
     map_option (map_sum id (map (\<lambda>a. (a, metrics_serve (visits a))))) (bind_listeners nw (metrics_listen cfg))"

subsection \<open>Clients without the token\<close>

text \<open>A connection whose request arrives whole and in time, and is authorised.\<close>

definition token_holder :: "string \<Rightarrow> api_world \<times> accepted \<Rightarrow> bool" where
  "token_holder tf v =
     (case v of
        (w, NotAccepted) \<Rightarrow> False
      | (w, Connected c) \<Rightarrow>
          (case read_request (in_time API_LIMIT (c_reads c)) of
             Some (Inr rq) \<Rightarrow> authorize w tf (rq_authorization rq) = Inr ()
           | _ \<Rightarrow> False))"

lemma unauthorised_changes_nothing:
  "handle w reg (Some tf) rq = Some (a, reg') \<Longrightarrow> authorize w tf (rq_authorization rq) \<noteq> Inr () \<Longrightarrow> reg' = reg"
  by (auto simp: handle_def Let_def split: if_splits option.splits sum.splits)

lemma outsider_changes_nothing:
  assumes "\<not> token_holder tf (w, Connected c)"
  shows "snd (api_conn w reg (Some tf) c) = reg"
proof (cases "read_request (in_time API_LIMIT (c_reads c))")
  case (Some r)
  show ?thesis
  proof (cases r)
    case (Inr rq)
    have "authorize w tf (rq_authorization rq) \<noteq> Inr ()"
      using assms by (simp add: token_holder_def Some Inr)
    then show ?thesis
      using unauthorised_changes_nothing [of w reg tf rq]
      by (cases "handle w reg (Some tf) rq") (auto simp: api_conn_def conn_task_def Some Inr)
  qed (simp add: api_conn_def conn_task_def Some)
qed (simp add: api_conn_def conn_task_def)

text \<open>C15: Whoever lacks the token does not exist for those who have it.  Take any sequence of connections
  to an API with a token file: failed accepts, clients that stall past 30 seconds, send rubbish or
  close, clients whose request does not carry the token of the moment, and the others.  The others get
  the answers, and leave the registry, that they would if they were alone.\<close>

theorem outsiders_do_not_interfere:
  "api_serve (Some tf) reg (filter (token_holder tf) vs) =
     (map snd (filter (\<lambda>x. token_holder tf (fst x)) (zip vs (fst (api_serve (Some tf) reg vs)))),
      snd (api_serve (Some tf) reg vs))"
proof (induction vs arbitrary: reg)
  case (Cons v vs)
  obtain w a where v: "v = (w, a)" by fastforce
  show ?case
  proof (cases a)
    case NotAccepted
    then show ?thesis
      using Cons [of reg] by (simp add: v admitted_def case_prod_beta)
  next
    case (Connected c)
    obtain x reg1 where step: "api_conn w reg (Some tf) c = (x, reg1)" by fastforce
    show ?thesis
    proof (cases "token_holder tf (w, Connected c)")
      case True
      then show ?thesis using Cons [of reg1] by (simp add: v Connected step case_prod_beta)
    next
      case False
      then have "reg1 = reg" using outsider_changes_nothing [OF False, of reg] step by simp
      then show ?thesis using False Cons [of reg] by (simp add: v Connected step case_prod_beta)
    qed
  qed
qed simp

subsection \<open>Scraping\<close>

lemma metrics_head_chunks:
  assumes "window (crlf @ crlf) (h @ concat cs) \<noteq> None" and "[] \<notin> set cs"
  shows "\<exists>rest. metrics_head h (map Read cs) = Some (Some (h @ rest))"
  using assms
proof (induction cs arbitrary: h)
  case Nil
  then show ?case by (simp add: metrics_head.simps)
next
  case (Cons c cs)
  show ?case
  proof (cases "window (crlf @ crlf) h \<noteq> None \<or> 8192 \<le> length h")
    case True
    then show ?thesis by (auto simp: metrics_head.simps [of h])
  next
    case False
    obtain rest where "metrics_head (h @ c) (map Read cs) = Some (Some ((h @ c) @ rest))"
      using Cons.IH [of "h @ c"] Cons.prems by auto
    then show ?thesis using False Cons.prems by (auto simp: metrics_head.simps [of h])
  qed
qed

lemma in_time_all:
  "list_all (\<lambda>(t, _). t < limit) rs \<Longrightarrow> in_time limit rs = map snd rs"
  by (induction rs) (auto simp: in_time_def)

text \<open>A scrape is answered with the page: the request line of \<open>GET /metrics\<close> in the first read, a head that
  ends, in as many reads as it likes but within ten seconds.\<close>

theorem scrape_is_answered:
  assumes "c_reads c = map2 Pair ts (map Read (pieces :: string list))" and "length ts = length pieces"
    and "list_all (\<lambda>t. t < HEAD_LIMIT) ts" and "[] \<notin> set pieces"
    and "pieces = (''GET /metrics HTTP/1.1'' @ CR # line) # others"
    and "window (crlf @ crlf) (concat pieces) \<noteq> None"
  shows "metrics_serve [(page, Connected c)] =
    [Some (take (c_takes c) (metrics_response (''200 OK'', ''text/plain; version=0.0.4; charset=utf-8'', page)))]"
proof -
  have "list_all (\<lambda>(t, _). t < HEAD_LIMIT) (c_reads c)"
    using assms(3) by (auto simp: assms(1) list_all_iff dest: set_zip_leftD)
  then have reads: "in_time HEAD_LIMIT (c_reads c) = map Read pieces"
    using assms(2) by (simp add: in_time_all assms(1))
  let ?one = "''GET /metrics HTTP/1.1'' @ CR # line"
  obtain rest where "metrics_head ?one (map Read others) = Some (Some (?one @ rest))"
    using metrics_head_chunks [of ?one others] assms(4-6) by auto
  then obtain r where h: "metrics_head [] (map Read pieces) = Some (Some (?one @ r))"
    by (simp add: assms(5) metrics_head.simps [of "[]"])
  have "hd (split_on CHR 0x0D (?one @ r)) = ''GET /metrics HTTP/1.1''"
    by simp
  then have "metrics_answer page (?one @ r) = (''200 OK'', ''text/plain; version=0.0.4; charset=utf-8'', page)"
    by (simp add: metrics_answer_def Let_def)
  then show ?thesis
    by (simp add: metrics_serve_def metrics_conn_def metrics_task_def reads h)
qed

end
