(* ===== verification/Metrics_Process.thy ===== *)
theory Metrics_Process
  imports Metrics_Page
begin

text \<open>
  The \<open>process_*\<close> series of \<open>src/metrics.rs\<close>: what the process reads of itself in \<open>/proc\<close>.  The files'
  texts, the two \<open>sysconf\<close> values, the open descriptors and the limit are what the system answered;
  \<open>f64\<close>'s parser and arithmetic are a record of parameters.
\<close>

subsection \<open>Reading /proc\<close>

record 'f float_ops =
  parse_float :: "string \<Rightarrow> 'f option"
  of_count :: "nat \<Rightarrow> 'f"
  times_float :: "'f \<Rightarrow> 'f \<Rightarrow> 'f"
  plus_float :: "'f \<Rightarrow> 'f \<Rightarrow> 'f"
  divide_float :: "'f \<Rightarrow> 'f \<Rightarrow> 'f"

record 'f proc_world =
  page_size :: 'f
  clock_tick :: 'f
  self_statm :: "(string, string) result"
  self_fds :: "nat option"
  max_files :: "nat option"
  self_stat :: "(string, string) result"
  sys_stat :: "(string, string) result"

text \<open>\<open>str::lines\<close>: without the line's end, a line feed or a carriage return and one.\<close>

definition strip_end :: "string \<Rightarrow> string" where
  "strip_end l =
     (if l = [] \<or> last l \<noteq> LF then l
      else (let m = butlast l in if m \<noteq> [] \<and> last m = CR then butlast m else m))"

definition text_lines :: "string \<Rightarrow> string list" where
  "text_lines t = map strip_end (split_incl LF t)"

text \<open>\<open>nth\<close> and \<open>get\<close>.\<close>

definition word_at :: "string list \<Rightarrow> nat \<Rightarrow> string option" where
  "word_at ws i = (if i < length ws then Some (ws ! i) else None)"

definition ok_text :: "(string, string) result \<Rightarrow> string option" where
  "ok_text r = (case r of Inl _ \<Rightarrow> None | Inr t \<Rightarrow> Some t)"

text \<open>The words after the last closing parenthesis, and the one that is field \<open>i\<close> of the whole line.\<close>

definition stat_rest :: "string \<Rightarrow> string list" where
  "stat_rest stat = (case rsplit_once (CHR '')'') stat of None \<Rightarrow> [] | Some (_, r) \<Rightarrow> split_whitespace r)"

definition stat_field :: "'f float_ops \<Rightarrow> string list \<Rightarrow> nat \<Rightarrow> 'f option" where
  "stat_field ops rest i = Option.bind (word_at rest (i - 3)) (parse_float ops)"

fun boot_time :: "'f float_ops \<Rightarrow> string list \<Rightarrow> 'f option" where
  "boot_time ops [] = None"
| "boot_time ops (l # ls) =
     (case Option.bind (strip_prefix ''btime '' l) (\<lambda>v. parse_float ops (trim v)) of
        Some b \<Rightarrow> Some b
      | None \<Rightarrow> boot_time ops ls)"

definition series_of :: "string \<Rightarrow> 'f option \<Rightarrow> 'f extra list" where
  "series_of name v = (case v of None \<Rightarrow> [] | Some x \<Rightarrow> [(name, [], x)])"

definition stat_series :: "'f float_ops \<Rightarrow> 'f proc_world \<Rightarrow> string \<Rightarrow> 'f extra list" where
  "stat_series ops w stat =
     (let rest = stat_rest stat;
          boot = Option.bind (ok_text (sys_stat w)) (\<lambda>t. boot_time ops (text_lines t))
      in series_of ''process_cpu_seconds_total''
           (case (stat_field ops rest 14, stat_field ops rest 15) of
              (Some u, Some s) \<Rightarrow> Some (divide_float ops (plus_float ops u s) (clock_tick w))
            | _ \<Rightarrow> None)
         @ series_of ''process_start_time_seconds''
             (case (stat_field ops rest 22, boot) of
                (Some start, Some b) \<Rightarrow> Some (plus_float ops b (divide_float ops start (clock_tick w)))
              | _ \<Rightarrow> None))"

definition process_series :: "'f float_ops \<Rightarrow> 'f proc_world \<Rightarrow> 'f extra list" where
  "process_series ops w =
     series_of ''process_resident_memory_bytes''
       (Option.bind (ok_text (self_statm w)) (\<lambda>t.
          map_option (\<lambda>rss. times_float ops rss (page_size w))
            (Option.bind (word_at (split_whitespace t) 1) (parse_float ops))))
     @ series_of ''process_open_fds'' (map_option (of_count ops) (self_fds w))
     @ series_of ''process_max_fds'' (map_option (of_count ops) (max_files w))
     @ (case ok_text (self_stat w) of None \<Rightarrow> [] | Some stat \<Rightarrow> stat_series ops w stat)"

subsection \<open>What the kernel writes is what is read\<close>

lemma series_of_name: "x \<in> set (series_of n v) \<Longrightarrow> fst x = n"
  by (auto simp: series_of_def split: option.splits)

lemma stat_names: "x \<in> set (stat_series ops w stat) \<Longrightarrow> process_name (fst x)"
  by (auto simp: stat_series_def Let_def process_name_def dest!: series_of_name)

lemma process_names: "x \<in> set (process_series ops w) \<Longrightarrow> process_name (fst x)"
  by (cases "ok_text (self_stat w)")
    (auto simp: process_series_def process_name_def stat_names [unfolded process_name_def] dest!: series_of_name)

text \<open>Words with blanks between them.\<close>

definition spaced :: "string list \<Rightarrow> string" where
  "spaced ws = concat (map (\<lambda>w. SP # w) ws)"

lemma split_spaced: "list_all word ws \<Longrightarrow> split_whitespace (spaced ws @ [LF]) = ws"
proof (induction ws)
  case Nil
  then show ?case by (simp add: spaced_def)
next
  case (Cons v ws)
  have "is_ws (hd (spaced ws @ [LF]))" by (cases ws) (simp_all add: spaced_def)
  then have "split_whitespace (v @ (spaced ws @ [LF])) = v # split_whitespace (spaced ws @ [LF])"
    using Cons.prems by (intro split_whitespace_word) simp_all
  with Cons show ?case by (simp add: spaced_def)
qed

text \<open>proc(5): pid, the command in parentheses, and the fields from the third on.\<close>

definition stat_line :: "nat \<Rightarrow> string \<Rightarrow> string list \<Rightarrow> string" where
  "stat_line pid comm fs = dec pid @ '' ('' @ comm @ '')'' @ spaced fs @ [LF]"

lemma stat_rest_line:
  assumes "list_all word fs" and "list_all (\<lambda>f. CHR '')'' \<notin> set f) fs"
  shows "stat_rest (stat_line pid comm fs) = fs"
proof -
  have "CHR '')'' \<notin> set (spaced fs @ [LF])"
    using assms(2) by (auto simp: spaced_def list_all_iff)
  then have "rsplit_once (CHR '')'') (stat_line pid comm fs) = Some (dec pid @ '' ('' @ comm, spaced fs @ [LF])"
    by (simp add: rsplit_once_Some stat_line_def)
  then show ?thesis by (simp add: stat_rest_def split_spaced [OF assms(1)])
qed

text \<open>The process reports its own times.  Whatever the command is called, blanks and parentheses included,
  the fields the kernel numbers 14, 15 and 22 are the ones that are read: the CPU seconds are user plus
  system ticks over the tick rate, the start time is the boot time plus the start ticks over it; and every
  series of the process has a name the recorded metrics do not use.\<close>

theorem process_times_are_read:
  assumes "self_stat w = Inr (stat_line pid comm fs)" and "list_all word fs"
    and "list_all (\<lambda>f. CHR '')'' \<notin> set f) fs" and "20 \<le> length fs"
    and "parse_float ops (fs ! 11) = Some user" and "parse_float ops (fs ! 12) = Some sys"
    and "parse_float ops (fs ! 19) = Some start"
    and "sys_stat w = Inr t" and "boot_time ops (text_lines t) = Some boot"
  shows "(''process_cpu_seconds_total'', [], divide_float ops (plus_float ops user sys) (clock_tick w))
      \<in> set (process_series ops w)
    \<and> (''process_start_time_seconds'', [], plus_float ops boot (divide_float ops start (clock_tick w)))
      \<in> set (process_series ops w)
    \<and> list_all (\<lambda>x. process_name (fst x)) (process_series ops w)"
proof -
  have "stat_rest (stat_line pid comm fs) = fs" by (rule stat_rest_line [OF assms(2,3)])
  then have "stat_field ops (stat_rest (stat_line pid comm fs)) 14 = Some user"
    "stat_field ops (stat_rest (stat_line pid comm fs)) 15 = Some sys"
    "stat_field ops (stat_rest (stat_line pid comm fs)) 22 = Some start"
    using assms(4-7) by (simp_all add: stat_field_def word_at_def)
  then show ?thesis
    using assms(1,8,9) process_names [of _ ops w]
    by (simp add: process_series_def stat_series_def ok_text_def series_of_def Let_def list_all_iff)
qed

definition demo_ops :: "nat float_ops" where
  "demo_ops = \<lparr>parse_float = (\<lambda>s. if s \<noteq> [] \<and> list_all is_digit s then Some (digits_val s) else None),
     of_count = (\<lambda>n. n), times_float = (*), plus_float = (+), divide_float = (div)\<rparr>"

definition demo_proc :: "nat proc_world" where
  "demo_proc = \<lparr>page_size = 4096, clock_tick = 100, self_statm = Inl ''gone'', self_fds = None, max_files = None,
     self_stat = Inr (stat_line 7 ''a) b'' (replicate 11 ''S'' @ replicate 9 ''400'')),
     sys_stat = Inr (''cpu 1 2'' @ [LF] @ ''btime 1000'' @ [LF])\<rparr>"

lemma demo_numbers: "parse_float demo_ops ''400'' = Some 400" "parse_float demo_ops ''1000'' = Some 1000"
  by (simp_all add: demo_ops_def is_digit_def digits_val_def digit_val_def byte_def)

lemma demo_words: "word ''400''" "word ''S''" "bare ''1000''"
  by (code_simp)+

lemma process_times_are_read_witness:
  "(''process_cpu_seconds_total'', [], 8) \<in> set (process_series demo_ops demo_proc)
   \<and> (''process_start_time_seconds'', [], 1004) \<in> set (process_series demo_ops demo_proc)"
proof -
  let ?fs = "replicate 11 ''S'' @ replicate 9 ''400''"
  have files: "self_stat demo_proc = Inr (stat_line 7 ''a) b'' ?fs)"
    "sys_stat demo_proc = Inr (''cpu 1 2'' @ [LF] @ ''btime 1000'' @ [LF])"
    by (simp_all add: demo_proc_def)
  have words: "list_all word ?fs" "list_all (\<lambda>f. CHR '')'' \<notin> set f) ?fs" "20 \<le> length ?fs"
    by (simp_all add: list_all_iff demo_words)
  have fields: "parse_float demo_ops (?fs ! 11) = Some 400" "parse_float demo_ops (?fs ! 12) = Some 400"
    "parse_float demo_ops (?fs ! 19) = Some 400"
    by (simp_all add: nth_append demo_numbers)
  have boot: "boot_time demo_ops (text_lines (''cpu 1 2'' @ [LF] @ ''btime 1000'' @ [LF])) = Some 1000"
    by (simp add: text_lines_def strip_end_def demo_words demo_numbers)
  have "divide_float demo_ops (plus_float demo_ops 400 400) (clock_tick demo_proc) = 8"
    "plus_float demo_ops 1000 (divide_float demo_ops 400 (clock_tick demo_proc)) = 1004"
    by (simp_all add: demo_ops_def demo_proc_def)
  then show ?thesis
    using process_times_are_read [OF files(1) words fields files(2) boot] by simp
qed

subsection \<open>The whole page\<close>

text \<open>C39: The page tells what is.  On every node, whatever is scraped with it, a scrape shows each counter
  of the catalogue that has counted, with its value; only the names that begin with \<open>process_\<close> are left to
  the process's own series.  And where the node balances VIPs, it shows for every VIP with VRRP a line of its
  own that says whether its instance is Master now, whatever else was recorded, scraped or named.\<close>

theorem page_tells_counters_and_masters:
  fixes fl :: "'f floats" and ops :: "'f float_ops" and pw :: "'f proc_world" and version :: string
  assumes "lists m cs gs hs"
  defines "page \<equiv> \<lambda>reg. set (page_lines fl cs gs hs (scrape_series fl version (process_series ops pw) reg))"
  shows "(\<forall>reg name l c help. counters m (name, l) = Some c \<longrightarrow> (name, ''counter'', help) \<in> set catalog
        \<longrightarrow> \<not> process_name name \<longrightarrow> sample fl name l (of_u64 fl c) \<in> page reg)
    \<and> (\<forall>reg n e i. bt_ok (vips reg) \<longrightarrow> map_of (vips reg) n = Some e \<longrightarrow> e_vrrp e = Some i
        \<longrightarrow> sample fl ''stormlb_vip_vrrp_master'' (labels [(''vip'', n)])
              (of_i64 fl (if handle_name (vi_state (instances reg ! i)) = ''master'' then 1 else 0)) \<in> page (Some reg))"
proof -
  have own: "\<forall>x \<in> set (process_series ops pw). process_name (fst x)"
    using process_names by blast
  then show ?thesis
    unfolding page_def
    by (intro conjI allI impI page_shows_counters [OF assms(1)] page_shows_masters [OF assms(1)])
qed

text \<open>For the witness: a system that answers nothing.\<close>

definition silent_ops :: "int float_ops" where
  "silent_ops = \<lparr>parse_float = (\<lambda>_. None), of_count = int, times_float = (*), plus_float = (+), divide_float = (div)\<rparr>"

definition silent_proc :: "int proc_world" where
  "silent_proc = \<lparr>page_size = 4096, clock_tick = 100, self_statm = Inl ''ENOENT'', self_fds = None, max_files = None,
     self_stat = Inl ''ENOENT'', sys_stat = Inl ''ENOENT''\<rparr>"

lemma page_tells_counters_and_masters_witness:
  "''stormlb_router_tls_handshake_errors_total 3''
     \<in> set (page_lines demo_floats [((''stormlb_router_tls_handshake_errors_total'', []), 3)] [] []
          (scrape_series demo_floats ''0.1.0'' (process_series silent_ops silent_proc) None))
   \<and> sample demo_floats ''stormlb_vip_vrrp_master'' (labels [(''vip'', ''kube'')]) 1
     \<in> set (page_lines demo_floats [((''stormlb_router_tls_handshake_errors_total'', []), 3)] [] []
          (scrape_series demo_floats ''0.1.0'' (process_series silent_ops silent_proc) (Some demo_vrrp_registry)))"
proof -
  let ?k = "(''stormlb_router_tls_handshake_errors_total'', []) :: key"
  let ?m = "metrics_empty\<lparr>counters := [?k \<mapsto> 3]\<rparr>"
  have "lists ?m [(?k, 3)] [] []"
    by (simp add: lists_def metrics_empty_def bt_ok_Cons fun_eq_iff)
  note page = page_tells_counters_and_masters [OF this, of demo_floats "''0.1.0''" silent_ops silent_proc]
  have "counters ?m ?k = Some 3" and "\<not> process_name (fst ?k)"
    by (simp_all add: process_name_def)
  moreover obtain d where "(fst ?k, ''counter'', d) \<in> set catalog"
    by (simp add: catalog_def)
  ultimately have "sample demo_floats (fst ?k) [] (of_u64 demo_floats 3) \<in> set (page_lines demo_floats [(?k, 3)] [] []
      (scrape_series demo_floats ''0.1.0'' (process_series silent_ops silent_proc) None))"
    using page [THEN conjunct1, rule_format, of "fst ?k" "[]" 3 d None] by simp
  moreover have "sample demo_floats ''stormlb_router_tls_handshake_errors_total'' [] (of_u64 demo_floats 3)
      = ''stormlb_router_tls_handshake_errors_total 3''"
    by code_simp
  ultimately have counter: "''stormlb_router_tls_handshake_errors_total 3''
      \<in> set (page_lines demo_floats [(?k, 3)] [] []
          (scrape_series demo_floats ''0.1.0'' (process_series silent_ops silent_proc) None))"
    by simp
  have reg: "bt_ok (vips demo_vrrp_registry)"
    "map_of (vips demo_vrrp_registry) ''kube'' = Some ((demo_entry 50 False)\<lparr>e_vrrp := Some 0\<rparr>)"
    by (simp_all add: demo_vrrp_registry_def bt_ok_Cons)
  have master: "of_i64 demo_floats (if handle_name (vi_state (instances demo_vrrp_registry ! 0)) = ''master'' then 1 else 0) = 1"
    by (simp add: demo_vrrp_registry_def handle_name_def demo_floats_def)
  have "e_vrrp ((demo_entry 50 False)\<lparr>e_vrrp := Some 0\<rparr>) = Some 0" by simp
  from page [THEN conjunct2, rule_format, OF reg this] counter show ?thesis
    unfolding master by (rule conjI [rotated])
qed

end
