(* ===== verification/Vips_Json.thy ===== *)
theory Vips_Json
  imports Vips_Types Json
begin

text \<open>
  The VIP specs as JSON: what \<open>PUT /api/v1/vips/{name}\<close> accepts as a body, what \<open>GET\<close> shows and what the
  state file holds, as the declarations of \<open>src/vips.rs\<close> and \<open>src/config.rs\<close> derive it.
\<close>

subsection \<open>Reading\<close>

definition dec_mode :: "json \<Rightarrow> health_mode option" where
  "dec_mode v =
     (let name = (case v of JStr s \<Rightarrow> Some s | JObj [(k, JNull)] \<Rightarrow> Some k | _ \<Rightarrow> None)
      in if name = Some ''tcp'' then Some Tcp
         else if name = Some ''http'' then Some Http
         else if name = Some ''https'' then Some Https
         else None)"

definition dec_health :: "json \<Rightarrow> health_spec option" where
  "dec_health v = do {
     f \<leftarrow> struct_fields False
       [''mode'', ''path'', ''interval_secs'', ''timeout_secs'', ''expect_status'', ''ca_file''] v;
     m \<leftarrow> defaulted Tcp dec_mode f ''mode'';
     p \<leftarrow> defaulted default_path dec_str f ''path'';
     i \<leftarrow> defaulted default_interval dec_uint f ''interval_secs'';
     t \<leftarrow> defaulted default_timeout dec_uint f ''timeout_secs'';
     e \<leftarrow> defaulted default_expect (dec_list dec_uint) f ''expect_status'';
     c \<leftarrow> optional dec_str f ''ca_file'';
     Some \<lparr>mode = m, path = p, interval_secs = i, timeout_secs = t, expect_status = e, ca_file = c\<rparr> }"

definition dec_backend_spec :: "json \<Rightarrow> backend_spec option" where
  "dec_backend_spec v = do {
     f \<leftarrow> struct_fields True [''address'', ''port''] v;
     a \<leftarrow> required dec_str f ''address'';
     p \<leftarrow> required dec_uint f ''port'';
     Some \<lparr>bs_address = a, bs_port = p\<rparr> }"

definition default_vrid :: u8 where "default_vrid = 51"
definition default_priority :: u8 where "default_priority = 100"
definition default_advert :: u64 where "default_advert = 1"
definition default_preempt :: bool where "default_preempt = True"

definition dec_vrrp_spec :: "json \<Rightarrow> vrrp_spec option" where
  "dec_vrrp_spec v = do {
     f \<leftarrow> struct_fields True [''interface'', ''vrid'', ''priority'', ''preempt'', ''advert_interval_secs''] v;
     i \<leftarrow> required dec_str f ''interface'';
     r \<leftarrow> defaulted default_vrid dec_uint f ''vrid'';
     p \<leftarrow> defaulted default_priority dec_uint f ''priority'';
     e \<leftarrow> defaulted default_preempt dec_bool f ''preempt'';
     a \<leftarrow> defaulted default_advert dec_uint f ''advert_interval_secs'';
     Some \<lparr>vs_interface = i, vs_vrid = r, vs_priority = p, vs_preempt = e, vs_advert_interval_secs = a\<rparr> }"

definition dec_vip_spec :: "json \<Rightarrow> vip_spec option" where
  "dec_vip_spec v = do {
     f \<leftarrow> struct_fields True [''address'', ''port'', ''bind'', ''backends'', ''health'', ''vrrp''] v;
     a \<leftarrow> required dec_str f ''address'';
     p \<leftarrow> required dec_uint f ''port'';
     b \<leftarrow> optional dec_str f ''bind'';
     bs \<leftarrow> defaulted [] (dec_list dec_backend_spec) f ''backends'';
     h \<leftarrow> defaulted health_default dec_health f ''health'';
     r \<leftarrow> optional dec_vrrp_spec f ''vrrp'';
     Some \<lparr>v_address = a, v_port = p, v_bind = b, v_backends = bs, v_health = h, v_vrrp = r\<rparr> }"

text \<open>A \<open>BTreeMap\<close>: a later value of a key replaces an earlier one.\<close>

fun dec_entries :: "(string \<times> json) list \<Rightarrow> (string \<times> vip_spec) list \<Rightarrow> (string \<times> vip_spec) list option" where
  "dec_entries [] m = Some m"
| "dec_entries ((k, v) # kvs) m = do { s \<leftarrow> dec_vip_spec v; dec_entries kvs (bt_insert k s m) }"

definition dec_state :: "json \<Rightarrow> (string \<times> vip_spec) list option" where
  "dec_state v = do {
     f \<leftarrow> struct_fields False [''vips''] v;
     required (\<lambda>m. case m of JObj kvs \<Rightarrow> dec_entries kvs [] | _ \<Rightarrow> None) f ''vips'' }"

subsection \<open>Writing\<close>

definition enc_mode :: "health_mode \<Rightarrow> json" where
  "enc_mode m = JStr (case m of Tcp \<Rightarrow> ''tcp'' | Http \<Rightarrow> ''http'' | Https \<Rightarrow> ''https'')"

text \<open>\<open>skip_serializing_if = "Option::is_none"\<close>.\<close>

definition unless_none :: "string \<Rightarrow> ('a \<Rightarrow> json) \<Rightarrow> 'a option \<Rightarrow> (string \<times> json) list" where
  "unless_none k enc x = (case x of None \<Rightarrow> [] | Some a \<Rightarrow> [(k, enc a)])"

definition enc_health :: "health_spec \<Rightarrow> json" where
  "enc_health h = JObj
     ([(''mode'', enc_mode (mode h)), (''path'', JStr (path h)),
       (''interval_secs'', JInt (uint (interval_secs h))), (''timeout_secs'', JInt (uint (timeout_secs h))),
       (''expect_status'', JArr (map (\<lambda>s. JInt (uint s)) (expect_status h)))]
      @ unless_none ''ca_file'' JStr (ca_file h))"

definition enc_backend_spec :: "backend_spec \<Rightarrow> json" where
  "enc_backend_spec b = JObj [(''address'', JStr (bs_address b)), (''port'', JInt (uint (bs_port b)))]"

definition enc_vrrp_spec :: "vrrp_spec \<Rightarrow> json" where
  "enc_vrrp_spec v = JObj
     [(''interface'', JStr (vs_interface v)), (''vrid'', JInt (uint (vs_vrid v))),
      (''priority'', JInt (uint (vs_priority v))), (''preempt'', JBool (vs_preempt v)),
      (''advert_interval_secs'', JInt (uint (vs_advert_interval_secs v)))]"

definition spec_fields :: "vip_spec \<Rightarrow> (string \<times> json) list" where
  "spec_fields s =
     [(''address'', JStr (v_address s)), (''port'', JInt (uint (v_port s)))]
     @ unless_none ''bind'' JStr (v_bind s)
     @ [(''backends'', JArr (map enc_backend_spec (v_backends s))), (''health'', enc_health (v_health s))]
     @ unless_none ''vrrp'' enc_vrrp_spec (v_vrrp s)"

definition enc_vip_spec :: "vip_spec \<Rightarrow> json" where
  "enc_vip_spec s = JObj (spec_fields s)"

definition enc_state :: "(string \<times> vip_spec) list \<Rightarrow> json" where
  "enc_state m = JObj [(''vips'', JObj (map (\<lambda>(n, s). (n, enc_vip_spec s)) m))]"

text \<open>\<open>VipView\<close>: the spec's fields are flattened between the name and the status.\<close>

definition enc_status :: "vip_view \<Rightarrow> json" where
  "enc_status w = JObj
     ([(''listening'', JStr (w_listening w)), (''source'', JStr (w_source w)),
       (''healthy'', JInt (int (w_healthy w))),
       (''backends'', JArr (map (\<lambda>(a, p, h).
          JObj [(''address'', JStr a), (''port'', JInt (uint p)), (''healthy'', JBool h)]) (w_backends w)))]
      @ unless_none ''vrrp'' JStr (w_vrrp w))"

definition enc_view :: "vip_view \<Rightarrow> json" where
  "enc_view w = JObj ([(''name'', JStr (w_name w))] @ spec_fields (w_spec w) @ [(''status'', enc_status w)])"

subsection \<open>What is written is read back\<close>

lemma dec_enc_mode [simp]: "dec_mode (enc_mode m) = Some m"
  by (cases m) (simp_all add: dec_mode_def enc_mode_def)

lemma enc_not_null [simp]:
  "enc_mode m \<noteq> JNull" "enc_health h \<noteq> JNull" "enc_vrrp_spec r \<noteq> JNull"
  by (simp_all add: enc_mode_def enc_health_def enc_vrrp_spec_def)

lemma dec_enc_health [simp]: "dec_health (enc_health h) = Some h"
proof -
  have "dec_list dec_uint (JArr (map (\<lambda>s. JInt (uint s)) (expect_status h))) = Some (expect_status h)"
    by (rule dec_list_enc) simp
  then show ?thesis
    by (cases "ca_file h") (simp_all add: dec_health_def enc_health_def struct_fields_def unless_none_def dec_option_def)
qed

lemma dec_enc_backend_spec [simp]: "dec_backend_spec (enc_backend_spec b) = Some b"
  by (simp add: dec_backend_spec_def enc_backend_spec_def struct_fields_def)

lemma dec_enc_vrrp_spec [simp]: "dec_vrrp_spec (enc_vrrp_spec v) = Some v"
  by (simp add: dec_vrrp_spec_def enc_vrrp_spec_def struct_fields_def)

lemma dec_enc_vip_spec [simp]: "dec_vip_spec (enc_vip_spec s) = Some s"
proof -
  have "dec_list dec_backend_spec (JArr (map enc_backend_spec (v_backends s))) = Some (v_backends s)"
    by (rule dec_list_enc) simp
  then show ?thesis
    by (cases "v_bind s"; cases "v_vrrp s")
      (simp_all add: dec_vip_spec_def enc_vip_spec_def spec_fields_def struct_fields_def unless_none_def dec_option_def)
qed

lemma bt_ok_snoc: "bt_ok (m @ [(k, v)]) \<longleftrightarrow> bt_ok m \<and> (\<forall>k' \<in> fst ` set m. k' < k)"
  by (auto simp: bt_ok_def sorted_wrt_append)

lemma bt_insert_last: "\<forall>k' \<in> fst ` set m. k' < k \<Longrightarrow> bt_insert k v m = m @ [(k, v)]"
  by (induction m) (auto dest: order.strict_implies_not_eq)

lemma dec_entries_enc:
  "bt_ok (acc @ m) \<Longrightarrow> dec_entries (map (\<lambda>(n, s). (n, enc_vip_spec s)) m) acc = Some (acc @ m)"
proof (induction m arbitrary: acc)
  case (Cons x m)
  obtain n s where x: "x = (n, s)" by (rule prod.exhaust)
  have "bt_insert n s acc = acc @ [(n, s)]"
    using Cons.prems by (intro bt_insert_last) (auto simp: x bt_ok_def sorted_wrt_append)
  with Cons.IH [of "acc @ [(n, s)]"] Cons.prems show ?case by (simp add: x)
qed simp

lemma dec_enc_state: "bt_ok m \<Longrightarrow> dec_state (enc_state m) = Some m"
  using dec_entries_enc [of "[]" m] by (simp add: dec_state_def enc_state_def struct_fields_def)

subsection \<open>Properties\<close>

text \<open>C35: What is saved is what is loaded.  Whatever was applied, removed and loaded, the document \<open>save\<close> makes of
  a registry reads back as exactly the VIPs it saves, every optional field included; and the body a client
  makes of any spec the same way is read as that spec.\<close>

theorem saved_state_reads_back:
  "dec_state (enc_state (saved_vips (reg_after file content ops))) = Some (saved_vips (reg_after file content ops))
   \<and> dec_vip_spec (enc_vip_spec s) = Some s"
  using dec_enc_state [OF bt_ok_saved_vips [OF registry_okD(2) [OF reg_after_ok]]] by simp

text \<open>A body with a key that is none of a spec's is refused.\<close>

theorem unknown_spec_key_refused:
  assumes "(k, v) \<in> set kvs" and "k \<notin> {''address'', ''port'', ''bind'', ''backends'', ''health'', ''vrrp''}"
  shows "dec_vip_spec (JObj kvs) = None"
proof -
  have "k \<notin> set [''address'', ''port'', ''bind'', ''backends'', ''health'', ''vrrp'']" using assms(2) by simp
  from struct_fields_unknown [OF assms(1) this] show ?thesis by (simp only: dec_vip_spec_def bind.simps)
qed

text \<open>Not so within \<open>health\<close>: a misspelt key is ignored there, and what it was to change keeps its default.\<close>

theorem unknown_health_key_ignored:
  "dec_vip_spec (JObj [(''address'', JStr a), (''port'', JInt (uint p)),
       (''health'', JObj [(''interval_sec'', JInt 30), (''ca'', JStr ''/data/stormcert/ca.crt'')])])
   = Some \<lparr>v_address = a, v_port = p, v_bind = None, v_backends = [], v_health = health_default, v_vrrp = None\<rparr>"
  by (simp add: dec_vip_spec_def dec_health_def struct_fields_def health_default_def)

end
