(* ===== verification/Config_Load.thy ===== *)
theory Config_Load
  imports Startup Api_Props Vips_Json
begin

text \<open>
  Loading the configuration (\<open>src/config.rs\<close>, with the tables of \<open>src/router.rs\<close>, \<open>src/tls.rs\<close> and
  \<open>src/metrics.rs\<close>): the defaults, and what the declarations make of the document's tree.  Reading the
  file and TOML's grammar are parameters.
\<close>

subsection \<open>Defaults\<close>

definition default_bind :: string where "default_bind = ''0.0.0.0''"
definition default_api_listen :: string where "default_api_listen = ''127.0.0.1:9103''"
definition default_bgp_port :: u16 where "default_bgp_port = 179"
definition default_router_listen :: string where "default_router_listen = ''0.0.0.0:80''"
definition default_apiserver :: string where "default_apiserver = ''https://127.0.0.1:6443''"
definition default_poll :: u64 where "default_poll = 5"
definition default_insecure :: bool where "default_insecure = True"
definition default_tls_listen :: string where "default_tls_listen = ''auto:443''"
definition default_redirect :: bool where "default_redirect = True"
definition default_reload :: u64 where "default_reload = 30"
definition default_metrics_listen :: string where "default_metrics_listen = ''auto:9104''"

text \<open>The derived \<open>Default\<close> of a table that is absent: zeros, not the defaults of its keys.\<close>

definition vrrp_absent :: vrrp_cfg where
  "vrrp_absent = \<lparr>vrrp_enabled = False, vrrp_interface = [], vrrp_vrid = 0, vrrp_priority = 0,
     vrrp_preempt = False, vrrp_advert_interval_secs = 0\<rparr>"

definition bgp_absent :: bgp_cfg where
  "bgp_absent = \<lparr>bgp_enabled = False, local_asn = 0, router_id = [], peers = []\<rparr>"

subsection \<open>The tables\<close>

definition dec_vip_cfg :: "json \<Rightarrow> vip_cfg option" where
  "dec_vip_cfg v = do {
     f \<leftarrow> struct_fields False [''address'', ''port'', ''bind''] v;
     a \<leftarrow> required dec_str f ''address'';
     p \<leftarrow> required dec_uint f ''port'';
     b \<leftarrow> defaulted default_bind dec_str f ''bind'';
     Some \<lparr>vip_address = a, vip_port = p, vip_bind = b\<rparr> }"

definition dec_backend_cfg :: "json \<Rightarrow> backend_cfg option" where
  "dec_backend_cfg v = do {
     f \<leftarrow> struct_fields False [''address'', ''port''] v;
     a \<leftarrow> required dec_str f ''address'';
     p \<leftarrow> required dec_uint f ''port'';
     Some \<lparr>backend_address = a, backend_port = p\<rparr> }"

definition dec_vrrp_cfg :: "json \<Rightarrow> vrrp_cfg option" where
  "dec_vrrp_cfg v = do {
     f \<leftarrow> struct_fields False
       [''enabled'', ''interface'', ''vrid'', ''priority'', ''preempt'', ''advert_interval_secs''] v;
     e \<leftarrow> defaulted False dec_bool f ''enabled'';
     i \<leftarrow> defaulted [] dec_str f ''interface'';
     r \<leftarrow> defaulted default_vrid dec_uint f ''vrid'';
     p \<leftarrow> defaulted default_priority dec_uint f ''priority'';
     m \<leftarrow> defaulted default_preempt dec_bool f ''preempt'';
     a \<leftarrow> defaulted default_advert dec_uint f ''advert_interval_secs'';
     Some \<lparr>vrrp_enabled = e, vrrp_interface = i, vrrp_vrid = r, vrrp_priority = p, vrrp_preempt = m,
       vrrp_advert_interval_secs = a\<rparr> }"

definition dec_bgp_peer :: "json \<Rightarrow> bgp_peer option" where
  "dec_bgp_peer v = do {
     f \<leftarrow> struct_fields False [''address'', ''asn'', ''port''] v;
     a \<leftarrow> required dec_str f ''address'';
     n \<leftarrow> required dec_uint f ''asn'';
     p \<leftarrow> defaulted default_bgp_port dec_uint f ''port'';
     Some \<lparr>peer_address = a, peer_asn = n, peer_port = p\<rparr> }"

definition dec_bgp_cfg :: "json \<Rightarrow> bgp_cfg option" where
  "dec_bgp_cfg v = do {
     f \<leftarrow> struct_fields False [''enabled'', ''local_asn'', ''router_id'', ''peers''] v;
     e \<leftarrow> defaulted False dec_bool f ''enabled'';
     n \<leftarrow> defaulted 0 dec_uint f ''local_asn'';
     r \<leftarrow> defaulted [] dec_str f ''router_id'';
     ps \<leftarrow> defaulted [] (dec_list dec_bgp_peer) f ''peers'';
     Some \<lparr>bgp_enabled = e, local_asn = n, router_id = r, peers = ps\<rparr> }"

definition dec_cert_pair :: "json \<Rightarrow> cert_pair option" where
  "dec_cert_pair v = do {
     f \<leftarrow> struct_fields True [''cert_file'', ''key_file''] v;
     c \<leftarrow> required dec_str f ''cert_file'';
     k \<leftarrow> required dec_str f ''key_file'';
     Some \<lparr>cert_file = c, key_file = k\<rparr> }"

definition dec_tls_cfg :: "json \<Rightarrow> tls_cfg option" where
  "dec_tls_cfg v = do {
     f \<leftarrow> struct_fields True [''listen'', ''certs'', ''redirect'', ''reload_secs''] v;
     l \<leftarrow> defaulted default_tls_listen dec_str f ''listen'';
     c \<leftarrow> defaulted [] (dec_list dec_cert_pair) f ''certs'';
     r \<leftarrow> defaulted default_redirect dec_bool f ''redirect'';
     s \<leftarrow> defaulted default_reload dec_uint f ''reload_secs'';
     Some \<lparr>tls_listen = l, tls_certs = c, tls_redirect = r, tls_reload_secs = s\<rparr> }"

definition dec_router_cfg :: "json \<Rightarrow> router_cfg option" where
  "dec_router_cfg v = do {
     f \<leftarrow> struct_fields False [''listen'', ''apiserver'', ''poll_secs'', ''insecure'', ''ca_file'',
       ''token_file'', ''tls'', ''backend_ca_file''] v;
     l \<leftarrow> defaulted default_router_listen dec_str f ''listen'';
     a \<leftarrow> defaulted default_apiserver dec_str f ''apiserver'';
     p \<leftarrow> defaulted default_poll dec_uint f ''poll_secs'';
     i \<leftarrow> defaulted default_insecure dec_bool f ''insecure'';
     c \<leftarrow> optional dec_str f ''ca_file'';
     t \<leftarrow> optional dec_str f ''token_file'';
     s \<leftarrow> optional dec_tls_cfg f ''tls'';
     b \<leftarrow> optional dec_str f ''backend_ca_file'';
     Some \<lparr>router_listen = l, apiserver = a, poll_secs = p, insecure = i, api_ca_file = c, token_file = t,
       router_tls = s, backend_ca_file = b\<rparr> }"

definition dec_metrics_cfg :: "json \<Rightarrow> metrics_cfg option" where
  "dec_metrics_cfg v = do {
     f \<leftarrow> struct_fields True [''listen''] v;
     l \<leftarrow> defaulted default_metrics_listen dec_str f ''listen'';
     Some \<lparr>metrics_listen = l\<rparr> }"

definition dec_api_cfg :: "json \<Rightarrow> api_cfg option" where
  "dec_api_cfg v = do {
     f \<leftarrow> struct_fields False [''listen'', ''token_file'', ''state_file''] v;
     l \<leftarrow> defaulted default_api_listen dec_str f ''listen'';
     t \<leftarrow> optional dec_str f ''token_file'';
     s \<leftarrow> optional dec_str f ''state_file'';
     Some \<lparr>api_listen = l, api_token_file = t, api_state_file = s\<rparr> }"

definition dec_config :: "json \<Rightarrow> config option" where
  "dec_config v = do {
     f \<leftarrow> struct_fields False
       [''vip'', ''backend'', ''health'', ''vrrp'', ''bgp'', ''router'', ''api'', ''metrics''] v;
     vip \<leftarrow> optional dec_vip_cfg f ''vip'';
     bs \<leftarrow> defaulted [] (dec_list dec_backend_cfg) f ''backend'';
     h \<leftarrow> defaulted health_default dec_health f ''health'';
     vrrp \<leftarrow> defaulted vrrp_absent dec_vrrp_cfg f ''vrrp'';
     bgp \<leftarrow> defaulted bgp_absent dec_bgp_cfg f ''bgp'';
     router \<leftarrow> optional dec_router_cfg f ''router'';
     api \<leftarrow> optional dec_api_cfg f ''api'';
     metrics \<leftarrow> optional dec_metrics_cfg f ''metrics'';
     Some \<lparr>cfg_vip = vip, cfg_backends = bs, cfg_health = h, cfg_vrrp = vrrp, cfg_bgp = bgp,
       cfg_router = router, cfg_api = api, cfg_metrics = metrics\<rparr> }"

datatype load_error = ReadingConfig string string | ParsingConfig string

definition load_config ::
  "(string \<Rightarrow> (string, string) result) \<Rightarrow> (string \<Rightarrow> json option) \<Rightarrow> string \<Rightarrow> (load_error, config) result" where
  "load_config rd parse file =
     (case rd file of
        Inl e \<Rightarrow> Inl (ReadingConfig file e)
      | Inr doc \<Rightarrow> ok_or (ParsingConfig file) (Option.bind (parse doc) dec_config))"

subsection \<open>A small configuration\<close>

text \<open>A VIP with VRRP and the API, no key given that has a default.\<close>

definition small_doc :: "string \<Rightarrow> u16 \<Rightarrow> string \<Rightarrow> json" where
  "small_doc a p i = JObj
     [(''vip'', JObj [(''address'', JStr a), (''port'', JInt (uint p))]),
      (''vrrp'', JObj [(''enabled'', JBool True), (''interface'', JStr i)]),
      (''api'', JObj [])]"

definition small_config :: "string \<Rightarrow> u16 \<Rightarrow> string \<Rightarrow> config" where
  "small_config a p i =
     \<lparr>cfg_vip = Some \<lparr>vip_address = a, vip_port = p, vip_bind = ''0.0.0.0''\<rparr>, cfg_backends = [],
      cfg_health = health_default,
      cfg_vrrp = \<lparr>vrrp_enabled = True, vrrp_interface = i, vrrp_vrid = 51, vrrp_priority = 100,
        vrrp_preempt = True, vrrp_advert_interval_secs = 1\<rparr>,
      cfg_bgp = bgp_absent, cfg_router = None,
      cfg_api = Some \<lparr>api_listen = ''127.0.0.1:9103'', api_token_file = None, api_state_file = None\<rparr>,
      cfg_metrics = None\<rparr>"

lemma small_tables:
  "dec_vip_cfg (JObj [(''address'', JStr a), (''port'', JInt (uint p))])
     = Some \<lparr>vip_address = a, vip_port = p, vip_bind = ''0.0.0.0''\<rparr>"
  "dec_vrrp_cfg (JObj [(''enabled'', JBool True), (''interface'', JStr i)])
     = Some \<lparr>vrrp_enabled = True, vrrp_interface = i, vrrp_vrid = 51, vrrp_priority = 100,
         vrrp_preempt = True, vrrp_advert_interval_secs = 1\<rparr>"
  "dec_api_cfg (JObj []) = Some \<lparr>api_listen = ''127.0.0.1:9103'', api_token_file = None, api_state_file = None\<rparr>"
  by (simp_all add: dec_vip_cfg_def dec_vrrp_cfg_def dec_api_cfg_def struct_fields_def default_bind_def
      default_vrid_def default_priority_def default_preempt_def default_advert_def default_api_listen_def)

lemma dec_small_doc: "dec_config (small_doc a p i) = Some (small_config a p i)"
  by (simp add: dec_config_def small_doc_def struct_fields_def dec_option_def small_tables small_config_def)

lemma parse_any: "parse_ip ''0.0.0.0'' = Some (V4 (Ipv4 0 0 0 0))"
  by code_simp

lemma loopback_listen: "parse_sock_addr ''127.0.0.1:9103'' = Some (SockAddr (V4 (Ipv4 127 0 0 1)) 9103)"
proof -
  have "rsplit_once (CHR '':'') ''127.0.0.1:9103'' = Some (''127.0.0.1'', ''9103'')" by code_simp
  moreover have "parse_ipv4 ''127.0.0.1'' = Some (Ipv4 127 0 0 1)" by code_simp
  moreover have "list_all is_digit ''9103''" by code_simp
  then have "parse_port ''9103'' = Some 9103"
    by (simp add: parse_port_def digits_val_def digit_val_def byte_def)
  ultimately show ?thesis by (simp add: parse_sock_addr_def)
qed

lemma small_preflight:
  "api_preflight \<lparr>api_listen = ''127.0.0.1:9103'', api_token_file = None, api_state_file = None\<rparr>
     = Inr (SockAddr (V4 (Ipv4 127 0 0 1)) 9103)"
  by (simp add: api_preflight_def loopback_listen is_loopback_def)

lemma check_health_default: "check_health health_default = Inr ()"
  by (simp add: check_health_def health_default_def default_path_def default_interval_def default_timeout_def
      default_expect_def ensure_def)

text \<open>C34: The required keys are enough.  A config file that names a VIP by an IPv4 address and a port, VRRP with
  an interface, and an empty \<open>[api]\<close> loads; what the defaults add is accepted by every later check: the VIP
  listens on any address at that port, its VRRP instance gets router 51, priority 100, preemption and one
  advertisement a second, its backends are probed by a TCP connect every two seconds, and the API listens on
  loopback, where it needs no token.\<close>

theorem required_keys_suffice:
  assumes "rd file = Inr doc" and "parse doc = Some (small_doc a p i)"
    and "parse_ip a = Some (V4 x)" and "p \<noteq> 0" and "i \<noteq> []"
  shows "\<exists>cfg s c api.
    load_config rd parse file = Inr cfg \<and> config_spec cfg = Some s \<and> check_spec s = Inr c
    \<and> c_listen c = SockAddr (V4 (Ipv4 0 0 0 0)) p \<and> c_vrrp_vip c = Some x
    \<and> map_option (\<lambda>v. vrrp_params v x) (v_vrrp s)
        = Some \<lparr>p_vrid = 51, p_priority = 100, p_preempt = True, p_advert_interval_secs = 1, p_iface = i, p_vip = x\<rparr>
    \<and> v_health s = \<lparr>mode = Tcp, path = ''/readyz'', interval_secs = 2, timeout_secs = 2, expect_status = [200], ca_file = None\<rparr>
    \<and> cfg_api cfg = Some api \<and> api_preflight api = Inr (SockAddr (V4 (Ipv4 127 0 0 1)) 9103)"
proof -
  let ?v = "\<lparr>vs_interface = i, vs_vrid = 51, vs_priority = 100, vs_preempt = True, vs_advert_interval_secs = 1\<rparr>"
  let ?s = "\<lparr>v_address = a, v_port = p, v_bind = Some ''0.0.0.0'', v_backends = [], v_health = health_default,
      v_vrrp = Some ?v\<rparr>"
  have cfg: "load_config rd parse file = Inr (small_config a p i)"
    using assms(1,2) by (simp add: load_config_def dec_small_doc ok_or_def)
  have spec: "config_spec (small_config a p i) = Some ?s"
    by (simp add: config_spec_def small_config_def)
  have check: "check_spec ?s = Inr \<lparr>c_listen = SockAddr (V4 (Ipv4 0 0 0 0)) p, c_backends = [], c_vrrp_vip = Some x\<rparr>"
    using assms(3-5) by (simp add: check_spec_def parse_any check_health_default check_vrrp_def ok_or_def ensure_def)
  have api: "cfg_api (small_config a p i)
      = Some \<lparr>api_listen = ''127.0.0.1:9103'', api_token_file = None, api_state_file = None\<rparr>"
    by (simp add: small_config_def)
  show ?thesis
    using cfg spec check api small_preflight
    by (intro exI conjI) (assumption | simp add: vrrp_params_def health_default_def default_path_def
        default_interval_def default_timeout_def default_expect_def)+
qed

lemma required_keys_suffice_witness:
  "\<exists>cfg s c. load_config (\<lambda>_. Inr ''text'') (\<lambda>_. Some (small_doc ''192.168.8.50'' 6443 ''eth0'')) ''stormlb.toml'' = Inr cfg
     \<and> config_spec cfg = Some s \<and> check_spec s = Inr c \<and> c_vrrp_vip c = Some (Ipv4 192 168 8 50)"
proof -
  have ip: "parse_ip ''192.168.8.50'' = Some (V4 (Ipv4 192 168 8 50))" by code_simp
  have "(6443 :: u16) \<noteq> 0" and "''eth0'' \<noteq> []" by simp_all
  from required_keys_suffice [of "\<lambda>_. Inr ''text''" _ _ "\<lambda>_. Some (small_doc ''192.168.8.50'' 6443 ''eth0'')",
      OF refl refl ip this] show ?thesis by blast
qed

text \<open>An absent \<open>[vrrp]\<close> is not the same as an empty one: its priority is 0, which nothing uses while it is
  disabled.\<close>

lemma absent_vrrp:
  "dec_config (JObj []) = Some cfg \<Longrightarrow> vrrp_priority (cfg_vrrp cfg) = 0 \<and> \<not> vrrp_enabled (cfg_vrrp cfg)"
  "dec_vrrp_cfg (JObj []) = Some v \<Longrightarrow> vrrp_priority v = 100 \<and> \<not> vrrp_enabled v"
  by (auto simp: dec_config_def dec_vrrp_cfg_def struct_fields_def vrrp_absent_def default_priority_def)

end
