(* ===== verification/Vips_File.thy ===== *)
theory Vips_File
  imports Prelude
begin

text \<open>
  \<open>write_atomic\<close> of \<open>src/vips.rs\<close>, call by call: the directory, the temporary file beside the state file,
  the pieces of the text, the rename.  Files are inodes, so that a writer whose file has been renamed
  meanwhile goes on writing into it, as the kernel has it.  An answer is what a call returned in the
  end (std repeats interrupted calls); a process that is killed is a run that stops.
\<close>

subsection \<open>Paths\<close>

text \<open>Paths whose last component is a plain name: \<open>Path::parent\<close> (here with its separator),
  \<open>Path::file_stem\<close>, \<open>Path::with_extension\<close>.\<close>

definition dir_part :: "string \<Rightarrow> string" where
  "dir_part p = rev (dropWhile (\<lambda>c. c \<noteq> CHR ''/'') (rev p))"

definition file_name :: "string \<Rightarrow> string" where
  "file_name p = rev (takeWhile (\<lambda>c. c \<noteq> CHR ''/'') (rev p))"

definition parent_dir :: "string \<Rightarrow> string option" where
  "parent_dir p = (if p = [] \<or> p = ''/'' then None else Some (dir_part p))"

definition file_stem :: "string \<Rightarrow> string" where
  "file_stem n =
     (let before_dot = rev (drop 1 (dropWhile (\<lambda>c. c \<noteq> CHR ''.'') (rev n)))
      in if before_dot = [] then n else before_dot)"

definition with_extension :: "string \<Rightarrow> string \<Rightarrow> string" where
  "with_extension ext p =
     (if file_name p \<in> {[], ''.'', ''..''} then p
      else dir_part p @ file_stem (file_name p) @ ''.'' @ ext)"

definition tmp_of :: "string \<Rightarrow> string" where
  "tmp_of p = with_extension ''tmp'' p"

subsection \<open>The file system\<close>

record fs =
  names :: "string \<rightharpoonup> nat"
  blocks :: "string list"

definition fs_read :: "fs \<Rightarrow> string \<Rightarrow> string option" where
  "fs_read d p = map_option (\<lambda>i. blocks d ! i) (names d p)"

definition open_trunc :: "string \<Rightarrow> fs \<Rightarrow> nat \<times> fs" where
  "open_trunc p d =
     (case names d p of
        Some i \<Rightarrow> (i, d\<lparr>blocks := (blocks d)[i := []]\<rparr>)
      | None \<Rightarrow> (length (blocks d), \<lparr>names = (names d)(p \<mapsto> length (blocks d)), blocks = blocks d @ [[]]\<rparr>))"

definition overlay :: "nat \<Rightarrow> string \<Rightarrow> string \<Rightarrow> string" where
  "overlay off t s = take off s @ replicate (off - length s) (CHR 0x00) @ t @ drop (off + length t) s"

definition write_at :: "nat \<Rightarrow> nat \<Rightarrow> string \<Rightarrow> fs \<Rightarrow> fs" where
  "write_at i off t d = d\<lparr>blocks := (blocks d)[i := overlay off t (blocks d ! i)]\<rparr>"

text \<open>\<open>rename(2)\<close>: a missing source is an error, two names of one file are left alone.\<close>

definition rename_file :: "string \<Rightarrow> string \<Rightarrow> fs \<Rightarrow> fs option" where
  "rename_file a b d =
     (case names d a of
        None \<Rightarrow> None
      | Some i \<Rightarrow> Some (if names d b = Some i then d else d\<lparr>names := (names d)(a := None, b \<mapsto> i)\<rparr>))"

text \<open>Every name has its inode, no two names share one.\<close>

definition fs_ok :: "fs \<Rightarrow> bool" where
  "fs_ok d \<longleftrightarrow> (\<forall>i \<in> ran (names d). i < length (blocks d)) \<and> inj_on (names d) (dom (names d))"

subsection \<open>The writer\<close>

datatype answer = Answered nat | Errno string

datatype writer = Creating | Opening | Writing nat nat string | Renaming | Returned "(string, unit) result"

fun write_step :: "string \<Rightarrow> string \<Rightarrow> answer \<Rightarrow> fs \<times> writer \<Rightarrow> fs \<times> writer" where
  "write_step p text a (d, Creating) =
     (case parent_dir p of
        None \<Rightarrow> (d, Opening)
      | Some _ \<Rightarrow> (case a of Errno e \<Rightarrow> (d, Returned (Inl e)) | Answered _ \<Rightarrow> (d, Opening)))"
| "write_step p text a (d, Opening) =
     (case a of
        Errno e \<Rightarrow> (d, Returned (Inl e))
      | Answered _ \<Rightarrow> (case open_trunc (tmp_of p) d of (i, d') \<Rightarrow> (d', Writing i 0 text)))"
| "write_step p text a (d, Writing i off rest) =
     (if rest = [] then (d, Renaming)
      else (case a of
              Errno e \<Rightarrow> (d, Returned (Inl e))
            | Answered 0 \<Rightarrow> (d, Returned (Inl ''failed to write whole buffer''))
            | Answered n \<Rightarrow> (write_at i off (take n rest) d, Writing i (off + min n (length rest)) (drop n rest))))"
| "write_step p text a (d, Renaming) =
     (case a of
        Errno e \<Rightarrow> (d, Returned (Inl e))
      | Answered _ \<Rightarrow>
          (case rename_file (tmp_of p) p d of
             None \<Rightarrow> (d, Returned (Inl ''No such file or directory''))
           | Some d' \<Rightarrow> (d', Returned (Inr ()))))"
| "write_step p text a (d, Returned r) = (d, Returned r)"

definition write_atomic :: "string \<Rightarrow> string \<Rightarrow> answer list \<Rightarrow> fs \<Rightarrow> fs \<times> writer" where
  "write_atomic p text ans d = fold (write_step p text) ans (d, Creating)"

subsection \<open>What the calls leave alone\<close>

lemma fs_read_cong: "names d' p = names d p \<Longrightarrow> (\<And>i. names d p = Some i \<Longrightarrow> blocks d' ! i = blocks d ! i)
    \<Longrightarrow> fs_read d' p = fs_read d p"
  by (cases "names d p") (simp_all add: fs_read_def)

lemma fs_ok_names: "fs_ok d \<Longrightarrow> names d p = Some i \<Longrightarrow> i < length (blocks d)"
  by (auto simp: fs_ok_def ran_def)

lemma fs_ok_other: "fs_ok d \<Longrightarrow> names d p = Some i \<Longrightarrow> q \<noteq> p \<Longrightarrow> names d q \<noteq> Some i"
  by (auto simp: fs_ok_def inj_on_def dom_def)

lemma open_trunc_ok:
  assumes "fs_ok d" and "open_trunc p d = (i, d')"
  shows "fs_ok d' \<and> names d' p = Some i \<and> blocks d' ! i = [] \<and> (\<forall>q. q \<noteq> p \<longrightarrow> fs_read d' q = fs_read d q)"
proof (cases "names d p")
  case None
  then have d': "d' = \<lparr>names = (names d)(p \<mapsto> i), blocks = blocks d @ [[]]\<rparr>" "i = length (blocks d)"
    using assms(2) by (auto simp: open_trunc_def)
  have "names d q \<noteq> Some i" for q
    using fs_ok_names [OF assms(1)] d'(2) by fastforce
  then have "fs_ok d'"
    using assms(1) None d' by (auto simp: fs_ok_def inj_on_def dom_def ran_def less_Suc_eq split: if_splits)
  moreover have "fs_read d' q = fs_read d q" if "q \<noteq> p" for q
    using that fs_ok_names [OF assms(1), of q] d' by (intro fs_read_cong) (simp_all add: nth_append)
  ultimately show ?thesis by (simp add: d')
next
  case (Some j)
  then have d': "d' = d\<lparr>blocks := (blocks d)[i := []]\<rparr>" "names d p = Some i"
    using assms(2) by (auto simp: open_trunc_def)
  have "fs_read d' q = fs_read d q" if "q \<noteq> p" for q
    using fs_ok_other [OF assms(1) d'(2) that] d' by (intro fs_read_cong) auto
  then show ?thesis
    using assms(1) d' fs_ok_names [OF assms(1) d'(2)] by (simp add: fs_ok_def)
qed

lemma write_at_ok:
  assumes "fs_ok d" and "names d p = Some i"
  shows "fs_ok (write_at i off t d) \<and> names (write_at i off t d) p = Some i
    \<and> blocks (write_at i off t d) ! i = overlay off t (blocks d ! i)
    \<and> (\<forall>q. q \<noteq> p \<longrightarrow> fs_read (write_at i off t d) q = fs_read d q)"
proof -
  have "fs_read (write_at i off t d) q = fs_read d q" if "q \<noteq> p" for q
    using fs_ok_other [OF assms that] by (intro fs_read_cong) (auto simp: write_at_def)
  then show ?thesis
    using assms fs_ok_names [OF assms] by (simp add: write_at_def fs_ok_def)
qed

lemma rename_file_ok:
  assumes "fs_ok d" and "a \<noteq> b" and "rename_file a b d = Some d'"
  shows "fs_ok d' \<and> fs_read d' b = fs_read d a \<and> (\<forall>q. q \<noteq> a \<longrightarrow> q \<noteq> b \<longrightarrow> fs_read d' q = fs_read d q)"
proof -
  obtain i where i: "names d a = Some i" and d': "d' = d\<lparr>names := (names d)(a := None, b \<mapsto> i)\<rparr>"
    using assms fs_ok_other [OF assms(1)] by (auto simp: rename_file_def split: option.splits)
  have "fs_ok d'"
    using assms(1,2) i unfolding d' by (auto simp: fs_ok_def inj_on_def dom_def ran_def split: if_splits)
  then show ?thesis
    using assms(2) i by (simp add: d' fs_read_def)
qed

lemma overlay_next:
  assumes "off \<le> length text" and "0 < n"
  shows "overlay off (take n (drop off text)) (take off text)
    = take (off + min n (length (drop off text))) text"
proof -
  have "take off text @ take n (drop off text) = take (off + n) text" by (rule take_add [symmetric])
  moreover have "take (off + min n (length (drop off text))) text = take (off + n) text"
    using assms(1) by (simp add: min_def)
  ultimately show ?thesis using assms(1) by (simp add: overlay_def min_absorb2)
qed

subsection \<open>A writer alone\<close>

text \<open>What holds between the calls of one writer that nobody disturbs.\<close>

definition undisturbed :: "fs \<Rightarrow> string \<Rightarrow> string \<Rightarrow> fs \<times> writer \<Rightarrow> bool" where
  "undisturbed d0 p text dw \<longleftrightarrow> (case dw of (d, w) \<Rightarrow>
     fs_ok d \<and> (\<forall>q. q \<noteq> p \<longrightarrow> q \<noteq> tmp_of p \<longrightarrow> fs_read d q = fs_read d0 q)
     \<and> fs_read d p = (if w = Returned (Inr ()) then Some text else fs_read d0 p)
     \<and> (case w of
          Writing i off rest \<Rightarrow> names d (tmp_of p) = Some i \<and> off \<le> length text \<and> rest = drop off text
            \<and> blocks d ! i = take off text
        | Renaming \<Rightarrow> fs_read d (tmp_of p) = Some text
        | _ \<Rightarrow> True))"

lemma undisturbed_writing:
  assumes "undisturbed d0 p text (d, Writing i off rest)" and tmp: "tmp_of p \<noteq> p"
  shows "undisturbed d0 p text (write_step p text a (d, Writing i off rest))"
proof -
  have d: "fs_ok d" "names d (tmp_of p) = Some i" "off \<le> length text" "rest = drop off text"
    "blocks d ! i = take off text" "fs_read d p = fs_read d0 p"
    "\<forall>q. q \<noteq> p \<longrightarrow> q \<noteq> tmp_of p \<longrightarrow> fs_read d q = fs_read d0 q"
    using assms(1) by (simp_all add: undisturbed_def)
  show ?thesis
  proof (cases a)
    case (Answered n)
    note written = write_at_ok [OF d(1,2), of off "take n rest"]
    show ?thesis
    proof (cases n)
      case (Suc m)
      have "overlay off (take n rest) (take off text) = take (off + min n (length rest)) text"
        using overlay_next [OF d(3), of n] Suc d(4) by simp
      moreover have "drop n rest = drop (off + min n (length rest)) text"
        using d(3,4) by (simp add: add.commute min_def)
      ultimately show ?thesis
        using d tmp written Answered Suc
        by (auto simp: undisturbed_def fs_read_def)
    qed (use d Answered in \<open>auto simp: undisturbed_def fs_read_def\<close>)
  qed (use d in \<open>auto simp: undisturbed_def fs_read_def\<close>)
qed

lemma undisturbed_step:
  assumes "undisturbed d0 p text (d, w)" and tmp: "tmp_of p \<noteq> p"
  shows "undisturbed d0 p text (write_step p text a (d, w))"
proof (cases w)
  case Opening
  have d: "fs_ok d" "fs_read d p = fs_read d0 p"
    "\<forall>q. q \<noteq> p \<longrightarrow> q \<noteq> tmp_of p \<longrightarrow> fs_read d q = fs_read d0 q"
    using assms(1) Opening by (simp_all add: undisturbed_def)
  obtain i d' where o: "open_trunc (tmp_of p) d = (i, d')" by (rule prod.exhaust)
  show ?thesis
    using d tmp open_trunc_ok [OF d(1) o] by (cases a) (simp_all add: Opening o undisturbed_def)
next
  case Renaming
  have d: "fs_ok d" "fs_read d p = fs_read d0 p" "fs_read d (tmp_of p) = Some text"
    "\<forall>q. q \<noteq> p \<longrightarrow> q \<noteq> tmp_of p \<longrightarrow> fs_read d q = fs_read d0 q"
    using assms(1) Renaming by (simp_all add: undisturbed_def)
  show ?thesis
    using d rename_file_ok [OF d(1) tmp]
    by (cases a) (auto simp: Renaming undisturbed_def split: option.split)
next
  case (Writing i off rest)
  show ?thesis
    unfolding Writing by (rule undisturbed_writing [OF assms(1) [unfolded Writing] tmp])
qed (use assms in \<open>auto simp: undisturbed_def split: option.split answer.split\<close>)

lemma undisturbed_run:
  assumes "fs_ok d" and "tmp_of p \<noteq> p"
  shows "undisturbed d p text (write_atomic p text ans d)"
proof -
  have "undisturbed d p text (fold (write_step p text) ans dw)" if "undisturbed d p text dw" for dw
    using that
  proof (induction ans arbitrary: dw)
    case (Cons a ans)
    obtain d' w where dw: "dw = (d', w)" by (rule prod.exhaust)
    from Cons.IH [OF undisturbed_step [OF Cons.prems [unfolded dw] assms(2), of a]] show ?case
      by (simp add: dw)
  qed simp
  moreover have "undisturbed d p text (d, Creating)"
    using assms(1) by (simp add: undisturbed_def)
  ultimately show ?thesis by (simp add: write_atomic_def)
qed

text \<open>How many calls are left; a call that succeeds makes it less.\<close>

fun calls_left :: "string \<Rightarrow> writer \<Rightarrow> nat" where
  "calls_left text Creating = length text + 4"
| "calls_left text Opening = length text + 3"
| "calls_left text (Writing _ _ rest) = length rest + 2"
| "calls_left text Renaming = 1"
| "calls_left text (Returned _) = 0"

definition granted :: "answer \<Rightarrow> bool" where
  "granted a \<longleftrightarrow> (case a of Answered n \<Rightarrow> 0 < n | Errno _ \<Rightarrow> False)"

definition failed :: "writer \<Rightarrow> bool" where
  "failed w \<longleftrightarrow> (case w of Returned (Inl _) \<Rightarrow> True | _ \<Rightarrow> False)"

lemma granted_step:
  assumes "undisturbed d0 p text (d, w)" and "granted a" and "\<not> failed w"
    and "write_step p text a (d, w) = (d', w')"
  shows "\<not> failed w' \<and> calls_left text w' \<le> calls_left text w - 1"
proof -
  obtain n where a: "a = Answered (Suc n)"
    using assms(2) by (cases a) (auto simp: granted_def gr0_conv_Suc)
  show ?thesis
  proof (cases w)
    case Renaming
    then obtain i where "names d (tmp_of p) = Some i"
      using assms(1) by (auto simp: undisturbed_def fs_read_def)
    then show ?thesis
      using assms(4) a Renaming by (auto simp: rename_file_def failed_def)
  qed (use assms(3,4) a in \<open>auto simp: failed_def neq_Nil_conv split: option.splits prod.splits if_splits sum.splits\<close>)
qed

lemma granted_run:
  assumes "tmp_of p \<noteq> p" and "list_all granted ans"
    and "undisturbed d0 p text (d, w)" and "\<not> failed w" and "calls_left text w \<le> length ans"
  shows "snd (fold (write_step p text) ans (d, w)) = Returned (Inr ())"
  using assms(2-)
proof (induction ans arbitrary: d w)
  case Nil
  then show ?case
    by (cases w) (auto simp: failed_def split: sum.splits)
next
  case (Cons a ans)
  obtain d' w' where s: "write_step p text a (d, w) = (d', w')" by (rule prod.exhaust)
  have a: "granted a" and rest: "list_all granted ans" using Cons.prems(1) by simp_all
  note next_state = undisturbed_step [OF Cons.prems(2) assms(1), of a, unfolded s]
  note less = granted_step [OF Cons.prems(2) a Cons.prems(3) s]
  have left: "calls_left text w' \<le> length ans"
    using less Cons.prems(4) by auto
  from less have "\<not> failed w'" ..
  from Cons.IH [OF rest next_state this left] show ?case
    by (simp add: s)
qed

subsection \<open>The state file, whatever happens to its writer\<close>

text \<open>C22: The state file is replaced whole.  However the calls of one \<open>write_atomic\<close> are answered (short
  writes and errors included) and wherever the process is killed, whoever then reads the state file sees
  exactly the new text when the rename was made and exactly what was there before otherwise, and no file
  but the temporary one beside it has changed; the caller is told success only when the new text is in
  place; and when no call fails, a run of at most the text's length and four calls gets there.\<close>

theorem state_file_is_whole:
  assumes "fs_ok d" and "tmp_of p \<noteq> p" and "write_atomic p text ans d = (d', w)"
    and "q \<noteq> p" and "q \<noteq> tmp_of p"
  shows "fs_read d' p = (if w = Returned (Inr ()) then Some text else fs_read d p)
    \<and> fs_read d' q = fs_read d q
    \<and> (list_all granted ans \<and> length text + 4 \<le> length ans \<longrightarrow> w = Returned (Inr ()))"
proof -
  have run: "undisturbed d p text (d', w)"
    using undisturbed_run [OF assms(1,2), of "text" ans] by (simp add: assms(3))
  have fresh: "undisturbed d p text (d, Creating)"
    using assms(1) by (simp add: undisturbed_def)
  have "list_all granted ans \<and> length text + 4 \<le> length ans \<longrightarrow> w = Returned (Inr ())"
    using granted_run [OF assms(2) _ fresh, of ans] assms(3) by (auto simp: write_atomic_def failed_def)
  with run assms(4,5) show ?thesis by (simp add: undisturbed_def)
qed

definition demo_fs :: fs where
  "demo_fs = \<lparr>names = [''vips.json'' \<mapsto> 0, ''stormlb.toml'' \<mapsto> 1], blocks = [''old'', ''cfg'']\<rparr>"

lemma demo_fs: "fs_ok demo_fs" "tmp_of ''vips.json'' = ''vips.tmp''" "names demo_fs ''vips.tmp'' = None"
  "fs_read demo_fs ''vips.json'' = Some ''old''" "fs_read demo_fs ''stormlb.toml'' = Some ''cfg''"
  by (auto simp: demo_fs_def fs_ok_def fs_read_def ran_def inj_on_def dom_def tmp_of_def with_extension_def
      file_name_def dir_part_def file_stem_def split: if_splits)

lemma state_file_is_whole_witness:
  "fs_read (fst (write_atomic ''vips.json'' ''new'' (replicate 7 (Answered 2)) demo_fs)) ''vips.json'' = Some ''new''
   \<and> fs_read (fst (write_atomic ''vips.json'' ''new'' (replicate 3 (Answered 2)) demo_fs)) ''vips.json'' = Some ''old''"
proof -
  have tmp: "tmp_of ''vips.json'' \<noteq> ''vips.json''" and q: "''stormlb.toml'' \<noteq> ''vips.json''"
    "''stormlb.toml'' \<noteq> tmp_of ''vips.json''"
    by (simp_all add: demo_fs)
  note whole = state_file_is_whole [OF demo_fs(1) tmp prod.collapse [symmetric] q]
  have "snd (write_atomic ''vips.json'' ''new'' (replicate 3 (Answered 2)) demo_fs) \<noteq> Returned (Inr ())"
    by (simp add: write_atomic_def numeral_eq_Suc parent_dir_def split: prod.split)
  moreover have "list_all granted (replicate 7 (Answered 2))" by (simp add: granted_def list_all_iff)
  ultimately show ?thesis
    using whole [of "''new''" "replicate 7 (Answered 2)"] whole [of "''new''" "replicate 3 (Answered 2)"]
    by (simp add: demo_fs)
qed

subsection \<open>Where it is not whole\<close>

text \<open>Two writers, as two API requests on two threads have them: their steps in any order.\<close>

fun two_writers ::
  "string \<Rightarrow> string \<Rightarrow> string \<Rightarrow> (bool \<times> answer) list \<Rightarrow> fs \<times> writer \<times> writer \<Rightarrow> fs \<times> writer \<times> writer" where
  "two_writers p t u [] s = s"
| "two_writers p t u ((False, a) # ans) (d, v, w) =
     (case write_step p t a (d, v) of (d', v') \<Rightarrow> two_writers p t u ans (d', v', w))"
| "two_writers p t u ((True, a) # ans) (d, v, w) =
     (case write_step p u a (d, w) of (d', w') \<Rightarrow> two_writers p t u ans (d', v, w'))"

text \<open>They share the temporary file.  When the second opens (and empties) it between the first one's last
  write and its rename, the first is told its text is saved while the state file is empty; the second then
  writes into the state file itself and is told that its text could not be saved although it was.\<close>

theorem two_writers_tear:
  "\<exists>ans more d v w d' w'. fs_ok demo_fs
     \<and> two_writers ''vips.json'' ''new'' ''newer'' ans (demo_fs, Creating, Creating) = (d, v, w)
     \<and> v = Returned (Inr ()) \<and> fs_read d ''vips.json'' = Some []
     \<and> two_writers ''vips.json'' ''new'' ''newer'' (ans @ more) (demo_fs, Creating, Creating) = (d', v, w')
     \<and> w' = Returned (Inl ''No such file or directory'') \<and> fs_read d' ''vips.json'' = Some ''newer''"
proof -
  let ?one = "(False, Answered 5)" and ?two = "(True, Answered 5)"
  let ?ans = "[?one, ?one, ?one, ?one, ?two, ?two, ?one]"
  let ?more = "[?two, ?two, ?two]"
  let ?run = "\<lambda>ans. two_writers ''vips.json'' ''new'' ''newer'' ans (demo_fs, Creating, Creating)"
  note eval = numeral_eq_Suc demo_fs(2) demo_fs_def fs_read_def parent_dir_def open_trunc_def write_at_def overlay_def
    rename_file_def
  obtain d w where one: "?run ?ans = (d, Returned (Inr ()), w)" "fs_read d ''vips.json'' = Some []"
    by (simp add: eval)
  moreover obtain d' where "?run (?ans @ ?more) = (d', Returned (Inr ()), Returned (Inl ''No such file or directory''))"
    "fs_read d' ''vips.json'' = Some ''newer''"
    by (simp add: eval)
  ultimately show ?thesis using demo_fs(1) by blast
qed

text \<open>A state file whose name ends in \<open>.tmp\<close> is its own temporary file: it is emptied before it is written,
  so a full disk, or a kill, loses what it held.\<close>

theorem tmp_state_file_is_torn:
  "\<exists>d p. fs_ok d \<and> tmp_of p = p \<and> fs_read d p = Some ''old''
     \<and> fs_read (fst (write_atomic p ''new'' [Answered 1, Answered 1, Errno ''No space left on device''] d)) p = Some []"
proof -
  let ?d = "\<lparr>names = [''vips.tmp'' \<mapsto> 0], blocks = [''old'']\<rparr>"
  have "fs_ok ?d" and "tmp_of ''vips.tmp'' = ''vips.tmp''" and "fs_read ?d ''vips.tmp'' = Some ''old''"
    by (simp_all add: fs_ok_def fs_read_def ran_def inj_on_def dom_def tmp_of_def with_extension_def
        file_name_def dir_part_def file_stem_def)
  moreover from this have
    "fs_read (fst (write_atomic ''vips.tmp'' ''new'' [Answered 1, Answered 1, Errno ''No space left on device''] ?d))
       ''vips.tmp'' = Some []"
    by (simp add: write_atomic_def parent_dir_def open_trunc_def fs_read_def)
  ultimately show ?thesis by blast
qed

end
