(* ===== verification/State_File.thy ===== *)
theory State_File
  imports Startup Vips_File Vips_Json
begin

text \<open>
  The state file across a kill and a restart: the document \<open>save\<close> makes of a registry (\<open>src/vips.rs\<close>), its
  text, the calls that put it in place, and the start (\<open>src/main.rs\<close>) that reads what is then there.  How a
  document is printed and parsed is serde_json's: \<open>to_text\<close> and \<open>of_text\<close>.
\<close>

definition save_text :: "(json \<Rightarrow> string) \<Rightarrow> registry \<Rightarrow> string" where
  "save_text to_text reg = to_text (enc_state (saved_vips reg))"

definition read_state :: "(string \<Rightarrow> json option) \<Rightarrow> fs \<Rightarrow> string \<Rightarrow> (string \<times> vip_spec) list option" where
  "read_state of_text d p = Option.bind (fs_read d p) (\<lambda>t. Option.bind (of_text t) dec_state)"

text \<open>What is printed is parsed: the documented contract of the library, for one document.\<close>

definition prints :: "(json \<Rightarrow> string) \<Rightarrow> (string \<Rightarrow> json option) \<Rightarrow> registry \<Rightarrow> bool" where
  "prints to_text of_text reg \<longleftrightarrow> of_text (save_text to_text reg) = Some (enc_state (saved_vips reg))"

lemma read_state_saved:
  assumes "prints to_text of_text reg" and "registry_ok reg" and "fs_read d p = Some (save_text to_text reg)"
  shows "read_state of_text d p = Some (saved_vips reg)"
  using assms dec_enc_state [OF bt_ok_saved_vips [OF registry_okD(2) [OF assms(2)]]]
  by (simp add: read_state_def prints_def)

text \<open>C9: A kill in the middle of a save loses nothing that was saved.  The state file holds what a registry
  \<open>old\<close> saved; a later registry \<open>new\<close> is being saved when the process is killed, after any number of calls
  answered in any way.  The next start, on whatever the file system then holds and whatever of it the node
  refuses to start, keeps for its own next save exactly the VIPs of \<open>new\<close> if the rename was made and exactly
  those of \<open>old\<close> if it was not, and each of them serves or waits in \<open>pending\<close>.\<close>

theorem restart_after_kill:
  assumes "prints to_text of_text old" and "prints to_text of_text new" and "fs_ok d" and "tmp_of p \<noteq> p"
    and "registry_ok old" and "registry_ok new" and "fs_read d p = Some (save_text to_text old)"
    and "write_atomic p (save_text to_text new) ans d = (d', w)"
    and "start_up nd cfg (read_state of_text d' p) = Up st" and "cfg_api cfg = Some a"
    and "api_state_file a = Some p" and "can_read nd p = Inr u"
    and "CONFIG_VIP \<notin> fst ` set (saved_vips old)" and "CONFIG_VIP \<notin> fst ` set (saved_vips new)"
  shows "\<exists>saved. saved = saved_vips (if w = Returned (Inr ()) then new else old)
    \<and> saved_vips (st_registry st) = saved
    \<and> (\<forall>(n, s) \<in> set saved.
         (\<exists>e. map_of (vips (st_registry st)) n = Some e \<and> e_spec e = s) \<or> map_of (pending (st_registry st)) n = Some s)"
proof -
  let ?reg = "if w = Returned (Inr ()) then new else old"
  have "fs_read d' p = Some (save_text to_text ?reg)"
    using undisturbed_run [OF assms(3,4), of "save_text to_text new" ans] assms(7,8)
    by (simp add: undisturbed_def)
  moreover have ok: "registry_ok ?reg" using assms(5,6) by simp
  moreover have "prints to_text of_text ?reg" using assms(1,2) by simp
  ultimately have "read_state of_text d' p = Some (saved_vips ?reg)"
    using read_state_saved by blast
  then have up: "start_up nd cfg (Some (saved_vips ?reg)) = Up st" using assms(9) by (simp only:)
  have "bt_ok (saved_vips ?reg)" "CONFIG_VIP \<notin> fst ` set (saved_vips ?reg)"
    using bt_ok_saved_vips [OF registry_okD(2) [OF ok]] assms(13,14) by auto
  from restart_saved [OF up this assms(10-12)] show ?thesis by blast
qed

text \<open>For the witness: two documents and their names.\<close>

definition demo_old :: registry where
  "demo_old = registry_new (Some ''vips.json'') None"

definition demo_print :: "json \<Rightarrow> string" where
  "demo_print v = (if v = enc_state [] then ''old'' else ''new'')"

definition demo_parse :: "string \<Rightarrow> json option" where
  "demo_parse t = Some (enc_state (if t = ''old'' then [] else [(''kube'', demo_spec 50)]))"

lemma restart_after_kill_witness:
  "\<exists>st. start_up demo_node (demo_config None) (read_state demo_parse
        (fst (write_atomic ''vips.json'' (save_text demo_print demo_registry) (replicate 7 (Answered 2)) demo_fs))
        ''vips.json'') = Up st
     \<and> saved_vips (st_registry st) = [(''kube'', demo_spec 50)]"
proof -
  let ?ans = "replicate 7 (Answered 2)"
  have saved: "saved_vips demo_old = []" "saved_vips demo_registry = [(''kube'', demo_spec 50)]"
    by (simp_all add: saved_vips_def demo_old_def registry_new_def demo_registry demo_entry_def)
  have texts: "save_text demo_print demo_old = ''old''" "save_text demo_print demo_registry = ''new''"
    by (simp_all add: save_text_def saved demo_print_def enc_state_def)
  have codec: "prints demo_print demo_parse demo_old" "prints demo_print demo_parse demo_registry"
    by (simp_all add: prints_def texts saved demo_parse_def)
  have tmp: "tmp_of ''vips.json'' \<noteq> ''vips.json''" by (simp add: demo_fs)
  have oks: "registry_ok demo_old" "registry_ok demo_registry"
    by (simp_all add: demo_old_def registry_new_ok demo_registry_ok)
  obtain d' w where run: "write_atomic ''vips.json'' (save_text demo_print demo_registry) ?ans demo_fs = (d', w)"
    by (rule prod.exhaust)
  have "undisturbed demo_fs ''vips.json'' ''new'' (demo_fs, Creating)"
    using demo_fs(1) by (simp add: undisturbed_def)
  from granted_run [OF tmp _ this, of ?ans] run have w: "w = Returned (Inr ())"
    by (simp add: granted_def list_all_iff failed_def write_atomic_def texts)
  obtain st where up: "start_up demo_node (demo_config None) (read_state demo_parse d' ''vips.json'') = Up st"
    using demo_api_starts by blast
  have cfg: "cfg_api (demo_config None) = Some demo_api" "api_state_file demo_api = Some ''vips.json''"
    "can_read demo_node ''vips.json'' = Inr ()"
    by (simp_all add: demo_config_def demo_api_def demo_node_def)
  have names: "CONFIG_VIP \<notin> fst ` set (saved_vips demo_old)" "CONFIG_VIP \<notin> fst ` set (saved_vips demo_registry)"
    by (simp_all add: saved CONFIG_VIP_def)
  have "fs_read demo_fs ''vips.json'' = Some (save_text demo_print demo_old)" by (simp add: demo_fs texts)
  from restart_after_kill [OF codec demo_fs(1) tmp oks this run up cfg names] show ?thesis
    using up by (simp add: run w saved)
qed

end
