(* ===== verification/Vip_Restart.thy ===== *)
theory Vip_Restart
  imports Vip_Ownership Vips_Types
begin

text \<open>
  A node's registry, the threads of its VRRP instances and its kernel together (\<open>src/vips.rs\<close>,
  \<open>src/vrrp.rs\<close>, \<open>src/vip.rs\<close>): changes of the registry, the start of an instance's thread and the turns
  of its loop are interleaved in any order.  A change only stores the stop flag of the instance it
  replaces and spawns the thread of the new one; it waits for neither.
\<close>

subsection \<open>The node and its steps\<close>

text \<open>Of each instance whose thread has begun, its interface's address and how far its run is.\<close>

record 'k vrrp_node =
  nd_reg :: registry
  nd_threads :: "nat \<Rightarrow> (ipv4 option \<times> outcome) option"
  nd_kernel :: 'k

datatype node_event = Op reg_op | Begin nat start_input | Turn nat turn_input

text \<open>
  An operation on the registry, after which the threads of its new instances have not begun; the code of a
  thread before its loop; one turn of the loop of an instance, which sees its stop flag as it is then.
\<close>

fun node_step :: "'k kernel \<Rightarrow> 'k vrrp_node \<Rightarrow> node_event \<Rightarrow> 'k vrrp_node option" where
  "node_step kern n (Op op) =
     Some (n\<lparr>nd_reg := reg_step (nd_reg n) op,
       nd_threads := (\<lambda>i. if i < length (instances (nd_reg n)) then nd_threads n i else None)\<rparr>)"
| "node_step kern n (Begin i st) =
     (if i < length (instances (nd_reg n)) \<and> nd_threads n i = None
      then (let p = vi_params (instances (nd_reg n) ! i)
            in case run_loop p st [] of
                 (acts, r) \<Rightarrow> Some (n\<lparr>nd_threads := (nd_threads n)(i \<mapsto> (iface_addr st, r)),
                                    nd_kernel := perform kern p (nd_kernel n) acts\<rparr>))
      else None)"
| "node_step kern n (Turn i inp) =
     (case nd_threads n i of
        Some (Some self, Running l) \<Rightarrow>
          (if stop_seen inp = vi_stop (instances (nd_reg n) ! i)
           then (let p = vi_params (instances (nd_reg n) ! i)
                 in case turn p self l inp of
                      (acts, r) \<Rightarrow> Some (n\<lparr>nd_threads := (nd_threads n)(i \<mapsto> (Some self, r)),
                                         nd_kernel := perform kern p (nd_kernel n) acts\<rparr>))
           else None)
      | _ \<Rightarrow> None)"

fun node_run :: "'k kernel \<Rightarrow> 'k vrrp_node \<Rightarrow> node_event list \<Rightarrow> 'k vrrp_node option" where
  "node_run kern n [] = Some n"
| "node_run kern n (e # es) = (case node_step kern n e of None \<Rightarrow> None | Some n' \<Rightarrow> node_run kern n' es)"

definition node_new :: "string option \<Rightarrow> (string \<times> vip_spec) list option \<Rightarrow> 'k \<Rightarrow> 'k vrrp_node" where
  "node_new file content k =
     \<lparr>nd_reg = registry_new file content, nd_threads = (\<lambda>_. None), nd_kernel = k\<rparr>"

lemma node_step_registry:
  "node_step kern n e = Some n' \<Longrightarrow> nd_reg n' = nd_reg n \<or> (\<exists>op. nd_reg n' = reg_step (nd_reg n) op)"
  by (cases e) (auto simp: Let_def split: if_splits option.splits prod.splits outcome.splits)

lemma node_run_registry:
  "node_run kern n es = Some n' \<Longrightarrow> \<exists>ops. nd_reg n' = foldl reg_step (nd_reg n) ops"
proof (induction es arbitrary: n)
  case Nil
  then show ?case by (intro exI [of _ "[]"]) simp
next
  case (Cons e es)
  then obtain n1 where one: "node_step kern n e = Some n1" and rest: "node_run kern n1 es = Some n'"
    by (auto split: option.splits)
  from Cons.IH [OF rest] obtain ops where ops: "nd_reg n' = foldl reg_step (nd_reg n1) ops" by blast
  from node_step_registry [OF one] show ?case
  proof
    assume "nd_reg n1 = nd_reg n"
    with ops show ?thesis by auto
  next
    assume "\<exists>op. nd_reg n1 = reg_step (nd_reg n) op"
    then obtain op where "nd_reg n1 = reg_step (nd_reg n) op" by blast
    with ops show ?thesis by (intro exI [of _ "op # ops"]) simp
  qed
qed

lemma node_run_after:
  assumes "node_run kern (node_new file content k) es = Some n"
  obtains ops where "nd_reg n = reg_after file content ops"
  using node_run_registry [OF assms] by (auto simp: node_new_def reg_after_def)

lemma node_run_append:
  "node_run kern n es = Some n1 \<Longrightarrow> node_run kern n (es @ fs) = node_run kern n1 fs"
  by (induction es arbitrary: n) (auto split: option.splits)

subsection \<open>A change that restarts VRRP\<close>

lemma restart_starts_another:
  assumes "registry_ok reg" and "typed reg" and "map_of (vips reg) name = Some e" and "e_vrrp e = Some i"
    and "apply_vip nd reg name s = (Inr b, reg')" and "v_vrrp s = Some v" and "v_vrrp s \<noteq> v_vrrp (e_spec e)"
    and "parse_ip (v_address s) = Some (V4 vip)"
  shows "owns reg' name = Some (length (instances reg))"
    and "instances reg' = (instances reg)[i := (instances reg ! i)\<lparr>vi_stop := True\<rparr>]
        @ [\<lparr>vi_params = vrrp_params v vip, vi_stop = False, vi_state = 0\<rparr>]"
proof -
  have bt: "bt_ok (vips reg)" using assms(1) by (rule registry_okD)
  have "\<exists>reg1 r1. put nd reg name s False = (Inr b, reg1)
      \<and> save nd (reg1\<lparr>pending := bt_remove name (pending reg1)\<rparr>) = (r1, reg')"
    using assms(5)
  proof (cases rule: apply_vip_cases)
    case (put b' reg1 r1)
    then have "b' = b" by (cases r1) (simp_all add: rbind_def)
    with put show ?thesis by blast
  qed simp_all
  then obtain reg1 r1 where p: "put nd reg name s False = (Inr b, reg1)"
    and saved: "save nd (reg1\<lparr>pending := bt_remove name (pending reg1)\<rparr>) = (r1, reg')" by blast
  note frame = save_frame [OF saved]
  from p obtain c where c: "check_spec s = Inr c" and u: "update_vip nd reg name s c e = (Inr b, reg1)"
    using assms(3) by (cases rule: put_cases) auto
  from u obtain ck h reg2 where start: "start_vrrp (stop_instance reg (Some i)) s (c_vrrp_vip c) = (h, reg2)"
    and reg1: "reg1 = set_entry reg2 name (moved e c\<lparr>e_checker := ck, e_vrrp := h, e_spec := s\<rparr>)"
    using assms(4,7) by (cases rule: update_vip_cases) auto
  obtain a where a: "c_vrrp_vip c = Some a"
    using check_vrrp_none [OF c] assms(6) by auto
  have "a = vip" using check_spec_vrrp [OF c assms(6) a] assms(8) by simp
  with start assms(6) a have "h = Some (length (instances reg))"
    and "instances reg2 = instances (stop_instance reg (Some i))
      @ [\<lparr>vi_params = vrrp_params v vip, vi_stop = False, vi_state = 0\<rparr>]"
    by (auto simp: start_vrrp_def stop_instance_def)
  moreover have "vips reg2 = vips reg"
    using start_vrrp_frame(1) [OF start] by (simp add: stop_instance_def)
  ultimately show "owns reg' name = Some (length (instances reg))"
    and "instances reg' = (instances reg)[i := (instances reg ! i)\<lparr>vi_stop := True\<rparr>]
        @ [\<lparr>vi_params = vrrp_params v vip, vi_stop = False, vi_state = 0\<rparr>]"
    using frame bt by (simp_all add: reg1 owns_def stop_instance_def)
qed

lemma instance_of_typed:
  assumes "typed reg" and "map_of (vips reg) name = Some e" and "e_vrrp e = Some i"
    and "v_vrrp (e_spec e) = Some v" and "parse_ip (v_address (e_spec e)) = Some (V4 vip)"
  shows "i < length (instances reg)" and "vi_params (instances reg ! i) = vrrp_params v vip"
proof -
  have "entry_typed (started_with reg) e" using assms(1,2) by (simp add: typed_def)
  then obtain c a where c: "check_spec (e_spec e) = Inr c" "c_vrrp_vip c = Some a" "i < length (instances reg)"
    and p: "started_with reg ! i = vrrp_params v a"
    using assms(3,4) by (auto simp: entry_typed_def started_with_def)
  moreover have "a = vip" using check_spec_vrrp [OF c(1) assms(4) c(2)] assms(5) by simp
  ultimately show "i < length (instances reg)" and "vi_params (instances reg ! i) = vrrp_params v vip"
    by (simp_all add: started_with_def)
qed

subsection \<open>Turns of a Master\<close>

lemma quiet_master_calls_nothing:
  assumes "quiet t" and "is_up l" and "turn p self l t = (acts, r)"
  shows "perform kern p k acts = k"
  using assms
  by (auto simp: quiet_def turn_steady receive_def on_timeout_def is_up_def Let_def split: if_splits)

lemma quiet_turns_call_nothing:
  assumes "\<forall>t \<in> set ts. quiet t" and "nd_threads n j = Some (Some self, Running l)" and "is_up l"
    and "\<not> vi_stop (instances (nd_reg n) ! j)"
  shows "\<exists>n' l'. node_run kern n (map (Turn j) ts) = Some n' \<and> nd_threads n' j = Some (Some self, Running l')
    \<and> is_up l' \<and> nd_kernel n' = nd_kernel n"
  using assms
proof (induction ts arbitrary: n l)
  case (Cons t ts)
  let ?p = "vi_params (instances (nd_reg n) ! j)"
  obtain acts l1 where t: "turn ?p self l t = (acts, Running l1)" "is_up l1"
    using quiet_master [of t l ?p self] Cons.prems by auto
  let ?n1 = "n\<lparr>nd_threads := (nd_threads n)(j \<mapsto> (Some self, Running l1))\<rparr>"
  have same: "perform kern ?p (nd_kernel n) acts = nd_kernel n"
    using Cons.prems by (intro quiet_master_calls_nothing [OF _ _ t(1)]) auto
  have "\<not> stop_seen t" using Cons.prems(1) by (simp add: quiet_def steady_def)
  then have "node_step kern n (Turn j t) = Some (?n1\<lparr>nd_kernel := nd_kernel n\<rparr>)"
    using Cons.prems t same by (simp add: Let_def)
  moreover have "\<exists>n' l'. node_run kern (?n1\<lparr>nd_kernel := nd_kernel n\<rparr>) (map (Turn j) ts) = Some n'
      \<and> nd_threads n' j = Some (Some self, Running l') \<and> is_up l' \<and> nd_kernel n' = nd_kernel (?n1\<lparr>nd_kernel := nd_kernel n\<rparr>)"
    using Cons.prems t(2) by (intro Cons.IH [of _ l1]) auto
  ultimately show ?case by simp
qed simp

subsection \<open>Properties\<close>

text \<open>C40: An update that restarts the VRRP instance of a VIP can lose the VIP.  On any node, however it came
  there, whose instance is Master, let an accepted put give the VIP other VRRP numbers, of priority 255, on
  the same interface and address: the put only sets the old instance's stop flag.  When the new one's thread
  begins before the old one's next turn, which may be half a second away, it claims the address, which is
  still there; then the old one resigns and releases it.  Now the instance the VIP owns runs and is Master
  and the address is not on the interface; and as it is Master already it does not claim it again, however
  many quiet turns it makes.\<close>

theorem restarted_owner_loses_vip:
  assumes "rtnetlink kern links addrs"
    and "node_run kern (node_new file content k) es = Some n"
    and "map_of (vips (nd_reg n)) name = Some e" and "e_vrrp e = Some i" and "v_vrrp (e_spec e) = Some v0"
    and "nd_threads n i = Some (Some self, Running l)" and "is_up l"
    and "apply_vip nd (nd_reg n) name s = (Inr b, reg')" and "v_vrrp s = Some v" and "v \<noteq> v0"
    and "vs_priority v = 255" and "vs_interface v = vs_interface v0"
    and "v_address s = v_address (e_spec e)" and "parse_ip (v_address s) = Some (V4 vip)"
    and "map_of (links (nd_kernel n)) (vs_interface v) = Some nic"
    and "iface_addr st = Some self" and "socket_ok st" and "start_healthy st"
    and "fst (release kern (snd (claim kern (nd_kernel n) (show_ipv4 vip) (vs_interface v)))
           (show_ipv4 vip) (vs_interface v)) = Inr ()"
  shows "\<exists>j n' l'. node_run kern n [Op (Apply nd name s), Begin j st, Turn i stop_turn] = Some n'
    \<and> owns (nd_reg n') name = Some j \<and> \<not> vi_stop (instances (nd_reg n') ! j)
    \<and> nd_threads n' j = Some (Some self, Running l') \<and> is_up l'
    \<and> (\<forall>ts. (\<forall>t \<in> set ts. quiet t) \<longrightarrow>
        (\<exists>n'' l''. node_run kern n' (map (Turn j) ts) = Some n'' \<and> nd_threads n'' j = Some (Some self, Running l'')
          \<and> is_up l'' \<and> (index nic, vip) \<notin> addrs (nd_kernel n'')))"
proof -
  obtain ops where after: "nd_reg n = reg_after file content ops"
    using assms(2) by (rule node_run_after)
  have ok: "registry_ok (nd_reg n)" "typed (nd_reg n)"
    unfolding after by (rule reg_after_ok, rule reg_after_typed)
  have address: "parse_ip (v_address (e_spec e)) = Some (V4 vip)" using assms(13,14) by simp
  note old = instance_of_typed [OF ok(2) assms(3-5) address]
  have "v_vrrp s \<noteq> v_vrrp (e_spec e)" using assms(5,9,10) by simp
  note new = restart_starts_another [OF ok assms(3,4,8,9) this assms(14)]
  let ?j = "length (instances (nd_reg n))" and ?q = "vrrp_params v vip" and ?p = "vrrp_params v0 vip"
  have same: "p_iface ?p = vs_interface v" "p_iface ?q = vs_interface v" "p_vip ?p = vip" "p_vip ?q = vip"
    "p_priority ?q = 255"
    using assms(11,12) by (simp_all add: vrrp_params_def)
  obtain l' where begun: "run_loop ?q st [] = ([Claim], Running l')" and up: "is_up l'"
    using owner_starts [OF same(5) assms(16-18)] by metis
  obtain m where stopped: "turn ?p self l stop_turn = ([Send m, Release], Stopped)"
    using assms(7) by (simp add: turn_def stop_turn_def is_up_def)
  let ?k1 = "snd (claim kern (nd_kernel n) (show_ipv4 vip) (vs_interface v))"
  let ?k2 = "snd (release kern ?k1 (show_ipv4 vip) (vs_interface v))"
  obtain r1 where claimed: "claim kern (nd_kernel n) (show_ipv4 vip) (vs_interface v) = (r1, ?k1)"
    by (metis prod.collapse)
  have released: "release kern ?k1 (show_ipv4 vip) (vs_interface v) = (Inr (), ?k2)"
    using assms(19) by (metis prod.collapse)
  have "links ?k1 = links (nd_kernel n)" by (rule claim_kernel(1) [OF assms(1) claimed])
  then have gone: "(index nic, vip) \<notin> addrs ?k2"
    using release_kernel(3) [OF assms(1) released refl] assms(15) by auto
  have reg': "reg_step (nd_reg n) (Apply nd name s) = reg'" using assms(8) by simp
  have at: "instances reg' ! i = (instances (nd_reg n) ! i)\<lparr>vi_stop := True\<rparr>"
    "instances reg' ! ?j = \<lparr>vi_params = ?q, vi_stop = False, vi_state = 0\<rparr>" "length (instances reg') = Suc ?j"
    using old(1) by (simp_all add: new(2) nth_append)
  let ?th = "\<lambda>m. if m < ?j then nd_threads n m else None"
  let ?n1 = "n\<lparr>nd_reg := reg', nd_threads := ?th\<rparr>"
  let ?n2 = "?n1\<lparr>nd_threads := ?th(?j \<mapsto> (Some self, Running l')), nd_kernel := ?k1\<rparr>"
  let ?n3 = "?n2\<lparr>nd_threads := ?th(?j \<mapsto> (Some self, Running l'), i \<mapsto> (Some self, Stopped)), nd_kernel := ?k2\<rparr>"
  have put: "node_step kern n (Op (Apply nd name s)) = Some ?n1" by (simp only: node_step.simps reg')
  have begin_: "node_step kern ?n1 (Begin ?j st) = Some ?n2"
    using begun at(2,3) same assms(16) by (simp add: Let_def)
  have "nd_threads ?n2 i = Some (Some self, Running l)" using old(1) assms(6) by simp
  moreover have "stop_seen stop_turn" by (simp add: stop_turn_def)
  ultimately have stop: "node_step kern ?n2 (Turn i stop_turn) = Some ?n3"
    using stopped at(1) old(2) same by (simp add: Let_def)
  have run: "node_run kern n [Op (Apply nd name s), Begin ?j st, Turn i stop_turn] = Some ?n3"
    by (simp only: node_run.simps put begin_ stop option.case)
  have there: "owns (nd_reg ?n3) name = Some ?j" "\<not> vi_stop (instances (nd_reg ?n3) ! ?j)"
    "nd_threads ?n3 ?j = Some (Some self, Running l')" and k2: "nd_kernel ?n3 = ?k2"
    using new(1) at(2) old(1) by simp_all
  have "\<exists>n'' l''. node_run kern ?n3 (map (Turn ?j) ts) = Some n'' \<and> nd_threads n'' ?j = Some (Some self, Running l'')
      \<and> is_up l'' \<and> (index nic, vip) \<notin> addrs (nd_kernel n'')" if "\<forall>t \<in> set ts. quiet t" for ts
    using quiet_turns_call_nothing [OF that there(3) up there(2), of kern] gone unfolding k2 by metis
  with run there up show ?thesis by blast
qed

text \<open>For the witness: a Backup of priority 100 that took over when nothing was heard, then a put of 255.\<close>

lemma demo_instance:
  "vi_params (vrrp_started prio) = vrrp_params (the (v_vrrp (vrrp_demo prio))) (Ipv4 192 168 8 50)"
  "\<not> vi_stop (vrrp_started prio)"
  by (simp_all add: vrrp_started_def vrrp_params_def)

lemma demo_backup_begins:
  "\<exists>l. run_loop (vi_params (vrrp_started 100)) eth_start [] = ([], Running l) \<and> state (vr l) = Backup
     \<and> master_down_deadline l = 3600000000"
  by (simp add: vrrp_started_def run_loop_def eth_start_def begin_loop_def vr_start_def vr_new_def Let_def
      master_down_interval_centis_def skew_centis_def centis_def millis_def)

lemma demo_node_takes_over:
  "\<exists>n l. node_run demo_kernel (node_new (Some ''vips.json'') None [])
      [Op (Apply Vips_Props.demo_node ''kube'' (vrrp_demo 100)), Begin 0 eth_start, Turn 0 (demo_turn WouldBlock 3500000000)]
      = Some n
    \<and> vips (nd_reg n) = [(''kube'', vrrp_entry 100 0 demo_checker)]
    \<and> nd_threads n 0 = Some (Some (Ipv4 192 168 8 11), Running l) \<and> is_up l"
proof -
  let ?new = "registry_new (Some ''vips.json'') None"
  have new: "vips ?new = []" "instances ?new = []" "\<not> is_config_vip ?new ''kube''"
    by (simp_all add: registry_new_def is_config_vip_def)
  from apply_on_demo_node [OF put_vrrp [OF new(1), of 100] new(3)] new(1,2)
  obtain reg1 where one: "apply_vip Vips_Props.demo_node ?new ''kube'' (vrrp_demo 100) = (Inr True, reg1)"
    and reg1: "vips reg1 = [(''kube'', vrrp_entry 100 0 demo_checker)]" "instances reg1 = [vrrp_started 100]"
    by (auto simp: set_entry_def)
  obtain l where begun: "run_loop (vi_params (vrrp_started 100)) eth_start [] = ([], Running l)"
    and l: "state (vr l) = Backup" "master_down_deadline l = 3600000000"
    using demo_backup_begins by blast
  let ?t = "demo_turn WouldBlock 3500000000" and ?self = "Ipv4 192 168 8 11"
  have t: "quiet ?t" "woke_at ?t = 4000000000" "\<not> stop_seen ?t"
    by (simp_all add: demo_turn_def quiet_def steady_def)
  then obtain acts l' where turn: "turn (vi_params (vrrp_started 100)) ?self l ?t = (acts, Running l')" and up: "is_up l'"
    using quiet_backup [OF t(1) l(1), of "vi_params (vrrp_started 100)" ?self] l(2) by auto
  have "iface_addr eth_start = Some ?self" by (simp add: eth_start_def)
  then show ?thesis
    using one reg1 begun t(3) turn up demo_instance(2) by (simp add: node_new_def new(2) Let_def)
qed

lemma restarted_owner_loses_vip_witness:
  "\<exists>n n' j l'. node_run demo_kernel (node_new (Some ''vips.json'') None [])
      [Op (Apply Vips_Props.demo_node ''kube'' (vrrp_demo 100)), Begin 0 eth_start, Turn 0 (demo_turn WouldBlock 3500000000)]
      = Some n
    \<and> node_run demo_kernel n [Op (Apply Vips_Props.demo_node ''kube'' (vrrp_demo 255)), Begin j eth_start, Turn 0 stop_turn]
      = Some n'
    \<and> owns (nd_reg n') ''kube'' = Some j \<and> nd_threads n' j = Some (Some (Ipv4 192 168 8 11), Running l') \<and> is_up l'
    \<and> (2, Ipv4 192 168 8 50) \<notin> set (nd_kernel n')"
proof -
  obtain n l where n: "node_run demo_kernel (node_new (Some ''vips.json'') None [])
      [Op (Apply Vips_Props.demo_node ''kube'' (vrrp_demo 100)), Begin 0 eth_start, Turn 0 (demo_turn WouldBlock 3500000000)]
      = Some n"
    and vips: "vips (nd_reg n) = [(''kube'', vrrp_entry 100 0 demo_checker)]"
    and thread: "nd_threads n 0 = Some (Some (Ipv4 192 168 8 11), Running l)" "is_up l"
    using demo_node_takes_over by blast
  have e: "map_of (vips (nd_reg n)) ''kube'' = Some (vrrp_entry 100 0 demo_checker)" by (simp add: vips)
  have entry: "e_vrrp (vrrp_entry 100 0 demo_checker) = Some 0" "e_spec (vrrp_entry 100 0 demo_checker) = vrrp_demo 100"
    by (simp_all add: vrrp_entry_def)
  have "\<not> is_config_vip (nd_reg n) ''kube''"
    by (simp add: is_config_vip_def vips vrrp_entry_def demo_entry_def)
  from apply_on_demo_node [OF put_vrrp_again [OF vips, of 255] this]
  obtain reg' where put: "apply_vip Vips_Props.demo_node (nd_reg n) ''kube'' (vrrp_demo 255) = (Inr False, reg')"
    by auto
  let ?v = "\<lambda>prio. the (v_vrrp (vrrp_demo prio))"
  have v: "v_vrrp (vrrp_demo prio) = Some (?v prio)" "vs_interface (?v prio) = ''eth0''" "vs_priority (?v prio) = prio" for prio
    by simp_all
  have v0: "v_vrrp (e_spec (vrrp_entry 100 0 demo_checker)) = Some (?v 100)" by (simp add: entry)
  have differ: "?v 255 \<noteq> ?v 100" and iface: "vs_interface (?v 255) = vs_interface (?v 100)" by simp_all
  have address: "v_address (vrrp_demo 255) = v_address (e_spec (vrrp_entry 100 0 demo_checker))"
    "parse_ip (v_address (vrrp_demo 255)) = Some (V4 (Ipv4 192 168 8 50))"
    by (simp_all add: entry demo_spec_def)
  have nic: "map_of demo_links (vs_interface (?v 255)) = Some \<lparr>index = 2, mac = [2, 0, 0, 0, 0, 1]\<rparr>"
    by (simp add: demo_links_def)
  have started: "iface_addr eth_start = Some (Ipv4 192 168 8 11)" "socket_ok eth_start" "start_healthy eth_start"
    by (simp_all add: eth_start_def)
  have "fst (release demo_kernel (snd (claim demo_kernel (nd_kernel n) (show_ipv4 (Ipv4 192 168 8 50)) (vs_interface (?v 255))))
      (show_ipv4 (Ipv4 192 168 8 50)) (vs_interface (?v 255))) = Inr ()"
    unfolding v(2) demo_release by simp
  from restarted_owner_loses_vip [OF demo_kernel n e entry(1) v0 thread put v(1) differ v(3) iface address nic started this]
  obtain j n' l' where run: "node_run demo_kernel n [Op (Apply Vips_Props.demo_node ''kube'' (vrrp_demo 255)),
        Begin j eth_start, Turn 0 stop_turn] = Some n'"
    and end_: "owns (nd_reg n') ''kube'' = Some j" "nd_threads n' j = Some (Some (Ipv4 192 168 8 11), Running l')" "is_up l'"
    and lost: "\<forall>ts. (\<forall>t \<in> set ts. quiet t) \<longrightarrow> (\<exists>n'' l''. node_run demo_kernel n' (map (Turn j) ts) = Some n''
      \<and> nd_threads n'' j = Some (Some (Ipv4 192 168 8 11), Running l'') \<and> is_up l''
      \<and> (index \<lparr>index = 2, mac = [2, 0, 0, 0, 0, 1]\<rparr>, Ipv4 192 168 8 50) \<notin> set (nd_kernel n''))"
    by blast
  from lost [rule_format, of "[]"] have "(2, Ipv4 192 168 8 50) \<notin> set (nd_kernel n')" by auto
  with n run end_ show ?thesis by blast
qed

end
