(* ===== verification/Spec2Isabelle.thy ===== *)
theory Spec2Isabelle
  imports Pool Vrrp_Network Bgp_Session Vip_Announce Vip_Socket Balancer L4_Listen Failover Vip_System Vips_Concurrent
    Bgp_Peering Router_System Tls_Certs Serving Metrics_Process Config_Load State_File
    Vip_Restart
begin

text \<open>
  A verification library of stormlb, the load balancer of a storm node: virtual IPs (VIPs) that move
  between nodes (VRRP) or are announced by several (BGP), the pools of backends behind them with their
  health checks, the L4 proxy, the registry of the VIPs that are made and changed at runtime with its
  HTTP API, and the L7 router that sends requests to backends by their Host.  The files named \<open>x.rs\<close>
  below are the repository's \<open>src/x.rs\<close>.

  How the program works.  \<open>main.rs\<close> starts what the configuration asks for.  \<open>vips.rs\<close> keeps a registry of
  named VIPs.  Each has a pool of backends (\<open>pool.rs\<close>), a task that probes them (\<open>health.rs\<close>), a listener
  that proxies every connection to a healthy one (\<open>balancer.rs\<close>), and perhaps a VRRP instance on its own
  thread (\<open>vrrp.rs\<close>) that claims and releases the address through rtnetlink (\<open>vip.rs\<close>).  For the VIP of
  the config file, \<open>bgp.rs\<close> announces a /32 to each peer while the pool has a healthy member.  \<open>api.rs\<close>
  changes the registry over HTTP.  \<open>router.rs\<close> polls the apiserver for routes and demuxes connections,
  plain or behind the certificates of \<open>tls.rs\<close>.  All of it counts into \<open>metrics.rs\<close>.

  The theories.  \<^bold>\<open>Prelude\<close> has the machine integers, results (\<open>Inl\<close> is the error), byte orders and
  ordered maps the others share; \<^bold>\<open>Rust_Strings\<close>, \<^bold>\<open>Rust_Text\<close> and \<^bold>\<open>Net\<close> what the code uses of Rust's
  strings (UTF-8, trimming, splitting, searching), of reads from a stream, and of \<open>std::net\<close> (the parsers
  and printers of addresses); \<^bold>\<open>Json\<close> the trees of JSON and TOML documents and what serde's derived
  decoders do with them; \<^bold>\<open>Interfaces\<close> the contracts: a pool as its users see it, a codec of frames on a
  byte stream, and a controller that claims and releases a VIP (the trait \<open>VipController\<close>).  Then the
  components:

  \<^item> \<^bold>\<open>Pool\<close> (\<open>pool.rs\<close>): the pool as a list of indices into an arena of backends, so that a probe of a
    backend that has left the pool still writes to its (unshared) flag.  Its abstraction is the list of
    addresses with their health; \<open>set_addrs\<close> refines a replacement of that list, \<open>pick\<close> a rotation.
  \<^item> \<^bold>\<open>Vrrp_Machine\<close>, \<^bold>\<open>Vrrp_Wire\<close>, \<^bold>\<open>Vrrp_Loop\<close> (\<open>vrrp.rs\<close>): the state machine, the advertisement's codec
    and the control loop.  A turn of the loop is a function of the state and of what the world answered
    in it (stop flag, health, clock, datagram), whose result holds the calls it made; a run is a list
    of turns.  The lemmas keep a ledger of claims and releases.  \<^bold>\<open>Vrrp_Network\<close> puts several such nodes on
    a network, where what one hears are the bytes another sent.
  \<^item> \<^bold>\<open>Bgp_Wire\<close>, \<^bold>\<open>Bgp_Session\<close> (\<open>bgp.rs\<close>): messages, the reader, the handshake and the Established loop.
    An arm of \<open>select!\<close> is an event, enabled when its wait is over; a run is a list of events.  A
    decoder written from RFC 4271 is the specification of the UPDATEs.  \<^bold>\<open>Bgp_Peering\<close> is the task of a peer,
    one session after the other, with the health watch beside it and the peer's table at the other end.
  \<^item> \<^bold>\<open>Vip_Netlink\<close> (\<open>vip.rs\<close>): netlink messages and attributes, requests with their replies, claim and
    release over a kernel that is a parameter; \<open>rtnetlink\<close> is the documented contract of that kernel:
    any call may fail, any errno may refuse a request (an unknown interface, a missing privilege), an answer
    may be lost, and a dump comes in any datagrams with any attributes, among messages of others; only what
    it acknowledges it has done.  \<open>demo_kernel\<close> keeps it.  \<^bold>\<open>Vip_Socket\<close> has the netlink socket one system call
    at a time, with the limit on the wait of \<open>recv\<close> that \<open>open\<close> sets, and shows that every request returns and
    that the calls make the kernel of \<^bold>\<open>Vip_Netlink\<close>.  \<^bold>\<open>Vip_Ownership\<close> makes the calls of VRRP runs on such a
    kernel; \<open>rtnetlink_vip\<close>, a sublocale of the controller's contract, is that kernel as the loop sees it.
    \<^bold>\<open>Vip_Restart\<close> is a node whose registry changes while the threads of its VRRP instances begin and turn.  \<^bold>\<open>Vip_Announce\<close> is the thread
    that sends the gratuitous ARPs, and what a neighbour's cache makes of them.
  \<^item> \<^bold>\<open>Config\<close> (\<open>config.rs\<close> and the config records of \<open>router.rs\<close>, \<open>tls.rs\<close>, \<open>metrics.rs\<close>) and \<^bold>\<open>Config_Load\<close>
    (the defaults and the decoding of a document's tree), \<^bold>\<open>Metrics\<close> (\<open>metrics.rs\<close>: what is recorded),
    \<^bold>\<open>Metrics_Page\<close> (the exposition, with the VIPs' series at scrape time) and \<^bold>\<open>Metrics_Process\<close> (the
    process's own series), \<^bold>\<open>Health\<close> (\<open>health.rs\<close>; files, PEM, connecting and HTTP are a record of parameters)
    and \<^bold>\<open>Health_Run\<close> (its loop in time), \<^bold>\<open>Balancer\<close> (\<open>balancer.rs\<close>; events of the connections' tasks, interleaved
    with each other and with changes of the pool) and \<^bold>\<open>L4_Listen\<close> (\<open>bind\<close>'s system calls, on a kernel that
    keeps Linux's rule for listening sockets).  \<^bold>\<open>Vip_System\<close> is one running VIP: health loop, connections,
    VRRP thread and the API's changes over one pool and one interface, as an inductive step relation.
  \<^item> \<^bold>\<open>Vips\<close> (\<open>vips.rs\<close>), with \<^bold>\<open>Vips_Proofs\<close> (the invariant \<open>registry_ok\<close> and what each operation
    does to it), \<^bold>\<open>Vips_Props\<close> (the properties) and \<^bold>\<open>Vips_Types\<close> (only validated specs run, and their
    VRRP instances have their parameters).  There an operation is one function; \<^bold>\<open>Vips_Concurrent\<close> cuts it
    where the code holds no lock and interleaves many.  \<^bold>\<open>Vips_Json\<close> has the derived encoders and decoders,
    \<^bold>\<open>Vips_File\<close> \<open>write_atomic\<close> call by call on a file system of names and blocks, and \<^bold>\<open>State_File\<close> the text that is
    saved and the start that reads it.
  \<^item> \<^bold>\<open>Api\<close> (\<open>api.rs\<close>) and \<^bold>\<open>Api_Props\<close>: a connection's task, from the pieces a request comes in over the
    token to the registry's operations and the bytes of the answer.  An answer that never comes
    (a panic, a read that waits) is \<open>None\<close>.  \<^bold>\<open>Serving\<close> has the accept loops of the API and of the metrics, with
    their time limits.
  \<^item> \<^bold>\<open>Router_Http\<close>, \<^bold>\<open>Router_Conn\<close>, \<^bold>\<open>Router_Table\<close>, \<^bold>\<open>Router_Listen\<close> (\<open>router.rs\<close>): what is read of a request
    and what its head becomes; a connection as the list of what it sends and dials, with what it counts;
    the route table and the polls that refresh it (JSON as a datatype, the apiserver, files and PEM as a
    record of answers); the listeners.  \<^bold>\<open>Tls_Certs\<close> (\<open>tls.rs\<close>): loading, reloading and choosing a pair.
    \<^bold>\<open>Router_System\<close> is the running router, an inductive step relation: polls, reloads and connections, each
    of which reads what is shared at its own times.
  \<^item> \<^bold>\<open>Startup\<close> (\<open>main.rs\<close>): what is started in which order, the health watch that feeds the BGP sessions, and
    the properties that span the start, the registry, the state file and BGP.

  What the properties show.  Within a component: invariants over all runs, what each operation does on
  success and on error, codecs against their format, timers and bounds.  Across components: the node
  holds the VIP exactly while it is Master, as far as the last call for it succeeded (loop, controller and kernel), the BGP route follows the pool
  (pool, watch and every session of a peer), a restart keeps every saved VIP, also one after a kill in the middle of a save
  (start, registry, encoding and file system), several Masters end with one holder of the address (loop,
  codec and controller of every node), a claim redirects every neighbour (controller, thread and caches),
  a dead backend is out of the rotation in time (loop, pool and pick), a node whose backends are all dead hands
  the VIP to another (\<^bold>\<open>Failover\<close>: health loop, pool and two control loops), and the page shows the registry's
  VRRP states (registry and metrics).  Over all interleavings of the tasks, by rule induction on the runs of
  the step relations: clients of a VIP are only dialled to backends its probes vouch for, and its pool, gauge
  and interface stay sound; the router passes requests only by routes from a verified apiserver, and plain
  ones no more once TLS serves.  The fine-grained models refine the coarse ones: the requests cut at
  their locks linearise to \<open>apply\<close> and \<open>remove\<close>, the system calls of a socket or a file to one step.  Some
  theorems say where the code falls short of what it means: an update of VRRP that loses the VIP (registry,
  threads, controller and kernel),
  concurrent saves that lose one or tear the file, a released VIP that is announced once more; all but the
  first stand in their theories without a number, beside smaller properties.

  Bounds.  Nothing runs on fuel: every loop of the code that ends by itself is a total function, the one
  that ends only if the kernel lets it (\<open>nl_replies\<close>) a partial one with a proof of when it returns, and a
  loop that serves until it is stopped is a function of the finite list of its turns, reads, polls or
  events, so the statements speak of every finite run.  Instants are natural numbers of nanoseconds;
  durations, counters, priorities, intervals and the pool's cursor keep their widths.

  Not modelled: the text grammars of JSON and TOML and \<open>f64\<close>'s arithmetic and printing (parameters); the
  bytes \<open>copy_bidirectional\<close> moves for the L4 proxy (tokio's); the options of the VRRP socket beyond their
  success; the scheduling of threads and tasks beyond the interleavings above; \<open>BackendCfg::socket_addr\<close>,
  which only tests use; the builder of the TLS server's configuration; the command line and logging.
\<close>

end
